(* ===== verification/Go_Prelude.thy ===== *)
theory Go_Prelude
  imports
    Main
    "HOL-Library.Finite_Map"
    "HOL-Library.Sublist"
    "HOL-Library.Word"
    "HOL-Library.Char_ord"
    "HOL-Library.List_Lexorder"
    "HOL-Library.Code_Target_Numeral"
begin

text \<open>
  What every component shares: results with an error side, the functions of Go's package
  \<open>strings\<close> that the sources call, and the collections of hints the other theories add to.

  Go strings are byte strings; a \<open>string\<close> here is a list of \<open>char\<close>, one \<open>char\<close> for a
  byte, so \<open>length\<close> is Go's \<open>len\<close> and the order of \<open>List_Lexorder\<close> is the byte order
  \<open>sort.Strings\<close> uses.
\<close>

named_theorems go_defs \<open>definitions of the model that proofs unfold together\<close>
named_theorems go_frame \<open>what an operation leaves unchanged\<close>

section \<open>Results\<close>

text \<open>
  A Go function that returns a pair of a value and an error is a function into a sum:
  \<open>Inl\<close> is a non-nil error, \<open>Inr\<close> the value with a nil error.
\<close>

definition bind_res :: "'e + 'a \<Rightarrow> ('a \<Rightarrow> 'e + 'b) \<Rightarrow> 'e + 'b" where
  "bind_res r f = (case r of Inl e \<Rightarrow> Inl e | Inr a \<Rightarrow> f a)"

lemma bind_res_simps [simp]:
  "bind_res (Inl e) f = Inl e"
  "bind_res (Inr a) f = f a"
  by (simp_all add: bind_res_def)

lemma bind_res_Inr_iff:
  "bind_res r f = Inr b \<longleftrightarrow> (\<exists>a. r = Inr a \<and> f a = Inr b)"
  by (cases r) simp_all

lemma bind_res_cong [fundef_cong]:
  assumes "r = r'" and "\<And>a. r' = Inr a \<Longrightarrow> f a = g a"
  shows "bind_res r f = bind_res r' g"
  using assms by (cases r') simp_all

text \<open>The loop that applies a fallible function to each element and stops at the first error.\<close>

fun map_res :: "('a \<Rightarrow> 'e + 'b) \<Rightarrow> 'a list \<Rightarrow> 'e + 'b list" where
  "map_res f [] = Inr []"
| "map_res f (x # xs) =
     (case f x of
        Inl e \<Rightarrow> Inl e
      | Inr y \<Rightarrow> (case map_res f xs of Inl e \<Rightarrow> Inl e | Inr ys \<Rightarrow> Inr (y # ys)))"

lemma map_res_cong [fundef_cong]:
  assumes "xs = ys" and "\<And>x. x \<in> set ys \<Longrightarrow> f x = g x"
  shows "map_res f xs = map_res g ys"
  using assms(2) unfolding assms(1)
  by (induction ys) (simp_all split: sum.split)

lemma map_res_Inr_iff:
  "map_res f xs = Inr ys \<longleftrightarrow> list_all2 (\<lambda>x y. f x = Inr y) xs ys"
proof (induction xs arbitrary: ys)
  case Nil
  then show ?case by auto
next
  case (Cons x xs)
  show ?case
  proof (cases ys)
    case Nil
    then show ?thesis by (simp split: sum.split)
  next
    case (Cons y ys')
    then show ?thesis
      using \<open>\<And>ys. (map_res f xs = Inr ys) = list_all2 (\<lambda>x y. f x = Inr y) xs ys\<close> [of ys'] by (cases "f x"; cases "map_res f xs") auto
  qed
qed

lemma map_res_length: "map_res f xs = Inr ys \<Longrightarrow> length ys = length xs"
  by (auto simp: map_res_Inr_iff dest: list_all2_lengthD)

lemma map_res_mem:
  assumes "map_res f xs = Inr ys" and "y \<in> set ys"
  obtains x where "x \<in> set xs" and "f x = Inr y"
proof -
  from assms obtain i where "i < length ys" "y = ys ! i" by (auto simp: in_set_conv_nth)
  moreover have "length xs = length ys" and "\<forall>i < length ys. f (xs ! i) = Inr (ys ! i)"
    using assms(1) by (simp_all add: map_res_Inr_iff list_all2_conv_all_nth)
  ultimately show ?thesis using that [of "xs ! i"] by simp
qed

lemma map_res_Inl_mem:
  assumes "map_res f xs = Inl e"
  obtains x where "x \<in> set xs" and "f x = Inl e"
  using assms by (induction xs) (auto split: sum.splits)

section \<open>Strings\<close>

text \<open>\<open>strings.Index\<close> with \<open>None\<close> for -1.\<close>

fun str_index :: "string \<Rightarrow> string \<Rightarrow> nat option" where
  "str_index sub [] = (if sub = [] then Some 0 else None)"
| "str_index sub (c # cs) =
     (if prefix sub (c # cs) then Some 0 else map_option Suc (str_index sub cs))"

lemma str_index_Some:
  "str_index sub s = Some i \<Longrightarrow> i + length sub \<le> length s \<and> prefix sub (drop i s)"
  by (induction s arbitrary: i) (auto split: if_splits dest: prefix_length_le)

lemma str_index_decomp:
  assumes "str_index sub s = Some i"
  shows "s = take i s @ sub @ drop (i + length sub) s"
proof -
  from str_index_Some [OF assms] obtain r where "drop i s = sub @ r"
    by (auto simp: prefix_def)
  moreover from this have "r = drop (i + length sub) s"
    by (metis add.commute append_eq_conv_conj drop_drop)
  ultimately show ?thesis by (metis append_take_drop_id)
qed

lemma str_index_None_iff: "str_index sub s = None \<longleftrightarrow> \<not> sublist sub s"
  by (induction s) (auto simp: sublist_Cons_right)

definition str_contains :: "string \<Rightarrow> string \<Rightarrow> bool" where
  "str_contains s sub \<longleftrightarrow> str_index sub s \<noteq> None"

lemma str_contains_sublist: "str_contains s sub \<longleftrightarrow> sublist sub s"
  by (simp add: str_contains_def str_index_None_iff)

text \<open>
  \<open>strings.Split\<close> for a non-empty separator. (An empty separator would split into UTF-8
  sequences; no caller passes one, and the model returns the whole string.)
\<close>

function str_split :: "string \<Rightarrow> string \<Rightarrow> string list" where
  "str_split s sep =
     (if sep = [] then [s]
      else case str_index sep s of
             None \<Rightarrow> [s]
           | Some i \<Rightarrow> take i s # str_split (drop (i + length sep) s) sep)"
  by pat_completeness auto
termination
  by (relation "measure (\<lambda>(s, sep). length s)")
     (auto dest!: str_index_Some simp flip: length_greater_0_conv)

declare str_split.simps [simp del]

fun str_join :: "string list \<Rightarrow> string \<Rightarrow> string" where
  "str_join [] sep = []"
| "str_join [x] sep = x"
| "str_join (x # y # ys) sep = x @ sep @ str_join (y # ys) sep"

lemma str_split_nonempty [simp]: "str_split s sep \<noteq> []"
  by (subst str_split.simps) (simp split: option.split)

lemma str_join_Cons: "xs \<noteq> [] \<Longrightarrow> str_join (x # xs) sep = x @ sep @ str_join xs sep"
  by (cases xs) simp_all

lemma str_join_split: "str_join (str_split s sep) sep = s"
proof (induction s sep rule: str_split.induct)
  case (1 s sep)
  show ?case
  proof (cases "sep = [] \<or> str_index sep s = None")
    case True
    then show ?thesis by (subst str_split.simps) (auto split: option.split)
  next
    case False
    then obtain i where i: "sep \<noteq> []" "str_index sep s = Some i" by auto
    with 1 have IH: "str_join (str_split (drop (i + length sep) s) sep) sep = drop (i + length sep) s"
      by blast
    have "str_split s sep = take i s # str_split (drop (i + length sep) s) sep"
      using i by (subst str_split.simps) simp
    then show ?thesis
      using IH str_index_decomp [OF i(2)] by (simp add: str_join_Cons)
  qed
qed

lemma str_split_no_sep: "\<not> sublist sep s \<Longrightarrow> str_split s sep = [s]"
  by (subst str_split.simps) (simp add: str_index_None_iff [symmetric])

lemma str_split_append:
  assumes "sep \<noteq> []" and "str_index sep (x @ sep @ r) = Some (length x)"
  shows "str_split (x @ sep @ r) sep = x # str_split r sep"
  using assms by (subst str_split.simps) simp

text \<open>A separator of one byte, as in a field path.\<close>

lemma str_index_char: "c \<notin> set x \<Longrightarrow> str_index [c] (x @ c # r) = Some (length x)"
  by (induction x) auto

lemma str_split_char_Cons:
  "c \<notin> set x \<Longrightarrow> str_split (x @ c # r) [c] = x # str_split r [c]"
  using str_split_append [of "[c]" x r] by (simp add: str_index_char)

lemma str_split_char_single: "c \<notin> set x \<Longrightarrow> str_split x [c] = [x]"
  by (rule str_split_no_sep) (simp add: sublist_def, metis in_set_conv_decomp)

lemma str_split_join_char:
  assumes "ks \<noteq> []" and "\<forall>k \<in> set ks. c \<notin> set k"
  shows "str_split (str_join ks [c]) [c] = ks"
  using assms
proof (induction ks)
  case Nil
  then show ?case by simp
next
  case (Cons k ks)
  then show ?case
    by (cases "ks = []") (simp_all add: str_join_Cons str_split_char_Cons str_split_char_single)
qed

lemma str_split_char_no_sep: "k \<in> set (str_split s [c]) \<Longrightarrow> c \<notin> set k"
proof (induction s "[c]" arbitrary: k rule: str_split.induct)
  case (1 s)
  show ?case
  proof (cases "str_index [c] s")
    case None
    with 1 show ?thesis
      by (auto simp: str_split.simps [of s] str_index_None_iff sublist_def)
         (metis append_Cons append_Nil in_set_conv_decomp)
  next
    case (Some i)
    have *: "c \<notin> set (take i s)" if "str_index [c] s = Some i" for i s
      using that by (induction s arbitrary: i) (auto split: if_splits)
    from Some 1 show ?thesis
      by (auto simp: str_split.simps [of s] dest: *)
  qed
qed

lemma str_join_append:
  "ks \<noteq> [] \<Longrightarrow> js \<noteq> [] \<Longrightarrow> str_join (ks @ js) sep = str_join ks sep @ sep @ str_join js sep"
proof (induction ks)
  case (Cons k ks)
  then show ?case by (cases "ks = []") (simp_all add: str_join_Cons)
qed simp

lemma str_split_append_char: "str_split (x @ [c] @ y) [c] = str_split x [c] @ str_split y [c]"
proof -
  let ?ks = "str_split x [c]" and ?js = "str_split y [c]"
  have "str_split (str_join (?ks @ ?js) [c]) [c] = ?ks @ ?js"
    by (rule str_split_join_char) (auto dest: str_split_char_no_sep)
  then show ?thesis by (simp add: str_join_append str_join_split)
qed

text \<open>\<open>strings.ReplaceAll\<close> for a non-empty old string: leftmost occurrences, not overlapping.\<close>

definition str_replace_all :: "string \<Rightarrow> string \<Rightarrow> string \<Rightarrow> string" where
  "str_replace_all s old new = str_join (str_split s old) new"

definition str_has_prefix :: "string \<Rightarrow> string \<Rightarrow> bool" where
  "str_has_prefix s p \<longleftrightarrow> prefix p s"

definition str_has_suffix :: "string \<Rightarrow> string \<Rightarrow> bool" where
  "str_has_suffix s p \<longleftrightarrow> suffix p s"

text \<open>\<open>strings.Repeat\<close>\<close>

definition str_repeat :: "string \<Rightarrow> nat \<Rightarrow> string" where
  "str_repeat s n = concat (replicate n s)"

subsection \<open>Trimming\<close>

text \<open>
  \<open>strings.TrimSpace\<close> removes the runes of \<open>unicode.IsSpace\<close>: the six ASCII ones and the
  UTF-8 encodings of U+0085, U+00A0, U+1680, U+2000 to U+200A, U+2028, U+2029, U+202F,
  U+205F and U+3000.
\<close>

definition go_spaces :: "string list" where
  "go_spaces =
     map (\<lambda>n. [char_of (n :: nat)]) [0x20, 0x09, 0x0A, 0x0B, 0x0C, 0x0D] @
     [map char_of [0xC2, 0x85 :: nat], map char_of [0xC2, 0xA0 :: nat],
      map char_of [0xE1, 0x9A, 0x80 :: nat]] @
     map (\<lambda>n. map char_of [0xE2, 0x80, n :: nat])
       [0x80, 0x81, 0x82, 0x83, 0x84, 0x85, 0x86, 0x87, 0x88, 0x89, 0x8A, 0xA8, 0xA9, 0xAF] @
     [map char_of [0xE2, 0x81, 0x9F :: nat], map char_of [0xE3, 0x80, 0x80 :: nat]]"

function strip_left :: "string list \<Rightarrow> string \<Rightarrow> string" where
  "strip_left ps s =
     (case find (\<lambda>p. p \<noteq> [] \<and> prefix p s) ps of
        None \<Rightarrow> s
      | Some p \<Rightarrow> strip_left ps (drop (length p) s))"
  by pat_completeness auto
termination
  by (relation "measure (\<lambda>(ps, s). length s)")
     (auto simp: find_Some_iff prefix_def)

declare strip_left.simps [simp del]

definition trim_space :: "string \<Rightarrow> string" where
  "trim_space s = rev (strip_left (map rev go_spaces) (rev (strip_left go_spaces s)))"

lemma strip_left_suffix: "suffix (strip_left ps s) s"
proof (induction ps s rule: strip_left.induct)
  case (1 ps s)
  show ?case
    by (subst strip_left.simps)
       (auto split: option.split intro: suffix_order.trans [OF 1] suffix_drop)
qed

lemma strip_left_length: "length (strip_left ps s) \<le> length s"
  by (rule suffix_length_le [OF strip_left_suffix])

lemma strip_left_idem: "strip_left ps (strip_left ps s) = strip_left ps s"
proof (induction ps s rule: strip_left.induct)
  case (1 ps s)
  show ?case
  proof (cases "find (\<lambda>p. p \<noteq> [] \<and> prefix p s) ps")
    case None
    then have "strip_left ps s = s" by (subst strip_left.simps) simp
    then show ?thesis by simp
  next
    case (Some p)
    then have "strip_left ps s = strip_left ps (drop (length p) s)"
      by (subst strip_left.simps) simp
    with 1 Some show ?thesis by simp
  qed
qed

lemma trim_space_sublist: "sublist (trim_space s) s"
proof -
  let ?l = "strip_left go_spaces s"
  have "suffix ?l s" by (rule strip_left_suffix)
  moreover have "prefix (trim_space s) ?l"
    using strip_left_suffix [of "map rev go_spaces" "rev ?l"]
    by (simp add: trim_space_def suffix_to_prefix)
  ultimately show ?thesis
    unfolding prefix_def suffix_def sublist_def by metis
qed

lemma trim_space_length: "length (trim_space s) \<le> length s"
  by (rule sublist_length_le [OF trim_space_sublist])

lemma sublist_same_length: "sublist xs ys \<Longrightarrow> length xs = length ys \<Longrightarrow> xs = ys"
  by (auto simp: sublist_def)

lemma trim_space_shorter: "trim_space s \<noteq> s \<Longrightarrow> length (trim_space s) < length s"
  using trim_space_sublist [of s] trim_space_length [of s] sublist_same_length
  by (metis le_neq_implies_less)

lemma trim_space_Nil [simp]: "trim_space [] = []"
  by (metis le_zero_eq length_0_conv list.size(3) trim_space_length)

section \<open>Iteration over maps\<close>

text \<open>
  Go visits the keys of a map in an order it does not specify: loops over maps take the order as an
  argument, a function that lists each set of keys without repetition.
\<close>

type_synonym iter = "string fset \<Rightarrow> string list"

definition iter_ok :: "iter \<Rightarrow> bool" where
  "iter_ok ord = (\<forall>S. distinct (ord S) \<and> set (ord S) = fset S)"

lemma iter_okD: "iter_ok ord \<Longrightarrow> distinct (ord S)" "iter_ok ord \<Longrightarrow> set (ord S) = fset S"
  by (simp_all add: iter_ok_def)

text \<open>The order \<open>sort.Strings\<close> makes\<close>

abbreviation sorted_keys :: iter where "sorted_keys \<equiv> sorted_list_of_fset"

lemma iter_ok_sorted [simp]: "iter_ok sorted_keys"
  by (simp add: iter_ok_def sorted_list_of_fset.rep_eq)

end
