(* ===== verification/Go_Float.thy ===== *)
theory Go_Float
  imports Go_Prelude Complex_Main
begin

text \<open>
  Go's \<open>float64\<close>: IEEE 754 binary64 with rounding to nearest, ties to even, as the
  sources use it (conversion from integers, \<open>+\<close>, \<open>-\<close>, \<open>*\<close>, \<open>/\<close>, the comparisons,
  truncation to \<open>int64\<close>), \<open>strconv.ParseFloat\<close> and the shortest \<open>%g\<close> rendering that
  \<open>%v\<close> prints. All of it computes on natural numbers and integers.
\<close>

named_theorems f64_defs \<open>the arithmetic of float64\<close>

section \<open>Values\<close>

text \<open>
  A finite value is a sign (\<open>True\<close> is negative), a significand below \<open>2^53\<close> and an exponent
  from -1074 to 971; the significand has its top bit set unless the exponent is -1074.
\<close>

datatype f64 = FNaN | FInf bool | FFin bool nat int

fun f64_ok :: "f64 \<Rightarrow> bool" where
  "f64_ok FNaN = True"
| "f64_ok (FInf _) = True"
| "f64_ok (FFin _ m e) =
     (m < 2 ^ 53 \<and> -1074 \<le> e \<and> e \<le> 971 \<and> (2 ^ 52 \<le> m \<or> e = -1074))"

abbreviation f64_zero :: f64 where
  "f64_zero \<equiv> FFin False 0 (-1074)"

text \<open>The real number a finite value stands for, for the statements of theorems.\<close>

fun f64_val :: "f64 \<Rightarrow> real" where
  "f64_val FNaN = 0"
| "f64_val (FInf _) = 0"
| "f64_val (FFin s m e) = (if s then -1 else 1) * real m * 2 powr e"

fun f64_finite :: "f64 \<Rightarrow> bool" where
  "f64_finite (FFin _ _ _) = True"
| "f64_finite _ = False"

section \<open>Rounding\<close>

fun bit_len :: "nat \<Rightarrow> nat" where
  "bit_len n = (if n = 0 then 0 else Suc (bit_len (n div 2)))"

declare bit_len.simps [simp del]

text \<open>The nearest natural number to \<open>p / q\<close>, ties to even.\<close>

definition round_even :: "nat \<Rightarrow> nat \<Rightarrow> nat" where
  "round_even p q =
     (let m = p div q; r = p mod q
      in if 2 * r < q \<or> (2 * r = q \<and> even m) then m else m + 1)"

text \<open>\<open>p / q\<close> divided by \<open>2^e\<close>, as a fraction.\<close>

definition scale2 :: "nat \<Rightarrow> nat \<Rightarrow> int \<Rightarrow> nat \<times> nat" where
  "scale2 p q e = (if 0 \<le> e then (p, q * 2 ^ nat e) else (p * 2 ^ nat (- e), q))"

text \<open>The exponent the significand of \<open>p / q\<close> is taken at.\<close>

definition f64_exponent :: "nat \<Rightarrow> nat \<Rightarrow> int" where
  "f64_exponent p q =
     (let e = max (int (bit_len p) - int (bit_len q) - 53) (-1074)
      in case scale2 p q e of (P, Q) \<Rightarrow> if P < Q * 2 ^ 53 then e else e + 1)"

definition f64_round :: "bool \<Rightarrow> nat \<Rightarrow> nat \<Rightarrow> f64" where
  "f64_round s p q =
     (if p = 0 then FFin s 0 (-1074)
      else let e = f64_exponent p q;
               m = (case scale2 p q e of (P, Q) \<Rightarrow> round_even P Q);
               (m', e') = (if m = 2 ^ 53 then (2 ^ 52, e + 1) else (m, e))
           in if 971 < e' then FInf s else FFin s m' e')"

section \<open>Arithmetic and comparison\<close>

text \<open>\<open>float64(n)\<close> for an integer\<close>

definition f64_of_int :: "int \<Rightarrow> f64" where
  "f64_of_int n = f64_round (n < 0) (nat \<bar>n\<bar>) 1"

definition signed :: "bool \<Rightarrow> nat \<Rightarrow> int" where
  "signed s m = (if s then - int m else int m)"

text \<open>Two finite values as integers in units of their smaller exponent.\<close>

definition align :: "bool \<Rightarrow> nat \<Rightarrow> int \<Rightarrow> int \<Rightarrow> int" where
  "align s m e d = signed s m * 2 ^ nat (e - d)"

definition f64_of_scaled :: "bool \<Rightarrow> int \<Rightarrow> int \<Rightarrow> f64" where
  "f64_of_scaled zs n e =
     (if n = 0 then FFin zs 0 (-1074)
      else case scale2 (nat \<bar>n\<bar>) 1 (- e) of (P, Q) \<Rightarrow> f64_round (n < 0) P Q)"

fun f64_neg :: "f64 \<Rightarrow> f64" where
  "f64_neg FNaN = FNaN"
| "f64_neg (FInf s) = FInf (\<not> s)"
| "f64_neg (FFin s m e) = FFin (\<not> s) m e"

fun f64_add :: "f64 \<Rightarrow> f64 \<Rightarrow> f64" where
  "f64_add FNaN _ = FNaN"
| "f64_add _ FNaN = FNaN"
| "f64_add (FInf s) (FInf t) = (if s = t then FInf s else FNaN)"
| "f64_add (FInf s) (FFin _ _ _) = FInf s"
| "f64_add (FFin _ _ _) (FInf t) = FInf t"
| "f64_add (FFin s m e) (FFin t n d) =
     (let k = min e d
      in f64_of_scaled (s \<and> t) (align s m e k + align t n d k) k)"

definition f64_sub :: "f64 \<Rightarrow> f64 \<Rightarrow> f64" where
  "f64_sub x y = f64_add x (f64_neg y)"

fun f64_mul :: "f64 \<Rightarrow> f64 \<Rightarrow> f64" where
  "f64_mul FNaN _ = FNaN"
| "f64_mul _ FNaN = FNaN"
| "f64_mul (FInf s) (FInf t) = FInf (s \<noteq> t)"
| "f64_mul (FInf s) (FFin t n _) = (if n = 0 then FNaN else FInf (s \<noteq> t))"
| "f64_mul (FFin s m _) (FInf t) = (if m = 0 then FNaN else FInf (s \<noteq> t))"
| "f64_mul (FFin s m e) (FFin t n d) =
     (case scale2 (m * n) 1 (- (e + d)) of (P, Q) \<Rightarrow> f64_round (s \<noteq> t) P Q)"

fun f64_div :: "f64 \<Rightarrow> f64 \<Rightarrow> f64" where
  "f64_div FNaN _ = FNaN"
| "f64_div _ FNaN = FNaN"
| "f64_div (FInf s) (FInf t) = FNaN"
| "f64_div (FInf s) (FFin t _ _) = FInf (s \<noteq> t)"
| "f64_div (FFin s _ _) (FInf t) = FFin (s \<noteq> t) 0 (-1074)"
| "f64_div (FFin s m e) (FFin t n d) =
     (if n = 0 then (if m = 0 then FNaN else FInf (s \<noteq> t))
      else case scale2 m n (d - e) of (P, Q) \<Rightarrow> f64_round (s \<noteq> t) P Q)"

fun f64_lt :: "f64 \<Rightarrow> f64 \<Rightarrow> bool" where
  "f64_lt FNaN _ = False"
| "f64_lt _ FNaN = False"
| "f64_lt (FInf s) (FInf t) = (s \<and> \<not> t)"
| "f64_lt (FInf s) (FFin _ _ _) = s"
| "f64_lt (FFin _ _ _) (FInf t) = (\<not> t)"
| "f64_lt (FFin s m e) (FFin t n d) =
     (let k = min e d in align s m e k < align t n d k)"

fun f64_eq :: "f64 \<Rightarrow> f64 \<Rightarrow> bool" where
  "f64_eq FNaN _ = False"
| "f64_eq _ FNaN = False"
| "f64_eq (FInf s) (FInf t) = (s = t)"
| "f64_eq (FInf s) (FFin _ _ _) = False"
| "f64_eq (FFin _ _ _) (FInf t) = False"
| "f64_eq (FFin s m e) (FFin t n d) =
     (let k = min e d in align s m e k = align t n d k)"

definition f64_le :: "f64 \<Rightarrow> f64 \<Rightarrow> bool" where
  "f64_le x y \<longleftrightarrow> f64_lt x y \<or> f64_eq x y"

text \<open>
  \<open>int64(v)\<close>: truncation towards zero. Outside the range of \<open>int64\<close> Go leaves the result to
  the implementation; on amd64 it is the least \<open>int64\<close>.
\<close>

fun f64_trunc :: "f64 \<Rightarrow> int" where
  "f64_trunc (FFin s m e) =
     signed s (if 0 \<le> e then m * 2 ^ nat e else m div 2 ^ nat (- e))"
| "f64_trunc _ = - (2 ^ 63)"

definition f64_to_int64 :: "f64 \<Rightarrow> 64 word" where
  "f64_to_int64 x =
     (if - (2 ^ 63) \<le> f64_trunc x \<and> f64_trunc x < 2 ^ 63
      then word_of_int (f64_trunc x) else word_of_int (- (2 ^ 63)))"

section \<open>Rendering: the shortest decimal\<close>

definition digit_char :: "nat \<Rightarrow> char" where
  "digit_char d = ''0123456789'' ! d"

function nat_digits :: "nat \<Rightarrow> string" where
  "nat_digits n =
     (if n < 10 then [digit_char n] else nat_digits (n div 10) @ [digit_char (n mod 10)])"
  by pat_completeness auto
termination by (relation "measure id") auto

declare nat_digits.simps [simp del]

text \<open>\<open>%d\<close>\<close>

definition int_digits :: "int \<Rightarrow> string" where
  "int_digits n = (if n < 0 then ''-'' @ nat_digits (nat (- n)) else nat_digits (nat n))"

text \<open>
  The shortest decimal that reads back as \<open>m * 2^e\<close>, as \<open>strconv\<close> finds it: the bounds are
  the midpoints to the neighbours (inclusive for an even significand); at each decimal place
  \<open>p\<close>, from the highest down, the value is cut down and up, and the first place where one of
  them is within the bounds is taken, the nearer one when both are. All numbers are in units
  of \<open>2^(e-2)\<close>; \<open>mbits\<close> and \<open>mine\<close> are 53 and -1074 for \<open>float64\<close>, 24 and -149 for
  \<open>float32\<close>. The guard \<open>p < -1080\<close> is never reached: at \<open>p = -1076\<close> the value is exact.
\<close>

definition dec_num :: "nat \<Rightarrow> int \<Rightarrow> int \<Rightarrow> nat" where
  "dec_num x e p = x * 2 ^ nat (e - 2) * 10 ^ nat (- p)"

definition dec_den :: "int \<Rightarrow> int \<Rightarrow> nat" where
  "dec_den e p = 2 ^ nat (2 - e) * 10 ^ nat p"

function shortest_at :: "nat \<Rightarrow> int \<Rightarrow> nat \<Rightarrow> int \<Rightarrow> nat \<times> int" where
  "shortest_at m e lower p =
     (if p < -1080 then (0, p)
      else let num = dec_num (4 * m) e p; den = dec_den e p;
          lo = dec_num lower e p; hi = dec_num (4 * m + 2) e p;
          down = num div den; rest = num mod den; up = down + 1;
          okdown = (lo < down * den \<or> even m \<and> lo = down * den);
          okup = (up * den < hi \<or> even m \<and> up * den = hi)
      in if okdown \<and> okup
         then (if 2 * rest < den \<or> 2 * rest = den \<and> even down then down else up, p)
         else if okdown then (down, p)
         else if okup then (up, p)
         else shortest_at m e lower (p - 1))"
  by pat_completeness auto
termination
  by (relation "measure (\<lambda>(m, e, lower, p). nat (p + 1082))") simp_all

declare shortest_at.simps [simp del]

definition shortest :: "nat \<Rightarrow> int \<Rightarrow> nat \<Rightarrow> int \<Rightarrow> nat \<times> int" where
  "shortest mbits mine m e =
     shortest_at m e (if 2 ^ (mbits - 1) < m \<or> e = mine then 4 * m - 2 else 4 * m - 1)
       ((int (bit_len m) + e + 1) * 30103 div 100000 + 1)"

definition strip_zeros :: "string \<Rightarrow> string" where
  "strip_zeros ds = rev (dropWhile (\<lambda>c. c = CHR ''0'') (rev ds))"

text \<open>\<open>%e\<close> with an exponent of at least two digits, and \<open>%f\<close>, for the digits \<open>0.ds * 10^dp\<close>.\<close>

definition fmt_e :: "string \<Rightarrow> int \<Rightarrow> string" where
  "fmt_e ds dp =
     take 1 ds @ (if 1 < length ds then ''.'' @ drop 1 ds else '''') @ ''e'' @
     (if dp - 1 < 0 then ''-'' else ''+'') @
     (if \<bar>dp - 1\<bar> < 10 then ''0'' else '''') @ nat_digits (nat \<bar>dp - 1\<bar>)"

definition fmt_f :: "string \<Rightarrow> int \<Rightarrow> string" where
  "fmt_f ds dp =
     (if dp \<le> 0
      then ''0'' @ (if ds = [] then '''' else ''.'' @ replicate (nat (- dp)) CHR ''0'' @ ds)
      else if length ds \<le> nat dp then ds @ replicate (nat dp - length ds) CHR ''0''
      else take (nat dp) ds @ ''.'' @ drop (nat dp) ds)"

definition fmt_g_digits :: "bool \<Rightarrow> string \<Rightarrow> int \<Rightarrow> string" where
  "fmt_g_digits s ds dp =
     (if s then ''-'' else '''') @
     (if dp - 1 < -4 \<or> 6 \<le> dp - 1 then fmt_e ds dp else fmt_f ds dp)"

definition fmt_g_fin :: "nat \<Rightarrow> int \<Rightarrow> bool \<Rightarrow> nat \<Rightarrow> int \<Rightarrow> string" where
  "fmt_g_fin mbits mine s m e =
     (if m = 0 then fmt_g_digits s [] 0
      else case shortest mbits mine m e of (d, p) \<Rightarrow>
             fmt_g_digits s (strip_zeros (nat_digits d)) (int (length (nat_digits d)) + p))"

text \<open>\<open>%v\<close> and \<open>%g\<close> of a \<open>float64\<close>; \<open>fmt_g32\<close> is the same for a \<open>float32\<close>, given as the \<open>float64\<close> of equal value.\<close>

fun fmt_g :: "f64 \<Rightarrow> string" where
  "fmt_g FNaN = ''NaN''"
| "fmt_g (FInf s) = (if s then ''-Inf'' else ''+Inf'')"
| "fmt_g (FFin s m e) = fmt_g_fin 53 (-1074) s m e"

fun fmt_g32 :: "f64 \<Rightarrow> string" where
  "fmt_g32 FNaN = ''NaN''"
| "fmt_g32 (FInf s) = (if s then ''-Inf'' else ''+Inf'')"
| "fmt_g32 (FFin s m e) =
     (let e' = max (e + 29) (-149) in fmt_g_fin 24 (-149) s (m div 2 ^ nat (e' - e)) e')"

text \<open>What evaluates the arithmetic and the rendering of closed values.\<close>

lemmas f64_eval =
  f64_of_int_def f64_round_def f64_exponent_def bit_len.simps scale2_def round_even_def
  signed_def align_def f64_of_scaled_def f64_sub_def f64_le_def
  fmt_g_fin_def shortest_def shortest_at.simps dec_num_def dec_den_def Let_def nat_digits.simps
  fmt_g_digits_def fmt_e_def fmt_f_def strip_zeros_def digit_char_def

section \<open>Facts\<close>

lemma bit_len_0 [simp]: "bit_len 0 = 0"
  by (simp add: bit_len.simps)

lemma bit_len_bounds: "0 < n \<Longrightarrow> 2 ^ (bit_len n - 1) \<le> n \<and> n < 2 ^ bit_len n \<and> 0 < bit_len n"
proof (induction n rule: bit_len.induct)
  case (1 n)
  show ?case
  proof (cases "n div 2 = 0")
    case True
    with 1 have "n = 1" by auto
    then show ?thesis by (simp add: bit_len.simps)
  next
    case False
    with 1 have IH: "2 ^ (bit_len (n div 2) - 1) \<le> n div 2" "n div 2 < 2 ^ bit_len (n div 2)"
        "0 < bit_len (n div 2)"
      by auto
    have eq: "bit_len n = Suc (bit_len (n div 2))"
      using 1 by (subst bit_len.simps) simp
    have "(2::nat) * 2 ^ (bit_len (n div 2) - 1) = 2 ^ bit_len (n div 2)"
      using IH(3) by (metis Suc_pred' power_Suc)
    with IH(1) have "2 ^ bit_len (n div 2) \<le> n" by linarith
    moreover have "n < 2 ^ Suc (bit_len (n div 2))" using IH(2) by simp
    ultimately show ?thesis by (simp add: eq)
  qed
qed

text \<open>The comparison of finite values is the comparison of the numbers they stand for.\<close>

lemma align_val:
  assumes "k \<le> e"
  shows "real_of_int (align s m e k) * 2 powr k = f64_val (FFin s m e)"
proof -
  have "(2::real) ^ nat (e - k) * 2 powr k = 2 powr (real (nat (e - k)) + k)"
    by (simp add: powr_add powr_realpow)
  also have "\<dots> = 2 powr e" using assms by simp
  finally show ?thesis by (simp add: align_def signed_def algebra_simps)
qed

lemma align_less_iff:
  "align s m e (min e d) < align t n d (min e d) \<longleftrightarrow> f64_val (FFin s m e) < f64_val (FFin t n d)"
proof -
  let ?k = "min e d" and ?c = "2 powr real_of_int (min e d)"
  have "0 < ?c" by simp
  then have "align s m e ?k < align t n d ?k \<longleftrightarrow>
      real_of_int (align s m e ?k) * ?c < real_of_int (align t n d ?k) * ?c"
    by (simp del: powr_gt_zero)
  also have "\<dots> \<longleftrightarrow> f64_val (FFin s m e) < f64_val (FFin t n d)"
    by (simp only: align_val min.cobounded1 min.cobounded2)
  finally show ?thesis .
qed

lemma align_eq_iff:
  "align s m e (min e d) = align t n d (min e d) \<longleftrightarrow> f64_val (FFin s m e) = f64_val (FFin t n d)"
proof -
  have "align t n d (min e d) < align s m e (min e d) \<longleftrightarrow>
      f64_val (FFin t n d) < f64_val (FFin s m e)"
    using align_less_iff [of t n d e s m] by (simp add: min.commute)
  then show ?thesis using align_less_iff [of s m e d t n] by (metis linorder_neq_iff)
qed

lemma f64_lt_iff_val:
  "f64_finite x \<Longrightarrow> f64_finite y \<Longrightarrow> f64_lt x y \<longleftrightarrow> f64_val x < f64_val y"
  by (cases x; cases y) (simp_all only: f64_finite.simps f64_lt.simps Let_def align_less_iff)

lemma f64_eq_iff_val:
  "f64_finite x \<Longrightarrow> f64_finite y \<Longrightarrow> f64_eq x y \<longleftrightarrow> f64_val x = f64_val y"
  by (cases x; cases y) (simp_all only: f64_finite.simps f64_eq.simps Let_def align_eq_iff)

lemma f64_lt_trans: "f64_lt x y \<Longrightarrow> f64_lt y z \<Longrightarrow> f64_lt x z"
proof -
  assume xy: "f64_lt x y" and yz: "f64_lt y z"
  show ?thesis
  proof (cases "f64_finite x \<and> f64_finite y \<and> f64_finite z")
    case True
    with xy yz show ?thesis by (auto simp: f64_lt_iff_val)
  next
    case False
    with xy yz show ?thesis by (cases x; cases y; cases z) auto
  qed
qed

lemma f64_lt_irrefl: "\<not> f64_lt x x"
  by (cases x) auto

text \<open>Integers below \<open>2^53\<close> are represented exactly.\<close>

lemma f64_of_int_exact:
  assumes "\<bar>n\<bar> < 2 ^ 53"
  shows "f64_finite (f64_of_int n) \<and> f64_val (f64_of_int n) = n"
proof (cases "n = 0")
  case True
  then show ?thesis by (simp add: f64_of_int_def f64_round_def)
next
  case False
  define a where "a = nat \<bar>n\<bar>"
  define l where "l = bit_len a"
  have a0: "0 < a" and a53: "a < 2 ^ 53" using False assms by (auto simp: a_def nat_less_iff)
  from bit_len_bounds [OF a0] have l: "2 ^ (l - 1) \<le> a" "a < 2 ^ l" "0 < l" by (auto simp: l_def)
  have l53: "l \<le> 53"
  proof (rule ccontr)
    assume "\<not> l \<le> 53"
    then have "(2::nat) ^ 53 \<le> 2 ^ (l - 1)" by (intro power_increasing) auto
    with l(1) a53 show False by simp
  qed
  have p54: "(2::nat) ^ 53 \<le> a * 2 ^ (54 - l)"
  proof -
    have "(2::nat) ^ 53 = 2 ^ (l - 1) * 2 ^ (54 - l)"
      using l(3) l53 by (simp flip: power_add)
    also have "\<dots> \<le> a * 2 ^ (54 - l)" using l(1) by simp
    finally show ?thesis .
  qed
  have m53: "a * 2 ^ (53 - l) < 2 ^ 53"
  proof -
    have "a * 2 ^ (53 - l) < 2 ^ l * 2 ^ (53 - l)" using l(2) by simp
    also have "\<dots> = 2 ^ 53" using l53 by (simp flip: power_add)
    finally show ?thesis .
  qed
  have e: "f64_exponent a (Suc 0) = int l - 53"
  proof -
    have "max (int (bit_len a) - int (bit_len 1) - 53) (-1074) = int l - 54"
      using l(3) by (simp add: l_def bit_len.simps [of "Suc 0"])
    moreover have "scale2 a 1 (int l - 54) = (a * 2 ^ (54 - l), 1)"
      using l53 by (simp add: scale2_def nat_diff_distrib)
    ultimately show ?thesis using p54 by (simp add: f64_exponent_def Let_def)
  qed
  have sc: "scale2 a (Suc 0) (int l - 53) = (a * 2 ^ (53 - l), 1)"
    using l53 by (cases "l = 53") (simp_all add: scale2_def nat_diff_distrib)
  have "f64_of_int n = FFin (n < 0) (a * 2 ^ (53 - l)) (int l - 53)"
    using a0 m53 l53
    by (simp add: f64_of_int_def f64_round_def e sc Let_def round_even_def flip: a_def)
  moreover have "2 ^ (53 - l) * 2 powr real_of_int (int l - 53) = (1::real)"
  proof -
    have "(2::real) ^ (53 - l) * 2 powr real_of_int (int l - 53) =
        2 powr (real (53 - l) + real_of_int (int l - 53))"
      by (simp add: powr_add powr_realpow)
    also have "real (53 - l) + real_of_int (int l - 53) = 0" using l53 by simp
    finally show ?thesis by simp
  qed
  ultimately show ?thesis by (simp add: a_def mult.assoc)
qed

end
