(* ===== verification/Go_Strconv.thy ===== *)
theory Go_Strconv
  imports Go_Float
begin

text \<open>
  The functions of Go's package \<open>strconv\<close> the sources call: \<open>ParseFloat\<close> for 64 bits,
  \<open>ParseInt\<close> in base 10 for 64 bits, \<open>Atoi\<close> and \<open>ParseBool\<close>, each with \<open>None\<close> for
  a syntax or a range error, and ASCII case mapping.
\<close>

section \<open>Characters\<close>

definition is_digit :: "char \<Rightarrow> bool" where
  "is_digit c \<longleftrightarrow> CHR ''0'' \<le> c \<and> c \<le> CHR ''9''"

definition digit_val :: "char \<Rightarrow> nat" where
  "digit_val c = of_char c - 48"

definition is_upper :: "char \<Rightarrow> bool" where
  "is_upper c \<longleftrightarrow> CHR ''A'' \<le> c \<and> c \<le> CHR ''Z''"

definition is_lower :: "char \<Rightarrow> bool" where
  "is_lower c \<longleftrightarrow> CHR ''a'' \<le> c \<and> c \<le> CHR ''z''"

definition to_lower :: "char \<Rightarrow> char" where
  "to_lower c = (if is_upper c then char_of (of_char c + 32 :: nat) else c)"

definition to_upper :: "char \<Rightarrow> char" where
  "to_upper c = (if is_lower c then char_of (of_char c - 32 :: nat) else c)"

definition is_hex_letter :: "char \<Rightarrow> bool" where
  "is_hex_letter c \<longleftrightarrow> CHR ''a'' \<le> to_lower c \<and> to_lower c \<le> CHR ''f''"

definition hex_val :: "char \<Rightarrow> nat" where
  "hex_val c = (if is_digit c then digit_val c else of_char (to_lower c) - 87)"

section \<open>Integers\<close>

definition digits_nat :: "string \<Rightarrow> nat" where
  "digits_nat ds = foldl (\<lambda>a c. 10 * a + digit_val c) 0 ds"

text \<open>An optional sign and at least one digit, nothing else; in range for \<open>int64\<close>.\<close>

definition split_sign :: "string \<Rightarrow> bool \<times> string" where
  "split_sign s =
     (case s of [] \<Rightarrow> (False, [])
      | c # cs \<Rightarrow> if c = CHR ''-'' then (True, cs) else if c = CHR ''+'' then (False, cs)
                  else (False, s))"

definition parse_int64 :: "string \<Rightarrow> int option" where
  "parse_int64 s =
     (case split_sign s of (neg, ds) \<Rightarrow>
        if ds = [] \<or> \<not> list_all is_digit ds then None
        else let n = (if neg then - int (digits_nat ds) else int (digits_nat ds))
             in if - (2 ^ 63) \<le> n \<and> n < 2 ^ 63 then Some n else None)"

definition atoi :: "string \<Rightarrow> int option" where
  "atoi s = parse_int64 s"

definition parse_bool :: "string \<Rightarrow> bool option" where
  "parse_bool s =
     (if s \<in> {''1'', ''t'', ''T'', ''TRUE'', ''true'', ''True''} then Some True
      else if s \<in> {''0'', ''f'', ''F'', ''FALSE'', ''false'', ''False''} then Some False
      else None)"

section \<open>Floating-point numbers\<close>

text \<open>
  \<open>underscoreOK\<close>: an underscore stands between digits, or between the base prefix and a
  digit. \<open>saw\<close> is \<open>'^'\<close> at the beginning, \<open>'0'\<close> after a digit or the prefix, \<open>'_'\<close>
  after an underscore and \<open>'!'\<close> after anything else.
\<close>

fun underscore_run :: "bool \<Rightarrow> char \<Rightarrow> string \<Rightarrow> bool" where
  "underscore_run hex saw [] = (saw \<noteq> CHR ''_'')"
| "underscore_run hex saw (c # cs) =
     (if is_digit c \<or> (hex \<and> is_hex_letter c) then underscore_run hex CHR ''0'' cs
      else if c = CHR ''_''
           then (if saw = CHR ''0'' then underscore_run hex CHR ''_'' cs else False)
      else if saw = CHR ''_'' then False
      else underscore_run hex CHR ''!'' cs)"

definition underscore_ok :: "string \<Rightarrow> bool" where
  "underscore_ok s =
     (let t = snd (split_sign s)
      in if 2 \<le> length t \<and> t ! 0 = CHR ''0'' \<and> to_lower (t ! 1) \<in> {CHR ''b'', CHR ''o'', CHR ''x''}
         then underscore_run (to_lower (t ! 1) = CHR ''x'') CHR ''0'' (drop 2 t)
         else underscore_run False CHR ''^'' t)"

text \<open>
  The significand loop of \<open>readFloat\<close>: digits, underscores and at most one dot. The state is
  the number read, the count of digits after the dot, and whether a dot and a digit were seen.
\<close>

fun read_mant :: "bool \<Rightarrow> nat \<Rightarrow> nat \<Rightarrow> bool \<Rightarrow> bool \<Rightarrow> string \<Rightarrow> nat \<times> nat \<times> bool \<times> string" where
  "read_mant hex n fr dot dig [] = (n, fr, dig, [])"
| "read_mant hex n fr dot dig (c # cs) =
     (if c = CHR ''_'' then read_mant hex n fr dot dig cs
      else if c = CHR ''.''
           then (if dot then (n, fr, dig, c # cs) else read_mant hex n fr True dig cs)
      else if is_digit c \<or> (hex \<and> is_hex_letter c)
           then read_mant hex ((if hex then 16 else 10) * n + hex_val c)
                  (if dot then fr + 1 else fr) dot True cs
      else (n, fr, dig, c # cs))"

text \<open>The digits of an exponent; the value stops growing at 10000 and above.\<close>

fun read_exp :: "nat \<Rightarrow> string \<Rightarrow> nat \<times> string" where
  "read_exp n [] = (n, [])"
| "read_exp n (c # cs) =
     (if c = CHR ''_'' then read_exp n cs
      else if is_digit c then read_exp (if n < 10000 then 10 * n + digit_val c else n) cs
      else (n, c # cs))"

text \<open>The exponent part: \<open>None\<close> is a syntax error, an absent exponent is 0 (not for base 16).\<close>

definition read_exponent :: "bool \<Rightarrow> string \<Rightarrow> (int \<times> string) option" where
  "read_exponent hex s =
     (case s of
        c # cs \<Rightarrow>
          if to_lower c = (if hex then CHR ''p'' else CHR ''e'') then
            (if cs = [] then None
             else case split_sign cs of (neg, ds) \<Rightarrow>
               if ds = [] \<or> \<not> is_digit (hd ds) then None
               else case read_exp 0 ds of (n, rest) \<Rightarrow> Some (if neg then - int n else int n, rest))
          else if hex then None else Some (0, s)
      | [] \<Rightarrow> if hex then None else Some (0, s))"

definition dec_ratio :: "nat \<Rightarrow> int \<Rightarrow> nat \<times> nat" where
  "dec_ratio n x = (if 0 \<le> x then (n * 10 ^ nat x, 1) else (n, 10 ^ nat (- x)))"

definition finish_float :: "bool \<Rightarrow> bool \<Rightarrow> nat \<Rightarrow> int \<Rightarrow> f64" where
  "finish_float hex neg n x =
     (case (if hex then scale2 n 1 (- x) else dec_ratio n x) of (p, q) \<Rightarrow> f64_round neg p q)"

definition read_float :: "string \<Rightarrow> f64 option" where
  "read_float s =
     (case split_sign s of (neg, t) \<Rightarrow>
        let hex = (2 < length t \<and> t ! 0 = CHR ''0'' \<and> to_lower (t ! 1) = CHR ''x'');
            body = (if hex then drop 2 t else t)
        in case read_mant hex 0 0 False False body of (n, fr, dig, rest) \<Rightarrow>
             if \<not> dig then None
             else case read_exponent hex rest of
                    None \<Rightarrow> None
                  | Some (x, rest') \<Rightarrow>
                      if rest' \<noteq> [] \<or> (CHR ''_'' \<in> set s \<and> \<not> underscore_ok s) then None
                      else (case finish_float hex neg n (x - int (if hex then 4 * fr else fr)) of
                              FInf _ \<Rightarrow> None
                            | v \<Rightarrow> Some v))"

definition parse_float :: "string \<Rightarrow> f64 option" where
  "parse_float s =
     (case split_sign s of (neg, t) \<Rightarrow>
        if map to_lower t = ''inf'' \<or> map to_lower t = ''infinity'' then Some (FInf neg)
        else if map to_lower s = ''nan'' then Some FNaN
        else read_float s)"

lemmas parse_float_eval =
  parse_float_def read_float_def split_sign_def read_exponent_def finish_float_def dec_ratio_def
  is_digit_def digit_val_def is_hex_letter_def hex_val_def to_lower_def is_upper_def
  underscore_ok_def less_eq_char_def bit_Suc_0_iff char_of_def f64_eval

section \<open>Reading back what was printed\<close>

lemma digit_char_val [simp]: "d < 10 \<Longrightarrow> digit_val (digit_char d) = d"
  and digit_char_digit [simp]: "d < 10 \<Longrightarrow> is_digit (digit_char d)"
proof -
  have *: "digit_val (digit_char d) = d \<and> is_digit (digit_char d)" if "d < 10" for d
  proof -
    from that have "d \<in> {0, 1, 2, 3, 4, 5, 6, 7, 8, 9}" by auto
    then show ?thesis
      by (auto simp: digit_char_def digit_val_def is_digit_def less_eq_char_def)
  qed
  show "d < 10 \<Longrightarrow> digit_val (digit_char d) = d" and "d < 10 \<Longrightarrow> is_digit (digit_char d)"
    using * by auto
qed

lemma digits_nat_snoc [simp]: "digits_nat (ds @ [c]) = 10 * digits_nat ds + digit_val c"
  by (simp add: digits_nat_def)

lemma nat_digits_digits: "list_all is_digit (nat_digits n) \<and> nat_digits n \<noteq> []"
  by (induction n rule: nat_digits.induct) (subst (1 2) nat_digits.simps, auto)

lemma digits_nat_nat_digits: "digits_nat (nat_digits n) = n"
proof (induction n rule: nat_digits.induct)
  case (1 n)
  show ?case
  proof (cases "n < 10")
    case True
    then show ?thesis by (subst nat_digits.simps) (simp add: digits_nat_def)
  next
    case False
    with 1 show ?thesis by (subst nat_digits.simps) simp
  qed
qed

lemma is_digit_not_sign: "is_digit c \<Longrightarrow> c \<noteq> CHR ''-'' \<and> c \<noteq> CHR ''+''"
  by (auto simp: is_digit_def less_eq_char_def)

lemma split_sign_digits: "list_all is_digit ds \<Longrightarrow> split_sign ds = (False, ds)"
  by (cases ds) (auto simp: split_sign_def dest: is_digit_not_sign)

lemma parse_int64_digits:
  assumes "- (2 ^ 63) \<le> n" and "n < 2 ^ 63"
  shows "parse_int64 (int_digits n) = Some n"
proof (cases "n < 0")
  case True
  then show ?thesis
    using assms nat_digits_digits [of "nat (- n)"]
    by (simp add: parse_int64_def int_digits_def split_sign_def digits_nat_nat_digits)
next
  case False
  then show ?thesis
    using assms nat_digits_digits [of "nat n"]
    by (simp add: parse_int64_def int_digits_def split_sign_digits digits_nat_nat_digits)
qed

end
