(* ===== verification/Go_Value.thy ===== *)
theory Go_Value
  imports Go_Strconv
begin

text \<open>
  The dynamic values an event payload holds (Go's \<open>interface{}\<close>), their \<open>%v\<close> rendering,
  and the error values the sources build and compare.
\<close>

section \<open>Values\<close>

text \<open>A \<open>time.Time\<close> is its instant, in nanoseconds since the Unix epoch; durations are nanoseconds.\<close>

type_synonym gtime = int

text \<open>
  One constructor for each dynamic type the sources distinguish. A nil map or nil slice of a
  typed kind is \<open>None\<close>, different from the empty one; \<open>VNil\<close> is the nil interface.
  \<open>VTyped\<close> is a slice whose element type is not \<open>interface{}\<close> (the string is its type, as
  in \<open>[]string\<close>), \<open>VArray\<close> an array, \<open>VFloatPtr\<close> a \<open>*float64\<close>, and \<open>VOther\<close> a value of any
  type the sources never look into (type name and an identity). A \<open>float32\<close> is given as the
  \<open>float64\<close> of equal value.
\<close>

datatype gval =
    VNil
  | VBool bool
  | VStr string
  | VInt "64 word" | VInt8 "8 word" | VInt16 "16 word" | VInt32 "32 word" | VInt64 "64 word"
  | VUint "64 word" | VUint8 "8 word" | VUint16 "16 word" | VUint32 "32 word" | VUint64 "64 word"
  | VFloat32 f64 | VFloat64 f64
  | VTime gtime
  | VFloatPtr f64
  | VList "gval list option"
  | VTyped string "gval list option"
  | VArray string "gval list"
  | VMap "(string, gval) fmap option"
  | VOther string string

type_synonym gmap = "(string, gval) fmap option"

text \<open>\<open>v, ok := m[k]\<close> on a map that may be nil, and the assertion \<open>v.(map[string]interface{})\<close>\<close>

definition map_get :: "gmap \<Rightarrow> string \<Rightarrow> gval option" where
  "map_get m k = (case m of None \<Rightarrow> None | Some f \<Rightarrow> fmlookup f k)"

definition as_map :: "gval option \<Rightarrow> gmap option" where
  "as_map v = (case v of Some (VMap m) \<Rightarrow> Some m | _ \<Rightarrow> None)"

lemma map_get_simps [simp]:
  "map_get None k = None"
  "map_get (Some f) k = fmlookup f k"
  by (simp_all add: map_get_def)

lemma as_map_simps [simp]:
  "as_map None = None"
  "as_map (Some (VMap m)) = Some m"
  by (simp_all add: as_map_def)

lemma as_map_Some_iff: "as_map v = Some m \<longleftrightarrow> v = Some (VMap m)"
  by (simp add: as_map_def split: option.splits gval.splits)

section \<open>Rendering with \<open>%v\<close>\<close>

text \<open>
  What the text of a value depends on beyond the value itself: the zone a time is shown in, the
  address of a pointer, and the \<open>String\<close> method of a type outside the model.
\<close>

type_synonym renderer = "gval \<Rightarrow> string"

primrec fmt_v :: "renderer \<Rightarrow> gval \<Rightarrow> string" where
  "fmt_v r VNil = ''<nil>''"
| "fmt_v r (VBool b) = (if b then ''true'' else ''false'')"
| "fmt_v r (VStr s) = s"
| "fmt_v r (VInt w) = int_digits (sint w)"
| "fmt_v r (VInt8 w) = int_digits (sint w)"
| "fmt_v r (VInt16 w) = int_digits (sint w)"
| "fmt_v r (VInt32 w) = int_digits (sint w)"
| "fmt_v r (VInt64 w) = int_digits (sint w)"
| "fmt_v r (VUint w) = int_digits (uint w)"
| "fmt_v r (VUint8 w) = int_digits (uint w)"
| "fmt_v r (VUint16 w) = int_digits (uint w)"
| "fmt_v r (VUint32 w) = int_digits (uint w)"
| "fmt_v r (VUint64 w) = int_digits (uint w)"
| "fmt_v r (VFloat32 x) = fmt_g32 x"
| "fmt_v r (VFloat64 x) = fmt_g x"
| "fmt_v r (VTime t) = r (VTime t)"
| "fmt_v r (VFloatPtr x) = r (VFloatPtr x)"
| "fmt_v r (VList xs) =
     ''['' @ (case map_option (map (fmt_v r)) xs of
               None \<Rightarrow> [] | Some ss \<Rightarrow> str_join ss '' '') @ '']''"
| "fmt_v r (VTyped t xs) =
     ''['' @ (case map_option (map (fmt_v r)) xs of
               None \<Rightarrow> [] | Some ss \<Rightarrow> str_join ss '' '') @ '']''"
| "fmt_v r (VArray t xs) = ''['' @ str_join (map (fmt_v r) xs) '' '' @ '']''"
| "fmt_v r (VMap m) =
     ''map['' @ (case map_option (fmmap (fmt_v r)) m of
                  None \<Rightarrow> []
                | Some f \<Rightarrow> str_join (map (\<lambda>(k, s). k @ '':'' @ s) (sorted_list_of_fmap f)) '' '') @ '']''"
| "fmt_v r (VOther t i) = r (VOther t i)"

text \<open>\<open>%v\<close> of a \<open>[]string\<close>\<close>

definition fmt_strings :: "string list \<Rightarrow> string" where
  "fmt_strings ss = ''['' @ str_join ss '' '' @ '']''"

text \<open>\<open>%T\<close>, the name of the dynamic type\<close>

fun type_name :: "gval \<Rightarrow> string" where
  "type_name VNil = ''<nil>''"
| "type_name (VBool _) = ''bool''"
| "type_name (VStr _) = ''string''"
| "type_name (VInt _) = ''int''"
| "type_name (VInt8 _) = ''int8''"
| "type_name (VInt16 _) = ''int16''"
| "type_name (VInt32 _) = ''int32''"
| "type_name (VInt64 _) = ''int64''"
| "type_name (VUint _) = ''uint''"
| "type_name (VUint8 _) = ''uint8''"
| "type_name (VUint16 _) = ''uint16''"
| "type_name (VUint32 _) = ''uint32''"
| "type_name (VUint64 _) = ''uint64''"
| "type_name (VFloat32 _) = ''float32''"
| "type_name (VFloat64 _) = ''float64''"
| "type_name (VTime _) = ''time.Time''"
| "type_name (VFloatPtr _) = ''*float64''"
| "type_name (VList _) = ''[]interface {}''"
| "type_name (VTyped t _) = t"
| "type_name (VArray t _) = t"
| "type_name (VMap _) = ''map[string]interface {}''"
| "type_name (VOther t _) = t"

section \<open>Errors\<close>

text \<open>
  The sentinels the sources compare with \<open>errors.Is\<close>, the errors they make with \<open>fmt.Errorf\<close>
  (the format and its arguments), the ones that wrap another with \<open>%w\<close> (one such verb each),
  and \<open>ErrLib\<close> for an error value that code outside the repository returned. \<open>ErrPanic\<close> is not
  an error value: it stands for a panic, which nothing in the repository recovers, and what handles
  errors lets it through.
\<close>

datatype gerror =
    ErrDrop
  | ErrUnknownTransform
  | ErrCanceled
  | ErrDeadlineExceeded
  | ErrRedisNil
  | ErrNoRows
  | ErrLib string
  | ErrPanic string
  | Errorf string "gval list"
  | Wrapf string "gval list" gerror

text \<open>\<open>errors.Is(err, target)\<close> for a sentinel target\<close>

fun error_is :: "gerror \<Rightarrow> gerror \<Rightarrow> bool" where
  "error_is (Wrapf f as e) target = (Wrapf f as e = target \<or> error_is e target)"
| "error_is e target = (e = target)"

text \<open>\<open>fmt.Errorf\<close> with a \<open>%w\<close> verb for an error the code has checked; a panic is let through\<close>

definition wrap_err :: "string \<Rightarrow> gval list \<Rightarrow> gerror \<Rightarrow> gerror" where
  "wrap_err f as err = (case err of ErrPanic p \<Rightarrow> ErrPanic p | _ \<Rightarrow> Wrapf f as err)"

lemma error_is_wrap_err [simp]:
  "error_is (wrap_err f as err) ErrDrop = error_is err ErrDrop"
  "error_is (wrap_err f as err) ErrUnknownTransform = error_is err ErrUnknownTransform"
  by (simp_all add: wrap_err_def split: gerror.split)

end
