(* ===== verification/Event.thy ===== *)
theory Event
  imports Go_Value
begin

text \<open>
  \<open>pkg/event/event.go\<close>: the event and its immutable helpers \<open>Clone\<close>, \<open>GetField\<close>,
  \<open>SetField\<close> and \<open>RemoveField\<close>. Paths are split at dots and walk through nested
  \<open>map[string]interface{}\<close> values. The functions here are the values the code computes; the
  theory \<open>Event_Heap\<close> shows that the code, which works on shared maps, computes them without
  writing to any map of the event it was given.
\<close>

section \<open>Data\<close>

record metadata =
  Topic :: string
  Partition :: "32 word"
  Offset :: "64 word"
  Key :: "string option"

record event =
  Payload :: gmap
  Metadata :: metadata
  Timestamp :: gtime
  Headers :: "(string, string) fmap option"

section \<open>Copies\<close>

text \<open>\<open>deepCopyMap\<close> and \<open>deepCopySlice\<close>, by the type switch they share\<close>

primrec deep_copy :: "gval \<Rightarrow> gval" where
  "deep_copy VNil = VNil"
| "deep_copy (VBool b) = VBool b"
| "deep_copy (VStr s) = VStr s"
| "deep_copy (VInt w) = VInt w"
| "deep_copy (VInt8 w) = VInt8 w"
| "deep_copy (VInt16 w) = VInt16 w"
| "deep_copy (VInt32 w) = VInt32 w"
| "deep_copy (VInt64 w) = VInt64 w"
| "deep_copy (VUint w) = VUint w"
| "deep_copy (VUint8 w) = VUint8 w"
| "deep_copy (VUint16 w) = VUint16 w"
| "deep_copy (VUint32 w) = VUint32 w"
| "deep_copy (VUint64 w) = VUint64 w"
| "deep_copy (VFloat32 x) = VFloat32 x"
| "deep_copy (VFloat64 x) = VFloat64 x"
| "deep_copy (VTime t) = VTime t"
| "deep_copy (VFloatPtr x) = VFloatPtr x"
| "deep_copy (VList xs) = VList (map_option (map deep_copy) xs)"
| "deep_copy (VTyped t xs) = VTyped t xs"
| "deep_copy (VArray t xs) = VArray t xs"
| "deep_copy (VMap m) = VMap (map_option (fmmap deep_copy) m)"
| "deep_copy (VOther t i) = VOther t i"

definition deep_copy_map :: "gmap \<Rightarrow> gmap" where
  "deep_copy_map m = map_option (fmmap deep_copy) m"

definition clone_string_map :: "(string, string) fmap option \<Rightarrow> (string, string) fmap option" where
  "clone_string_map m = (case m of None \<Rightarrow> None | Some f \<Rightarrow> Some f)"

definition clone_metadata :: "metadata \<Rightarrow> metadata" where
  "clone_metadata meta =
     (case Key meta of
        Some k \<Rightarrow> meta\<lparr>Key := Some (take (length k) k)\<rparr>
      | None \<Rightarrow> meta\<lparr>Key := None\<rparr>)"

definition clone_map_shallow :: "gmap \<Rightarrow> gmap" where
  "clone_map_shallow m = (case m of None \<Rightarrow> None | Some f \<Rightarrow> Some f)"

definition Clone :: "event \<Rightarrow> event" where
  "Clone e =
     \<lparr>Payload = deep_copy_map (Payload e), Metadata = clone_metadata (Metadata e),
      Timestamp = Timestamp e, Headers = clone_string_map (Headers e)\<rparr>"

text \<open>The event every setter starts from: a shallow copy of the payload and copies of the rest.\<close>

definition shallow_event :: "event \<Rightarrow> event" where
  "shallow_event e =
     \<lparr>Payload = clone_map_shallow (Payload e), Metadata = clone_metadata (Metadata e),
      Timestamp = Timestamp e, Headers = clone_string_map (Headers e)\<rparr>"

section \<open>\<open>GetField\<close>\<close>

text \<open>The walk over all keys but the last, then the lookup of the last.\<close>

fun get_path :: "gmap \<Rightarrow> string list \<Rightarrow> gval option" where
  "get_path m [] = None"
| "get_path m [k] = map_get m k"
| "get_path m (k # k' # ks) =
     (case as_map (map_get m k) of Some n \<Rightarrow> get_path n (k' # ks) | None \<Rightarrow> None)"

definition GetField :: "event \<Rightarrow> string \<Rightarrow> gval option" where
  "GetField e path =
     (if path = [] \<or> Payload e = None then None
      else get_path (Payload e) (str_split path ''.''))"

section \<open>\<open>SetField\<close>\<close>

definition map_make :: "gmap \<Rightarrow> (string, gval) fmap" where
  "map_make m = (case m of None \<Rightarrow> fmempty | Some f \<Rightarrow> f)"

text \<open>
  The loop over the keys. \<open>cur\<close> is the contents of \<open>currentNew\<close>: a copy of \<open>currentOrig\<close>, or
  an empty map where the original has no map at this place.
\<close>

fun set_path :: "(string, gval) fmap \<Rightarrow> string list \<Rightarrow> gval \<Rightarrow> (string, gval) fmap" where
  "set_path cur [] v = cur"
| "set_path cur [k] v = fmupd k v cur"
| "set_path cur (k # k' # ks) v =
     (let orig_next = (case as_map (fmlookup cur k) of Some n \<Rightarrow> n | None \<Rightarrow> None);
          next_map = map_make (clone_map_shallow orig_next)
      in fmupd k (VMap (Some (set_path next_map (k' # ks) v))) cur)"

definition SetField :: "event \<Rightarrow> string \<Rightarrow> gval \<Rightarrow> event" where
  "SetField e path v =
     (if path = [] then e
      else let result = shallow_event e
           in result\<lparr>Payload :=
                Some (set_path (map_make (Payload result)) (str_split path ''.'') v)\<rparr>)"

section \<open>\<open>RemoveField\<close>\<close>

text \<open>The first loop: is there a value at the path, through maps only?\<close>

fun path_exists :: "gmap \<Rightarrow> string list \<Rightarrow> bool" where
  "path_exists m [] = True"
| "path_exists m (k # ks) =
     (case map_get m k of
        None \<Rightarrow> False
      | Some v \<Rightarrow>
          (if ks = [] then True
           else (case as_map (Some v) of None \<Rightarrow> False | Some n \<Rightarrow> path_exists n ks)))"

text \<open>The second loop: copy the maps on the path and delete the last key.\<close>

fun remove_path :: "(string, gval) fmap \<Rightarrow> string list \<Rightarrow> (string, gval) fmap" where
  "remove_path cur [] = cur"
| "remove_path cur [k] = fmdrop k cur"
| "remove_path cur (k # k' # ks) =
     (let orig_map = (case as_map (fmlookup cur k) of Some n \<Rightarrow> n | None \<Rightarrow> None);
          cloned_next = map_make (clone_map_shallow orig_map)
      in fmupd k (VMap (Some (remove_path cloned_next (k' # ks)))) cur)"

definition RemoveField :: "event \<Rightarrow> string \<Rightarrow> event" where
  "RemoveField e path =
     (if path = [] \<or> Payload e = None then e
      else let keys = str_split path ''.''
           in if \<not> path_exists (Payload e) keys then e
              else let result = shallow_event e
                   in result\<lparr>Payload := Some (remove_path (map_make (Payload result)) keys)\<rparr>)"

section \<open>One step of a path\<close>

text \<open>
  The map below a key, empty where there is none: getting, setting, testing and removing below a
  key are all about this map, whatever the key held before.
\<close>

definition submap :: "(string, gval) fmap \<Rightarrow> string \<Rightarrow> (string, gval) fmap" where
  "submap m k = (case as_map (fmlookup m k) of Some n \<Rightarrow> map_make n | None \<Rightarrow> fmempty)"

lemma map_make_simps [simp]:
  "map_make None = fmempty"
  "map_make (Some f) = f"
  by (simp_all add: map_make_def)

lemma clone_map_shallow_id [simp]: "clone_map_shallow m = m"
  by (simp add: clone_map_shallow_def split: option.split)

lemma clone_string_map_id [simp]: "clone_string_map m = m"
  by (simp add: clone_string_map_def split: option.split)

lemma clone_metadata_id [simp]: "clone_metadata meta = meta"
  by (simp add: clone_metadata_def split: option.split)

lemma shallow_event_id [simp]: "shallow_event e = e"
  by (simp add: shallow_event_def)

lemma submap_upd [simp]:
  "submap (fmupd k (VMap (Some n)) m) k = n"
  "k \<noteq> j \<Longrightarrow> submap (fmupd k v m) j = submap m j"
  "submap fmempty j = fmempty"
  by (simp_all add: submap_def)

lemma get_path_None [simp]: "get_path None ks = None"
  by (cases "(None :: gmap, ks)" rule: get_path.cases) simp_all

lemma get_path_empty [simp]: "get_path (Some fmempty) ks = None"
  by (cases "(Some fmempty :: gmap, ks)" rule: get_path.cases) simp_all

lemma get_path_step: "ks \<noteq> [] \<Longrightarrow> get_path (Some m) (k # ks) = get_path (Some (submap m k)) ks"
  by (cases ks) (auto simp: submap_def map_make_def split: option.split)

lemma set_path_step:
  "ks \<noteq> [] \<Longrightarrow> set_path m (k # ks) v = fmupd k (VMap (Some (set_path (submap m k) ks v))) m"
  by (cases ks) (auto simp: submap_def map_make_def Let_def split: option.split)

lemma remove_path_step:
  "ks \<noteq> [] \<Longrightarrow> remove_path m (k # ks) = fmupd k (VMap (Some (remove_path (submap m k) ks))) m"
  by (cases ks) (auto simp: submap_def map_make_def Let_def split: option.split)

lemma path_exists_None: "ks \<noteq> [] \<Longrightarrow> \<not> path_exists None ks"
  by (cases ks) simp_all

lemma path_exists_empty: "ks \<noteq> [] \<Longrightarrow> \<not> path_exists (Some fmempty) ks"
  by (cases ks) simp_all

lemma path_exists_step:
  "ks \<noteq> [] \<Longrightarrow> path_exists (Some m) (k # ks) = path_exists (Some (submap m k)) ks"
  by (auto simp: submap_def map_make_def path_exists_None path_exists_empty split: option.split)

lemma path_exists_last: "path_exists (Some m) [k] \<longleftrightarrow> fmlookup m k \<noteq> None"
  by (simp split: option.split)

declare path_exists.simps(2) [simp del]

lemmas path_steps = path_exists_last get_path_step set_path_step remove_path_step path_exists_step

text \<open>Induction on a non-empty path.\<close>

lemma path_induct [consumes 1, case_names last step]:
  assumes "ks \<noteq> []"
    and "\<And>k. P [k]"
    and "\<And>k ks. ks \<noteq> [] \<Longrightarrow> P ks \<Longrightarrow> P (k # ks)"
  shows "P ks"
  using assms(1)
proof (induction ks)
  case Nil
  then show ?case by simp
next
  case (Cons k ks)
  then show ?case using assms(2,3) by (cases "ks = []") auto
qed

section \<open>The laws of get, set and remove on maps\<close>

definition related :: "string list \<Rightarrow> string list \<Rightarrow> bool" where
  "related ks js \<longleftrightarrow> prefix ks js \<or> prefix js ks"

lemma related_Cons [simp]: "related (k # ks) (j # js) \<longleftrightarrow> k = j \<and> related ks js"
  by (auto simp: related_def)

lemma related_Nil [simp]: "related [] js" "related ks []"
  by (simp_all add: related_def)

lemma get_set_same: "ks \<noteq> [] \<Longrightarrow> get_path (Some (set_path m ks v)) ks = Some v"
  by (induction ks arbitrary: m rule: path_induct) (simp_all add: path_steps)

lemma get_set_unrelated:
  assumes "\<not> related ks js"
  shows "get_path (Some (set_path m ks v)) js = get_path (Some m) js"
proof -
  from assms have "ks \<noteq> []" and "js \<noteq> []" by auto
  from this assms show ?thesis
  proof (induction ks arbitrary: m js rule: path_induct)
    case (last k)
    then obtain j js' where "js = j # js'" "j \<noteq> k" by (cases js) auto
    then show ?case by (cases "js' = []") (simp_all add: path_steps)
  next
    case (step k ks)
    then obtain j js' where js: "js = j # js'" by (cases js) auto
    with step show ?case
      by (cases "js' = []"; cases "j = k") (auto simp: path_steps)
  qed
qed

lemma set_set: "ks \<noteq> [] \<Longrightarrow> set_path (set_path m ks v) ks w = set_path m ks w"
  by (induction ks arbitrary: m rule: path_induct) (simp_all add: path_steps)

lemma set_get:
  assumes "get_path (Some m) ks = Some v"
  shows "set_path m ks v = m"
proof -
  from assms have "ks \<noteq> []" by auto
  from this assms show ?thesis
  proof (induction ks arbitrary: m rule: path_induct)
    case (last k)
    then show ?case by (intro fmap_ext) auto
  next
    case (step k ks)
    then have "set_path (submap m k) ks v = submap m k" by (simp add: path_steps)
    moreover have "fmlookup m k = Some (VMap (Some (submap m k)))"
      using step by (auto simp: path_steps submap_def map_make_def as_map_Some_iff split: option.splits)
    ultimately show ?case using step(1) by (intro fmap_ext) (auto simp: path_steps)
  qed
qed

lemma get_path_exists: "ks \<noteq> [] \<Longrightarrow> path_exists (Some m) ks \<longleftrightarrow> get_path (Some m) ks \<noteq> None"
  by (induction ks arbitrary: m rule: path_induct) (auto simp: path_steps)

lemma get_remove_same: "ks \<noteq> [] \<Longrightarrow> get_path (Some (remove_path m ks)) ks = None"
  by (induction ks arbitrary: m rule: path_induct) (simp_all add: path_steps)

lemma submap_drop: "k \<noteq> j \<Longrightarrow> submap (fmdrop k m) j = submap m j"
  by (simp add: submap_def)

lemma get_remove_unrelated:
  assumes "\<not> related ks js"
  shows "get_path (Some (remove_path m ks)) js = get_path (Some m) js"
proof -
  from assms have "ks \<noteq> []" and "js \<noteq> []" by auto
  from this assms show ?thesis
  proof (induction ks arbitrary: m js rule: path_induct)
    case (last k)
    then obtain j js' where "js = j # js'" "j \<noteq> k" by (cases js) auto
    then show ?case by (cases "js' = []") (simp_all add: path_steps submap_drop)
  next
    case (step k ks)
    then obtain j js' where js: "js = j # js'" by (cases js) auto
    with step show ?case
      by (cases "js' = []"; cases "j = k") (auto simp: path_steps)
  qed
qed

text \<open>Nothing is left below a removed path.\<close>

lemma get_remove_below:
  assumes "ks \<noteq> []" and "prefix ks js"
  shows "get_path (Some (remove_path m ks)) js = None"
  using assms
proof (induction ks arbitrary: m js rule: path_induct)
  case (last k)
  then obtain js' where "js = k # js'" by (auto simp: prefix_def)
  then show ?case by (cases "js' = []") (simp_all add: path_steps submap_def)
next
  case (step k ks)
  then obtain js' where "js = k # js'" "prefix ks js'" by (auto simp: prefix_def)
  with step show ?case by (cases "js' = []") (simp_all add: path_steps)
qed

lemma get_absent_below:
  assumes "ks \<noteq> []" and "prefix ks js" and "get_path (Some m) ks = None"
  shows "get_path (Some m) js = None"
  using assms
proof (induction ks arbitrary: m js rule: path_induct)
  case (last k)
  then obtain js' where "js = k # js'" by (auto simp: prefix_def)
  with last show ?case by (cases "js' = []") (simp_all add: path_steps submap_def)
next
  case (step k ks)
  then obtain js' where js: "js = k # js'" "prefix ks js'" by (auto simp: prefix_def)
  then have "js' \<noteq> []" using step(1) by auto
  moreover have "get_path (Some (submap m k)) js' = None"
    by (rule step(2) [OF js(2)]) (use step(4) get_path_step [OF step(1)] in simp)
  ultimately show ?case using js(1) get_path_step by metis
qed

text \<open>What was set where nothing was is gone again after the removal.\<close>

lemma remove_set:
  assumes "ks \<noteq> []" and "get_path (Some m) ks = None"
    and "butlast ks = [] \<or> (\<exists>n. get_path (Some m) (butlast ks) = Some (VMap (Some n)))"
  shows "remove_path (set_path m ks v) ks = m"
  using assms
proof (induction ks arbitrary: m rule: path_induct)
  case (last j)
  then show ?case by (intro fmap_ext) simp
next
  case (step j ks)
  from step(1) have bl: "butlast (j # ks) = j # butlast ks" by simp
  have sub: "fmlookup m j = Some (VMap (Some (submap m j)))"
    using step bl
    by (cases "butlast ks = []")
       (auto simp: path_steps submap_def map_make_def as_map_Some_iff split: option.splits)
  have "remove_path (set_path (submap m j) ks v) ks = submap m j"
  proof (rule step.IH)
    show "get_path (Some (submap m j)) ks = None"
      using step by (simp add: path_steps)
    show "butlast ks = [] \<or> (\<exists>n. get_path (Some (submap m j)) (butlast ks) = Some (VMap (Some n)))"
      using step bl by (cases "butlast ks = []") (auto simp: path_steps)
  qed
  with sub show ?case using step(1) by (intro fmap_ext) (auto simp: path_steps)
qed

lemma remove_keeps_absent:
  assumes "path_exists (Some m) ks" and "get_path (Some m) js = None"
  shows "get_path (Some (remove_path m ks)) js = None"
proof (cases "ks = []")
  case True
  with assms show ?thesis by simp
next
  case False
  then show ?thesis using assms
  proof (induction ks arbitrary: m js rule: path_induct)
    case (last k)
    then show ?case
      by (cases js; cases "tl js = []"; cases "hd js = k")
         (auto simp: path_steps submap_drop, simp add: submap_def)
  next
    case (step k ks)
    then obtain x where x: "get_path (Some (submap m k)) ks = Some x"
      by (auto simp: path_steps get_path_exists)
    then have "fmlookup m k \<noteq> None" by (cases "fmlookup m k") (simp_all add: submap_def)
    with step show ?case
      by (cases js; cases "tl js = []"; cases "hd js = k") (auto simp: path_steps)
  qed
qed

section \<open>The event store\<close>

text \<open>
  The contract the transforms rely on: a store of values at paths, of which some are related
  (one leads to the other). Transforms that move, copy or delete fields are clients of it.
\<close>

locale field_store =
  fixes get :: "'e \<Rightarrow> 'p \<Rightarrow> 'v option"
    and put :: "'e \<Rightarrow> 'p \<Rightarrow> 'v \<Rightarrow> 'e"
    and remove :: "'e \<Rightarrow> 'p \<Rightarrow> 'e"
    and valid :: "'p \<Rightarrow> bool"
    and rel :: "'p \<Rightarrow> 'p \<Rightarrow> bool"
  assumes rel_sym: "rel p q \<Longrightarrow> rel q p"
    and get_put: "valid p \<Longrightarrow> get (put e p v) p = Some v"
    and get_put_other: "\<not> rel p q \<Longrightarrow> get (put e p v) q = get e q"
    and put_put: "put (put e p v) p w = put e p w"
    and put_get: "get e p = Some v \<Longrightarrow> put e p v = e"
    and get_remove: "get (remove e p) p = None"
    and get_remove_other: "\<not> rel p q \<Longrightarrow> get (remove e p) q = get e q"
    and remove_absent: "get e q = None \<Longrightarrow> get (remove e p) q = None"
    and remove_noop: "get e p = None \<Longrightarrow> remove e p = e"
begin

text \<open>Moving a value: the target holds it, the source is gone, nothing unrelated changed.\<close>

lemma move_target:
  assumes "valid q" and "\<not> rel p q"
  shows "get (remove (put e q v) p) q = Some v"
  using assms by (simp add: get_remove_other get_put)

lemma move_other:
  assumes "\<not> rel p r" and "\<not> rel q r"
  shows "get (remove (put e q v) p) r = get e r"
  using assms by (simp add: get_remove_other get_put_other)

lemma remove_all_absent: "get e q = None \<Longrightarrow> get (foldl remove e ps) q = None"
  by (induction ps arbitrary: e) (simp_all add: remove_absent)

lemma remove_all_gone: "p \<in> set ps \<Longrightarrow> get (foldl remove e ps) p = None"
  by (induction ps arbitrary: e) (auto simp: get_remove remove_all_absent)

lemma remove_all_other:
  "(\<And>p. p \<in> set ps \<Longrightarrow> \<not> rel p q) \<Longrightarrow> get (foldl remove e ps) q = get e q"
  by (induction ps arbitrary: e) (simp_all add: get_remove_other)

lemma remove_all_noop: "(\<And>p. p \<in> set ps \<Longrightarrow> get e p = None) \<Longrightarrow> foldl remove e ps = e"
  by (induction ps) (simp_all add: remove_noop)

end

definition related_paths :: "string \<Rightarrow> string \<Rightarrow> bool" where
  "related_paths p q \<longleftrightarrow> related (str_split p ''.'') (str_split q ''.'')"

lemma GetField_alt:
  "GetField e p = (if p = [] then None else get_path (Payload e) (str_split p ''.''))"
  by (simp add: GetField_def)

lemma SetField_Payload:
  "Payload (SetField e p v) =
     (if p = [] then Payload e
      else Some (set_path (map_make (Payload e)) (str_split p ''.'') v))"
  by (simp add: SetField_def Let_def)

lemma RemoveField_Payload:
  "Payload (RemoveField e p) =
     (if p = [] \<or> Payload e = None \<or> \<not> path_exists (Payload e) (str_split p ''.'') then Payload e
      else Some (remove_path (map_make (Payload e)) (str_split p ''.'')))"
  by (simp add: RemoveField_def Let_def)

lemma get_path_make: "get_path (Some (map_make m)) ks = get_path m ks"
  by (cases m) simp_all

lemma SetField_frame [go_frame]:
  "Metadata (SetField e p v) = Metadata e"
  "Timestamp (SetField e p v) = Timestamp e"
  "Headers (SetField e p v) = Headers e"
  by (simp_all add: SetField_def Let_def)

lemma RemoveField_frame [go_frame]:
  "Metadata (RemoveField e p) = Metadata e"
  "Timestamp (RemoveField e p) = Timestamp e"
  "Headers (RemoveField e p) = Headers e"
  by (simp_all add: RemoveField_def Let_def)

lemma event_eqI:
  fixes a b :: event
  assumes "Payload a = Payload b" and "Metadata a = Metadata b"
    and "Timestamp a = Timestamp b" and "Headers a = Headers b"
  shows "a = b"
  using assms by (cases a; cases b) simp

interpretation es: field_store GetField SetField RemoveField "\<lambda>p. p \<noteq> []" related_paths
proof unfold_locales
  fix p q :: string and e :: event and v w :: gval
  show "related_paths p q \<Longrightarrow> related_paths q p"
    by (auto simp: related_paths_def related_def)
  show "p \<noteq> [] \<Longrightarrow> GetField (SetField e p v) p = Some v"
    by (simp add: GetField_alt SetField_Payload get_set_same)
  show "\<not> related_paths p q \<Longrightarrow> GetField (SetField e p v) q = GetField e q"
    by (simp add: GetField_alt SetField_Payload related_paths_def get_set_unrelated get_path_make)
  show "SetField (SetField e p v) p w = SetField e p w"
    by (rule event_eqI) (simp_all add: SetField_Payload set_set go_frame)
  show "GetField e p = Some v \<Longrightarrow> SetField e p v = e"
  proof (rule event_eqI)
    assume "GetField e p = Some v"
    then have p: "p \<noteq> []" and g: "get_path (Payload e) (str_split p ''.'') = Some v"
      by (simp_all add: GetField_alt split: if_splits)
    then obtain m where m: "Payload e = Some m" by (cases "Payload e") auto
    with p g show "Payload (SetField e p v) = Payload e"
      by (simp add: SetField_Payload set_get)
  qed (simp_all add: go_frame)
  show "GetField (RemoveField e p) p = None"
    by (cases "Payload e")
       (auto simp: GetField_alt RemoveField_Payload get_remove_same get_path_exists)
  show "\<not> related_paths p q \<Longrightarrow> GetField (RemoveField e p) q = GetField e q"
    by (cases "Payload e")
       (simp_all add: GetField_alt RemoveField_Payload related_paths_def get_remove_unrelated)
  show "GetField e q = None \<Longrightarrow> GetField (RemoveField e p) q = None"
    by (cases "Payload e")
       (auto simp: GetField_alt RemoveField_Payload remove_keeps_absent)
  show "GetField e p = None \<Longrightarrow> RemoveField e p = e"
    by (cases "Payload e") (auto simp: GetField_alt RemoveField_def get_path_exists)
qed

text \<open>Fields at the top level of the payload\<close>

lemma GetField_top: "p \<noteq> [] \<Longrightarrow> CHR ''.'' \<notin> set p \<Longrightarrow> GetField e p = map_get (Payload e) p"
  by (cases "Payload e") (simp_all add: GetField_alt str_split_char_single)

lemma SetField_top:
  "p \<noteq> [] \<Longrightarrow> CHR ''.'' \<notin> set p \<Longrightarrow>
   SetField e p v = e\<lparr>Payload := Some (fmupd p v (map_make (Payload e)))\<rparr>"
  by (simp add: SetField_def str_split_char_single)

lemma str_split_below: "p \<noteq> [] \<Longrightarrow> prefix (str_split p ''.'') (str_split (p @ ''.'' @ k) ''.'')"
  using str_split_append_char [of p "CHR ''.''" k] by simp

lemma RemoveField_below:
  assumes "p \<noteq> []"
  shows "GetField (RemoveField e p) (p @ ''.'' @ k) = None"
proof (cases "Payload e")
  case (Some m)
  let ?ks = "str_split p ''.''" and ?js = "str_split (p @ ''.'' @ k) ''.''"
  have pre: "prefix ?ks ?js" by (rule str_split_below [OF assms])
  show ?thesis
  proof (cases "get_path (Some m) ?ks = None")
    case True
    with assms Some get_absent_below [OF _ pre] show ?thesis
      by (simp add: GetField_alt RemoveField_Payload get_path_exists)
  next
    case False
    with assms Some get_remove_below [OF _ pre] show ?thesis
      by (simp add: GetField_alt RemoveField_Payload get_path_exists)
  qed
qed (use assms in \<open>simp add: GetField_alt RemoveField_Payload\<close>)

section \<open>Copies are equal\<close>

lemma deep_copy_id [simp]: "deep_copy v = v"
proof (induction v)
  case (VList xs)
  then show ?case by (cases xs) (auto intro: map_idI)
next
  case (VMap m)
  then show ?case
  proof (cases m)
    case (Some f)
    with VMap have "deep_copy x = x" if "fmlookup f k = Some x" for k x
      using that by (auto intro: fmran'I)
    then have "fmmap deep_copy f = f"
      by (intro fmap_ext) (auto simp: map_option_case split: option.split)
    with Some show ?thesis by simp
  qed simp
qed simp_all

lemma deep_copy_map_id [simp]: "deep_copy_map m = m"
proof -
  have "deep_copy = id" by (rule ext) simp
  then have "fmmap deep_copy = id" by (metis fmap.map_id0)
  then show ?thesis unfolding deep_copy_map_def by (metis option.map_id)
qed

lemma Clone_id [simp]: "Clone e = e"
  by (simp add: Clone_def)

section \<open>Properties\<close>

text \<open>C1: \<open>SetField\<close> stores the value at its path, changes no field at an unrelated path, and
  keeps the metadata, the timestamp and the headers.\<close>

theorem SetField_stores:
  assumes "p \<noteq> []"
  shows "GetField (SetField e p v) p = Some v \<and>
    (\<forall>q. \<not> related_paths p q \<longrightarrow> GetField (SetField e p v) q = GetField e q) \<and>
    Metadata (SetField e p v) = Metadata e \<and> Timestamp (SetField e p v) = Timestamp e \<and>
    Headers (SetField e p v) = Headers e"
  using assms by (simp add: es.get_put es.get_put_other go_frame)

definition sample_meta :: metadata where
  "sample_meta = \<lparr>Topic = ''in'', Partition = 0, Offset = 7, Key = Some ''k''\<rparr>"

definition sample_event :: "(string, gval) fmap \<Rightarrow> event" where
  "sample_event m =
     \<lparr>Payload = Some m, Metadata = sample_meta, Timestamp = 0, Headers = Some fmempty\<rparr>"

theorem SetField_stores_witness:
  "GetField (SetField (sample_event fmempty) ''user.name'' (VStr ''a'')) ''user.name'' = Some (VStr ''a'')"
  using SetField_stores [of "''user.name''" "sample_event fmempty" "VStr ''a''"] by simp

text \<open>C2: after \<open>RemoveField\<close> nothing is at the path, fields at unrelated paths are as before, no
  field appears, and the rest of the event is kept.\<close>

theorem RemoveField_removes:
  "GetField (RemoveField e p) p = None \<and>
   (\<forall>q. \<not> related_paths p q \<longrightarrow> GetField (RemoveField e p) q = GetField e q) \<and>
   (\<forall>q. GetField e q = None \<longrightarrow> GetField (RemoveField e p) q = None) \<and>
   Metadata (RemoveField e p) = Metadata e \<and> Timestamp (RemoveField e p) = Timestamp e \<and>
   Headers (RemoveField e p) = Headers e"
  by (simp add: es.get_remove es.get_remove_other es.remove_absent go_frame)

theorem RemoveField_removes_witness:
  "GetField (RemoveField (sample_event (fmupd ''b'' VNil (fmupd ''a'' VNil fmempty))) ''a'') ''b'' =
   Some VNil"
proof -
  have "\<not> related_paths ''a'' ''b''"
    by (simp add: related_paths_def str_split.simps related_def)
  then have "GetField (RemoveField (sample_event (fmupd ''b'' VNil (fmupd ''a'' VNil fmempty))) ''a'') ''b'' =
      GetField (sample_event (fmupd ''b'' VNil (fmupd ''a'' VNil fmempty))) ''b''"
    using RemoveField_removes by blast
  also have "\<dots> = Some VNil" by (simp add: GetField_alt sample_event_def str_split.simps)
  finally show ?thesis .
qed

text \<open>C23: setting a field a second time keeps only the second value, setting it to the value it has
  changes nothing, and removing a field that was set where nothing was gives the event back when the
  map that holds the field was there already.\<close>

theorem SetField_laws:
  "SetField (SetField e p v) p w = SetField e p w \<and>
   (GetField e p = Some v \<longrightarrow> SetField e p v = e) \<and>
   (\<forall>m ks k. Payload e = Some m \<and> p = str_join (ks @ [k]) ''.'' \<and> p \<noteq> [] \<and>
      (\<forall>x \<in> set (ks @ [k]). CHR ''.'' \<notin> set x) \<and> GetField e p = None \<and>
      (ks = [] \<or> (\<exists>n. get_path (Payload e) ks = Some (VMap (Some n)))) \<longrightarrow>
      RemoveField (SetField e p v) p = e)"
proof (intro conjI allI impI)
  show "SetField (SetField e p v) p w = SetField e p w" by (rule es.put_put)
  show "SetField e p v = e" if "GetField e p = Some v" using that by (rule es.put_get)
  fix m ks k
  assume a: "Payload e = Some m \<and> p = str_join (ks @ [k]) ''.'' \<and> p \<noteq> [] \<and>
      (\<forall>x \<in> set (ks @ [k]). CHR ''.'' \<notin> set x) \<and> GetField e p = None \<and>
      (ks = [] \<or> (\<exists>n. get_path (Payload e) ks = Some (VMap (Some n))))"
  then have keys: "str_split p ''.'' = ks @ [k]" using str_split_join_char [of "ks @ [k]"] by simp
  have "remove_path (set_path m (ks @ [k]) v) (ks @ [k]) = m"
    using a keys by (intro remove_set) (auto simp: GetField_alt)
  with a keys show "RemoveField (SetField e p v) p = e"
    by (intro event_eqI)
       (simp_all add: RemoveField_Payload SetField_Payload go_frame get_path_exists get_set_same)
qed

theorem SetField_laws_witness:
  "RemoveField (SetField (sample_event fmempty) ''a'' VNil) ''a'' = sample_event fmempty"
  using SetField_laws [of "sample_event fmempty" "''a''" VNil VNil, THEN conjunct2, THEN conjunct2,
      rule_format, of fmempty "[]" "''a''"]
  by (simp add: GetField_def sample_event_def str_split.simps)

end
