(* ===== verification/Event_Heap.thy ===== *)
theory Event_Heap
  imports Event
begin

text \<open>
  \<open>SetField\<close> and \<open>RemoveField\<close> of \<open>pkg/event/event.go\<close> as the code runs them: Go maps and
  slices are references into a store, \<open>cloneMapShallow\<close> allocates a map with the same entries,
  and the loops write into the maps they allocated. The theorems say that the store of the event
  they were given is left as it was (every map it can reach keeps its contents) and that the
  result is the event the functions of theory \<open>Event\<close> compute.
\<close>

section \<open>The store\<close>

type_synonym addr = nat

text \<open>A value of an interface: plain data, or a reference to a map or a slice, which may be nil.\<close>

datatype hval = HLeaf gval | HMap "addr option" | HList "addr option"

datatype hobj = OMap "(string, hval) fmap" | OList "hval list"

record store =
  objs :: "addr \<Rightarrow> hobj option"
  next_addr :: addr

definition store_ok :: "store \<Rightarrow> bool" where
  "store_ok h \<longleftrightarrow> (\<forall>a. next_addr h \<le> a \<longrightarrow> objs h a = None)"

definition alloc :: "store \<Rightarrow> hobj \<Rightarrow> store \<times> addr" where
  "alloc h x = (h\<lparr>objs := (objs h)(next_addr h \<mapsto> x), next_addr := next_addr h + 1\<rparr>, next_addr h)"

definition write_obj :: "store \<Rightarrow> addr \<Rightarrow> hobj \<Rightarrow> store" where
  "write_obj h a x = h\<lparr>objs := (objs h)(a \<mapsto> x)\<rparr>"

definition map_at :: "store \<Rightarrow> addr \<Rightarrow> (string, hval) fmap" where
  "map_at h a = (case objs h a of Some (OMap f) \<Rightarrow> f | _ \<Rightarrow> fmempty)"

text \<open>The entries of a map reference; a nil map has none.\<close>

definition entries :: "store \<Rightarrow> addr option \<Rightarrow> (string, hval) fmap" where
  "entries h r = (case r of None \<Rightarrow> fmempty | Some a \<Rightarrow> map_at h a)"

definition h_as_map :: "hval option \<Rightarrow> addr option" where
  "h_as_map v = (case v of Some (HMap r) \<Rightarrow> r | _ \<Rightarrow> None)"

section \<open>The loops\<close>

definition clone_map_shallow_h :: "store \<Rightarrow> addr option \<Rightarrow> store \<times> addr option" where
  "clone_map_shallow_h h r =
     (case r of
        None \<Rightarrow> (h, None)
      | Some a \<Rightarrow> (case alloc h (OMap (map_at h a)) of (h', b) \<Rightarrow> (h', Some b)))"

text \<open>A copy of the map, or a new empty one for a nil map.\<close>

definition clone_or_make :: "store \<Rightarrow> addr option \<Rightarrow> store \<times> addr" where
  "clone_or_make h r =
     (case clone_map_shallow_h h r of
        (h', Some b) \<Rightarrow> (h', b)
      | (h', None) \<Rightarrow> alloc h' (OMap fmempty))"

text \<open>
  The loop over the keys of both functions: \<open>cur\<close> is \<open>currentNew\<close>, \<open>orig\<close> is
  \<open>currentOrig\<close>, and \<open>act\<close> is what the last key does to the current map.
\<close>

fun walk_loop ::
  "(string \<Rightarrow> (string, hval) fmap \<Rightarrow> (string, hval) fmap) \<Rightarrow>
   store \<Rightarrow> addr \<Rightarrow> addr option \<Rightarrow> string list \<Rightarrow> store" where
  "walk_loop act h cur orig [] = h"
| "walk_loop act h cur orig [k] = write_obj h cur (OMap (act k (map_at h cur)))"
| "walk_loop act h cur orig (k # k' # ks) =
     (let orig_next = h_as_map (fmlookup (entries h orig) k);
          (h1, next_map) = clone_or_make h orig_next;
          h2 = write_obj h1 cur (OMap (fmupd k (HMap (Some next_map)) (map_at h1 cur)))
      in walk_loop act h2 next_map orig_next (k' # ks))"

definition set_field_h :: "store \<Rightarrow> addr option \<Rightarrow> string \<Rightarrow> hval \<Rightarrow> store \<times> addr option" where
  "set_field_h h payload path v =
     (if path = [] then (h, payload)
      else case clone_or_make h payload of (h1, new) \<Rightarrow>
             (walk_loop (\<lambda>k. fmupd k v) h1 new payload (str_split path ''.''), Some new))"

fun path_exists_h :: "store \<Rightarrow> addr option \<Rightarrow> string list \<Rightarrow> bool" where
  "path_exists_h h r [] = True"
| "path_exists_h h r (k # ks) =
     (case fmlookup (entries h r) k of
        None \<Rightarrow> False
      | Some v \<Rightarrow>
          (if ks = [] then True
           else (case v of HMap r' \<Rightarrow> path_exists_h h r' ks | _ \<Rightarrow> False)))"

definition remove_field_h :: "store \<Rightarrow> addr option \<Rightarrow> string \<Rightarrow> store \<times> addr option" where
  "remove_field_h h payload path =
     (if path = [] \<or> payload = None then (h, payload)
      else let keys = str_split path ''.''
           in if \<not> path_exists_h h payload keys then (h, payload)
              else case clone_or_make h payload of (h1, new) \<Rightarrow>
                     (walk_loop fmdrop h1 new payload keys, Some new))"

section \<open>What a reference stands for\<close>

inductive rep :: "store \<Rightarrow> hval \<Rightarrow> gval \<Rightarrow> bool" for h where
  leaf: "(\<And>m. v \<noteq> VMap m) \<Longrightarrow> (\<And>xs. v \<noteq> VList xs) \<Longrightarrow> rep h (HLeaf v) v"
| nil_map: "rep h (HMap None) (VMap None)"
| nil_list: "rep h (HList None) (VList None)"
| map: "objs h a = Some (OMap f) \<Longrightarrow> fmdom f = fmdom m \<Longrightarrow>
    (\<And>k x y. fmlookup f k = Some x \<Longrightarrow> fmlookup m k = Some y \<Longrightarrow> rep h x y) \<Longrightarrow>
    rep h (HMap (Some a)) (VMap (Some m))"
| list: "objs h a = Some (OList xs) \<Longrightarrow> length xs = length ys \<Longrightarrow>
    (\<And>i. i < length xs \<Longrightarrow> rep h (xs ! i) (ys ! i)) \<Longrightarrow>
    rep h (HList (Some a)) (VList (Some ys))"

inductive_simps rep_map_iff: "rep h (HMap r) v"
inductive_simps rep_list_iff: "rep h (HList r) v"
inductive_simps rep_leaf_iff: "rep h (HLeaf w) v"
inductive_simps rep_VMap_iff: "rep h x (VMap m)"

text \<open>Entry by entry, a map object stands for a map.\<close>

definition rep_entries :: "store \<Rightarrow> (string, hval) fmap \<Rightarrow> (string, gval) fmap \<Rightarrow> bool" where
  "rep_entries h f m \<longleftrightarrow>
     (\<forall>k. rel_option (rep h) (fmlookup f k) (fmlookup m k))"

lemma rel_option_dom:
  assumes "\<forall>k. rel_option R (fmlookup f k) (fmlookup m k)"
  shows "fmdom f = fmdom m"
proof (rule fset_eqI)
  fix k
  have "(fmlookup f k = None) = (fmlookup m k = None)"
    using assms [rule_format, of k] by (cases "fmlookup f k"; cases "fmlookup m k") simp_all
  then show "k |\<in>| fmdom f \<longleftrightarrow> k |\<in>| fmdom m" by (metis fmdom_notD fmdom_notI)
qed

lemma rep_map_entries:
  "rep h (HMap (Some a)) (VMap (Some m)) \<longleftrightarrow>
     (\<exists>f. objs h a = Some (OMap f) \<and> rep_entries h f m)"
proof
  assume "rep h (HMap (Some a)) (VMap (Some m))"
  then obtain f where f: "objs h a = Some (OMap f)" "fmdom f = fmdom m"
      and r: "\<And>k x y. fmlookup f k = Some x \<Longrightarrow> fmlookup m k = Some y \<Longrightarrow> rep h x y"
    by (auto simp: rep_map_iff)
  have "rel_option (rep h) (fmlookup f k) (fmlookup m k)" for k
  proof (cases "fmlookup f k")
    case None
    then have "k |\<notin>| fmdom m" using f(2) by (metis fmdom_notI)
    with None show ?thesis by (simp add: fmdom_notD)
  next
    case (Some x)
    then have "k |\<in>| fmdom m" using f(2) by (metis fmdomI)
    with Some r show ?thesis by (auto elim!: fmdomE)
  qed
  with f(1) show "\<exists>f. objs h a = Some (OMap f) \<and> rep_entries h f m"
    by (auto simp: rep_entries_def)
next
  assume "\<exists>f. objs h a = Some (OMap f) \<and> rep_entries h f m"
  then obtain f where "objs h a = Some (OMap f)"
      and *: "\<forall>k. rel_option (rep h) (fmlookup f k) (fmlookup m k)"
    by (auto simp: rep_entries_def)
  moreover have "rep h x y" if "fmlookup f k = Some x" "fmlookup m k = Some y" for k x y
    using * [rule_format, of k] that by simp
  ultimately show "rep h (HMap (Some a)) (VMap (Some m))"
    by (intro rep.map [of h a f m] rel_option_dom [of "rep h"]) auto
qed

lemma rep_entries_empty [simp]: "rep_entries h fmempty fmempty"
  by (simp add: rep_entries_def)

lemma rep_entries_upd:
  "rep_entries h f m \<Longrightarrow> rep h x y \<Longrightarrow> rep_entries h (fmupd k x f) (fmupd k y m)"
  by (simp add: rep_entries_def)

lemma rep_entries_drop: "rep_entries h f m \<Longrightarrow> rep_entries h (fmdrop k f) (fmdrop k m)"
  by (simp add: rep_entries_def)

text \<open>A store that extends another leaves every object of it as it is.\<close>

definition extends :: "store \<Rightarrow> store \<Rightarrow> bool" where
  "extends h h' \<longleftrightarrow> (\<forall>a. objs h a \<noteq> None \<longrightarrow> objs h' a = objs h a)"

lemma extends_refl [simp]: "extends h h"
  by (simp add: extends_def)

lemma extends_trans: "extends h h' \<Longrightarrow> extends h' h'' \<Longrightarrow> extends h h''"
  by (auto simp: extends_def)

lemma rep_extends: "rep h x v \<Longrightarrow> extends h h' \<Longrightarrow> rep h' x v"
proof (induction rule: rep.induct)
  case (leaf v)
  then show ?case by (intro rep.leaf) auto
next
  case (map a f m)
  then show ?case by (intro rep.map [of h' a f]) (auto simp: extends_def)
next
  case (list a xs ys)
  then show ?case by (intro rep.list [of h' a xs]) (auto simp: extends_def)
qed (simp_all add: rep.intros)

lemma rep_entries_extends: "rep_entries h f m \<Longrightarrow> extends h h' \<Longrightarrow> rep_entries h' f m"
  unfolding rep_entries_def
  by (rule allI, rule option.rel_mono_strong, erule spec, rule rep_extends)


section \<open>The loops only write to new maps\<close>

lemma clone_or_make_spec:
  assumes "store_ok h" and "clone_or_make h r = (h', b)"
  shows "extends h h' \<and> store_ok h' \<and> objs h b = None \<and> objs h' b = Some (OMap (entries h r))"
  using assms
  by (auto simp: clone_or_make_def clone_map_shallow_h_def alloc_def store_ok_def extends_def
      entries_def split: option.splits)

lemma h_as_map_rep:
  assumes "rep_entries h f m"
  shows "rep_entries h (entries h (h_as_map (fmlookup f k))) (submap m k)"
proof (cases "fmlookup f k")
  case None
  then have "fmlookup m k = None"
    using assms [unfolded rep_entries_def, rule_format, of k] by simp
  with None show ?thesis by (simp add: h_as_map_def entries_def submap_def)
next
  case (Some x)
  then obtain y where y: "fmlookup m k = Some y" and xy: "rep h x y"
    using assms [unfolded rep_entries_def, rule_format, of k]
    by (cases "fmlookup m k") simp_all
  from xy show ?thesis
  proof cases
    case leaf
    then show ?thesis using Some y
      by (auto simp: h_as_map_def entries_def submap_def as_map_def split: gval.split)
  next
    case (map a g n)
    then have "rep_entries h g n"
      using xy by (auto simp: rep_map_entries)
    then show ?thesis using Some y map
      by (simp add: h_as_map_def entries_def submap_def map_at_def)
  qed (use Some y in \<open>auto simp: h_as_map_def entries_def submap_def as_map_def\<close>)
qed

text \<open>
  The same walk on values: \<open>set_path\<close> and \<open>remove_path\<close> are its two instances.
\<close>

fun walk_path ::
  "(string \<Rightarrow> (string, gval) fmap \<Rightarrow> (string, gval) fmap) \<Rightarrow>
   (string, gval) fmap \<Rightarrow> string list \<Rightarrow> (string, gval) fmap" where
  "walk_path act m [] = m"
| "walk_path act m [k] = act k m"
| "walk_path act m (k # k' # ks) =
     fmupd k (VMap (Some (walk_path act (submap m k) (k' # ks)))) m"

lemma walk_path_set: "walk_path (\<lambda>k. fmupd k v) m ks = set_path m ks v"
proof (induction ks arbitrary: m)
  case (Cons k ks)
  then show ?case by (cases ks) (simp_all add: set_path_step del: set_path.simps(3))
qed simp

lemma walk_path_remove: "walk_path fmdrop m ks = remove_path m ks"
proof (induction ks arbitrary: m)
  case (Cons k ks)
  then show ?case by (cases ks) (simp_all add: remove_path_step del: remove_path.simps(3))
qed simp

text \<open>
  \<open>hpre\<close> is the store before the call. The loop writes to \<open>cur\<close> and to maps it allocates, and
  none of them is in \<open>hpre\<close>.
\<close>

lemma walk_loop_spec:
  assumes act: "\<And>h k f m. extends hpre h \<Longrightarrow> rep_entries h f m \<Longrightarrow> rep_entries h (act k f) (act' k m)"
    and h: "store_ok h" "extends hpre h"
    and cur: "objs hpre cur = None" "objs h cur = Some (OMap f)"
    and orig: "entries hpre orig = f" "entries h orig = f" "rep_entries hpre f m"
    and "ks \<noteq> []"
  shows "let h' = walk_loop act h cur orig ks
         in store_ok h' \<and> extends hpre h' \<and>
            (\<forall>a. a \<noteq> cur \<longrightarrow> objs h a \<noteq> None \<longrightarrow> objs h' a = objs h a) \<and>
            rep h' (HMap (Some cur)) (VMap (Some (walk_path act' m ks)))"
  using assms(9) h cur orig
proof (induction ks arbitrary: h cur orig f m rule: path_induct)
  case (last k)
  let ?h' = "write_obj h cur (OMap (act k f))"
  have ext: "extends hpre ?h'" using last by (auto simp: extends_def write_obj_def)
  have "rep_entries ?h' (act k f) (act' k m)"
    by (rule act [OF ext rep_entries_extends [OF last(7) ext]])
  then have "rep ?h' (HMap (Some cur)) (VMap (Some (act' k m)))"
    by (auto simp: rep_map_entries write_obj_def)
  with ext last show ?case
    by (auto simp: Let_def map_at_def write_obj_def store_ok_def)
next
  case (step k ks)
  let ?o = "h_as_map (fmlookup f k)"
  obtain h1 nm where c: "clone_or_make h ?o = (h1, nm)" by fastforce
  from clone_or_make_spec [OF step(3) c]
  have h1: "extends h h1" "store_ok h1" "objs h nm = None"
      "objs h1 nm = Some (OMap (entries h ?o))"
    by auto
  define h2 where "h2 = write_obj h1 cur (OMap (fmupd k (HMap (Some nm)) f))"
  have f1: "map_at h1 cur = f" using h1(1) step(6) by (auto simp: extends_def map_at_def)
  have nm: "nm \<noteq> cur" using h1(3) step(6) by auto
  have eq: "walk_loop act h cur orig (k # ks) = walk_loop act h2 nm ?o ks"
    using step(1) step(8) c f1 by (cases ks) (simp_all add: h2_def)
  have ents: "entries h' ?o = entries hpre ?o" if "extends hpre h'" for h'
  proof (cases ?o)
    case None
    then show ?thesis by (simp add: entries_def)
  next
    case (Some b)
    then have k: "fmlookup f k = Some (HMap (Some b))"
      by (auto simp: h_as_map_def split: option.splits hval.splits)
    then obtain y where "rep hpre (HMap (Some b)) y"
      using step(9) [unfolded rep_entries_def, rule_format, of k]
      by (cases "fmlookup m k") simp_all
    then have "objs hpre b \<noteq> None" by (auto simp: rep_map_iff)
    with that Some show ?thesis by (simp add: entries_def map_at_def extends_def)
  qed
  have e2: "extends hpre h2"
    using step(4,5) h1(1) by (auto simp: extends_def h2_def write_obj_def)
  have ok2: "store_ok h2"
    using h1(1,2) step(6) by (auto simp: store_ok_def h2_def write_obj_def extends_def)
  have IH: "let h' = walk_loop act h2 nm ?o ks
         in store_ok h' \<and> extends hpre h' \<and>
            (\<forall>a. a \<noteq> nm \<longrightarrow> objs h2 a \<noteq> None \<longrightarrow> objs h' a = objs h2 a) \<and>
            rep h' (HMap (Some nm)) (VMap (Some (walk_path act' (submap m k) ks)))"
  proof (rule step.IH [OF ok2 e2])
    show "objs hpre nm = None" using step(4) h1(3) by (auto simp: extends_def)
    show "objs h2 nm = Some (OMap (entries hpre ?o))"
      using h1(4) nm ents [OF step(4)] by (simp add: h2_def write_obj_def)
    show "entries hpre ?o = entries hpre ?o" ..
    show "entries h2 ?o = entries hpre ?o" by (rule ents [OF e2])
    show "rep_entries hpre (entries hpre ?o) (submap m k)" by (rule h_as_map_rep [OF step(9)])
  qed
  define h' where "h' = walk_loop act h2 nm ?o ks"
  from IH have h': "store_ok h'" "extends hpre h'"
      "\<And>a. a \<noteq> nm \<Longrightarrow> objs h2 a \<noteq> None \<Longrightarrow> objs h' a = objs h2 a"
      "rep h' (HMap (Some nm)) (VMap (Some (walk_path act' (submap m k) ks)))"
    by (auto simp: Let_def h'_def)
  have cur': "objs h' cur = Some (OMap (fmupd k (HMap (Some nm)) f))"
    using h'(3) [of cur] nm by (simp add: h2_def write_obj_def)
  have "rep_entries h' (fmupd k (HMap (Some nm)) f)
      (fmupd k (VMap (Some (walk_path act' (submap m k) ks))) m)"
    by (rule rep_entries_upd [OF rep_entries_extends [OF step(9) h'(2)] h'(4)])
  with cur' have "rep h' (HMap (Some cur)) (VMap (Some (walk_path act' m (k # ks))))"
    using step(1) by (cases ks) (auto simp: rep_map_entries)
  moreover have "objs h' a = objs h a" if "a \<noteq> cur" "objs h a \<noteq> None" for a
  proof -
    have "objs h2 a = objs h a"
      using that h1(1) by (simp add: h2_def write_obj_def extends_def)
    moreover have "a \<noteq> nm" using that(2) h1(3) by auto
    ultimately show ?thesis using h'(3) [of a] that(2) by simp
  qed
  ultimately show ?case using h'(1,2) eq by (simp add: Let_def h'_def)
qed

section \<open>The functions\<close>

lemma rep_payload_entries:
  assumes "rep h (HMap r) (VMap p)"
  shows "rep_entries h (entries h r) (map_make p)" and "(r = None) = (p = None)"
proof -
  have "rep_entries h (entries h r) (map_make p) \<and> (r = None) = (p = None)"
  proof (cases r)
    case None
    with assms show ?thesis by (auto simp: rep_map_iff entries_def)
  next
    case (Some a)
    with assms obtain m where "p = Some m" by (auto simp: rep_map_iff)
    with assms Some show ?thesis by (auto simp: rep_map_entries entries_def map_at_def)
  qed
  then show "rep_entries h (entries h r) (map_make p)" and "(r = None) = (p = None)" by auto
qed

lemma clone_then_walk:
  assumes act: "\<And>h' k f m. extends h h' \<Longrightarrow> rep_entries h' f m \<Longrightarrow>
      rep_entries h' (act k f) (act' k m)"
    and ok: "store_ok h" and p: "rep h (HMap r) (VMap p)" and ks: "ks \<noteq> []"
    and c: "clone_or_make h r = (h1, new)"
  shows "store_ok (walk_loop act h1 new r ks)"
    and "extends h (walk_loop act h1 new r ks)"
    and "rep (walk_loop act h1 new r ks) (HMap (Some new))
           (VMap (Some (walk_path act' (map_make p) ks)))"
proof -
  from clone_or_make_spec [OF ok c]
  have h1: "store_ok h1" "extends h h1" "objs h new = None"
      "objs h1 new = Some (OMap (entries h r))"
    by auto
  have "entries h1 r = entries h r"
  proof (cases r)
    case (Some a)
    then have "objs h a \<noteq> None" using p by (auto simp: rep_map_iff)
    with Some h1(2) show ?thesis by (simp add: entries_def map_at_def extends_def)
  qed (simp add: entries_def)
  have "let h' = walk_loop act h1 new r ks
         in store_ok h' \<and> extends h h' \<and>
            (\<forall>a. a \<noteq> new \<longrightarrow> objs h1 a \<noteq> None \<longrightarrow> objs h' a = objs h1 a) \<and>
            rep h' (HMap (Some new)) (VMap (Some (walk_path act' (map_make p) ks)))"
    by (rule walk_loop_spec [where hpre = h and f = "entries h r" and m = "map_make p" and
            act = act and act' = act', OF _ h1(1,2,3,4) refl
            \<open>entries h1 r = entries h r\<close> rep_payload_entries(1) [OF p] ks])
       (rule act)
  then show "store_ok (walk_loop act h1 new r ks)"
    and "extends h (walk_loop act h1 new r ks)"
    and "rep (walk_loop act h1 new r ks) (HMap (Some new))
           (VMap (Some (walk_path act' (map_make p) ks)))"
    by (auto simp: Let_def)
qed

lemma set_field_h_spec:
  assumes ok: "store_ok h" and p: "rep h (HMap r) (VMap (Payload e))" and v: "rep h x v"
    and run: "set_field_h h r path x = (h', r')"
  shows "store_ok h' \<and> extends h h' \<and> rep h' (HMap r') (VMap (Payload (SetField e path v)))"
proof (cases "path = []")
  case True
  with ok p run show ?thesis by (simp add: set_field_h_def SetField_Payload)
next
  case False
  obtain h1 new where c: "clone_or_make h r = (h1, new)" by fastforce
  have act: "rep_entries h' (fmupd k x f) (fmupd k v m)"
    if "extends h h'" and "rep_entries h' f m" for h' k f m
    by (rule rep_entries_upd [OF that(2) rep_extends [OF v that(1)]])
  note w = clone_then_walk [where act = "\<lambda>k. fmupd k x" and act' = "\<lambda>k. fmupd k v",
      OF act ok p str_split_nonempty c, of path "''.''"]
  have "h' = walk_loop (\<lambda>k. fmupd k x) h1 new r (str_split path ''.'')" and "r' = Some new"
    using run False c by (auto simp: set_field_h_def)
  with w False show ?thesis by (simp add: SetField_Payload walk_path_set)
qed

lemma path_exists_h_rep:
  "rep_entries h (entries h r) m \<Longrightarrow> path_exists_h h r ks \<longleftrightarrow> path_exists (Some m) ks"
proof (induction h r ks arbitrary: m rule: path_exists_h.induct)
  case (1 h r)
  then show ?case by simp
next
  case (2 h r k ks)
  note rel = 2(2) [unfolded rep_entries_def, rule_format, of k]
  show ?case
  proof (cases "fmlookup (entries h r) k")
    case None
    with rel have "fmlookup m k = None" by simp
    with None show ?thesis by (simp add: path_exists.simps(2))
  next
    case (Some x)
    with rel obtain y where y: "fmlookup m k = Some y" and xy: "rep h x y"
      by (cases "fmlookup m k") simp_all
    from xy show ?thesis
    proof cases
      case nil_map
      then show ?thesis using Some y
        by (cases ks) (simp_all add: path_exists.simps(2) entries_def)
    next
      case (map a f n)
      have "rep_entries h (entries h (Some a)) n"
        using xy map by (auto simp: rep_map_entries entries_def map_at_def)
      with 2(1) [OF Some _ map(1)] map Some y show ?thesis
        by (auto simp: path_exists.simps(2))
    qed (use Some y in \<open>auto simp: path_exists.simps(2) as_map_def split: gval.split\<close>)
  qed
qed

lemma remove_field_h_spec:
  assumes ok: "store_ok h" and p: "rep h (HMap r) (VMap (Payload e))"
    and run: "remove_field_h h r path = (h', r')"
  shows "store_ok h' \<and> extends h h' \<and> rep h' (HMap r') (VMap (Payload (RemoveField e path)))"
proof -
  let ?keys = "str_split path ''.''"
  note r = rep_payload_entries [OF p]
  have px: "path_exists_h h r ?keys = path_exists (Some (map_make (Payload e))) ?keys"
    by (rule path_exists_h_rep [OF r(1)])
  show ?thesis
  proof (cases "path = [] \<or> r = None \<or> \<not> path_exists_h h r ?keys")
    case True
    with ok p run r(2) px show ?thesis
      by (cases "Payload e")
         (auto simp: remove_field_h_def RemoveField_Payload Let_def split: if_splits)
  next
    case False
    obtain h1 new where c: "clone_or_make h r = (h1, new)" by fastforce
    note w = clone_then_walk [where act = fmdrop and act' = fmdrop,
        OF rep_entries_drop ok p str_split_nonempty c, of path "''.''"]
    have "h' = walk_loop fmdrop h1 new r ?keys" and "r' = Some new"
      using run False c by (auto simp: remove_field_h_def Let_def)
    with w False px r(2) show ?thesis
      by (cases "Payload e") (auto simp: RemoveField_Payload walk_path_remove)
  qed
qed

section \<open>Properties\<close>

text \<open>C3: run on a store of shared maps, \<open>SetField\<close> writes to no map that existed before: every
  reference of the caller, the payload of the given event among them, still stands for the value it
  stood for; the payload it returns stands for the payload of \<open>SetField\<close> on values.\<close>

theorem SetField_on_store:
  assumes "store_ok h" and "rep h (HMap r) (VMap (Payload e))" and "rep h x v"
    and "set_field_h h r path x = (h', r')"
  shows "rep h' (HMap r') (VMap (Payload (SetField e path v))) \<and>
    rep h' (HMap r) (VMap (Payload e)) \<and>
    (\<forall>a. objs h a \<noteq> None \<longrightarrow> objs h' a = objs h a) \<and> store_ok h'"
  using set_field_h_spec [OF assms] rep_extends [OF assms(2)] by (auto simp: extends_def)

definition sample_store :: store where
  "sample_store =
     \<lparr>objs = (\<lambda>a. if a = 0 then Some (OMap (fmupd ''a'' (HLeaf (VStr ''x'')) fmempty)) else None),
      next_addr = 1\<rparr>"

lemma sample_store_rep:
  "store_ok sample_store"
  "rep sample_store (HMap (Some 0)) (VMap (Payload (sample_event (fmupd ''a'' (VStr ''x'') fmempty))))"
  by (simp_all add: store_ok_def sample_store_def sample_event_def rep_map_entries rep_entries_def
      rep.intros)

theorem SetField_on_store_witness:
  "rep (fst (set_field_h sample_store (Some 0) ''a'' (HLeaf VNil))) (HMap (Some 0))
     (VMap (Some (fmupd ''a'' (VStr ''x'') fmempty)))"
  using SetField_on_store [OF sample_store_rep rep.leaf [of VNil] surjective_pairing, of "''a''"]
  by (simp add: sample_event_def)

text \<open>The same for \<open>RemoveField\<close>.\<close>

theorem RemoveField_on_store:
  assumes "store_ok h" and "rep h (HMap r) (VMap (Payload e))"
    and "remove_field_h h r path = (h', r')"
  shows "rep h' (HMap r') (VMap (Payload (RemoveField e path))) \<and>
    rep h' (HMap r) (VMap (Payload e)) \<and>
    (\<forall>a. objs h a \<noteq> None \<longrightarrow> objs h' a = objs h a) \<and> store_ok h'"
  using remove_field_h_spec [OF assms] rep_extends [OF assms(2)] by (auto simp: extends_def)

theorem RemoveField_on_store_witness:
  "rep (fst (remove_field_h sample_store (Some 0) ''a'')) (HMap (Some 0))
     (VMap (Some (fmupd ''a'' (VStr ''x'') fmempty)))"
  using RemoveField_on_store [OF sample_store_rep surjective_pairing, of "''a''"]
  by (simp add: sample_event_def)

end
