(* ===== verification/Builder.thy ===== *)
theory Builder
  imports Event_Heap
begin

text \<open>
  \<open>pkg/event/builder.go\<close>: the builder of events, which writes into the maps it holds and copies them when
  the event is built. Maps are references into the store of the theory \<open>Event_Heap\<close>; keys and headers, which
  the code copies wherever it takes or gives them, are values.
\<close>

section \<open>The builder\<close>

record builder =
  BuildPayload :: "addr option"
  BuildMetadata :: metadata
  BuildTime :: gtime
  BuildHeaders :: "(string, string) fmap option"

definition NewBuilder :: "gtime \<Rightarrow> store \<Rightarrow> store \<times> builder" where
  "NewBuilder now h =
     (case alloc h (OMap fmempty) of (h, a) \<Rightarrow>
        (h, \<lparr>BuildPayload = Some a, BuildMetadata = \<lparr>Topic = [], Partition = 0, Offset = 0, Key = None\<rparr>,
             BuildTime = now, BuildHeaders = Some fmempty\<rparr>))"

definition WithPayload :: "addr option \<Rightarrow> store \<Rightarrow> builder \<Rightarrow> store \<times> builder" where
  "WithPayload payload h b =
     (case alloc h (OMap (entries h payload)) of (h, a) \<Rightarrow> (h, b\<lparr>BuildPayload := Some a\<rparr>))"

text \<open>Empty segments of a path are left out.\<close>

definition splitPath :: "string \<Rightarrow> string list" where
  "splitPath path = (if path = [] then [] else filter (\<lambda>p. p \<noteq> []) (str_split path ''.''))"

definition map_assign :: "store \<Rightarrow> addr option \<Rightarrow> string \<Rightarrow> hval \<Rightarrow> gerror + store" where
  "map_assign h r k v =
     (case r of
        None \<Rightarrow> Inl (ErrPanic ''assignment to entry in nil map'')
      | Some a \<Rightarrow> Inr (write_obj h a (OMap (fmupd k v (map_at h a)))))"

text \<open>The loop of \<open>WithField\<close>: a map that is nil passes the type assertion, so it is not replaced.\<close>

fun with_field_loop :: "store \<Rightarrow> addr option \<Rightarrow> string list \<Rightarrow> hval \<Rightarrow> gerror + store" where
  "with_field_loop h cur [] v = Inr h"
| "with_field_loop h cur [k] v = map_assign h cur k v"
| "with_field_loop h cur (k # k' # ks) v =
     (case fmlookup (entries h cur) k of
        Some (HMap nxt) \<Rightarrow> with_field_loop h nxt (k' # ks) v
      | _ \<Rightarrow>
          (case alloc h (OMap fmempty) of (h, nxt) \<Rightarrow>
             bind_res (map_assign h cur k (HMap (Some nxt))) (\<lambda>h. with_field_loop h (Some nxt) (k' # ks) v)))"

definition WithField :: "string \<Rightarrow> hval \<Rightarrow> store \<Rightarrow> builder \<Rightarrow> gerror + store \<times> builder" where
  "WithField path v h b =
     bind_res (with_field_loop h (BuildPayload b) (splitPath path) v) (\<lambda>h. Inr (h, b))"

definition WithMetadata :: "metadata \<Rightarrow> builder \<Rightarrow> builder" where
  "WithMetadata m b = b\<lparr>BuildMetadata := m\<rparr>"

definition WithTopic :: "string \<Rightarrow> builder \<Rightarrow> builder" where
  "WithTopic t b = b\<lparr>BuildMetadata := (BuildMetadata b)\<lparr>Topic := t\<rparr>\<rparr>"

definition WithPartition :: "32 word \<Rightarrow> builder \<Rightarrow> builder" where
  "WithPartition p b = b\<lparr>BuildMetadata := (BuildMetadata b)\<lparr>Partition := p\<rparr>\<rparr>"

definition WithOffset :: "64 word \<Rightarrow> builder \<Rightarrow> builder" where
  "WithOffset n b = b\<lparr>BuildMetadata := (BuildMetadata b)\<lparr>Offset := n\<rparr>\<rparr>"

text \<open>A nil key becomes an empty one.\<close>

definition WithKey :: "string option \<Rightarrow> builder \<Rightarrow> builder" where
  "WithKey key b = b\<lparr>BuildMetadata := (BuildMetadata b)\<lparr>Key := Some (case key of None \<Rightarrow> [] | Some k \<Rightarrow> k)\<rparr>\<rparr>"

definition WithHeaders :: "(string, string) fmap option \<Rightarrow> builder \<Rightarrow> builder" where
  "WithHeaders headers b = b\<lparr>BuildHeaders := Some (case headers of None \<Rightarrow> fmempty | Some m \<Rightarrow> m)\<rparr>"

definition WithHeader :: "string \<Rightarrow> string \<Rightarrow> builder \<Rightarrow> gerror + builder" where
  "WithHeader k v b =
     (case BuildHeaders b of
        None \<Rightarrow> Inl (ErrPanic ''assignment to entry in nil map'')
      | Some m \<Rightarrow> Inr (b\<lparr>BuildHeaders := Some (fmupd k v m)\<rparr>))"

definition WithTimestamp :: "gtime \<Rightarrow> builder \<Rightarrow> builder" where
  "WithTimestamp t b = b\<lparr>BuildTime := t\<rparr>"

section \<open>Building the event\<close>

text \<open>The zero \<open>time.Time\<close>, the first of January of the year 1\<close>

definition zero_time :: gtime where
  "zero_time = - 62135596800 * 10 ^ 9"

text \<open>
  \<open>deepCopyReflect\<close> of a value that is not a map or slice of interfaces. A \<open>time.Time\<close> is a struct without
  exported fields, so its copy is the zero time. \<open>iface t\<close> says that the elements of the slice or array type
  \<open>t\<close> are interfaces, which are returned as they are, and \<open>other\<close> is the copy of the values of other types.
\<close>

primrec reflect_copy :: "(string \<Rightarrow> bool) \<Rightarrow> (gval \<Rightarrow> gval) \<Rightarrow> gval \<Rightarrow> gval" where
  "reflect_copy iface other VNil = VNil"
| "reflect_copy iface other (VBool b) = VBool b"
| "reflect_copy iface other (VStr s) = VStr s"
| "reflect_copy iface other (VInt n) = VInt n"
| "reflect_copy iface other (VInt8 n) = VInt8 n"
| "reflect_copy iface other (VInt16 n) = VInt16 n"
| "reflect_copy iface other (VInt32 n) = VInt32 n"
| "reflect_copy iface other (VInt64 n) = VInt64 n"
| "reflect_copy iface other (VUint n) = VUint n"
| "reflect_copy iface other (VUint8 n) = VUint8 n"
| "reflect_copy iface other (VUint16 n) = VUint16 n"
| "reflect_copy iface other (VUint32 n) = VUint32 n"
| "reflect_copy iface other (VUint64 n) = VUint64 n"
| "reflect_copy iface other (VFloat32 x) = VFloat32 x"
| "reflect_copy iface other (VFloat64 x) = VFloat64 x"
| "reflect_copy iface other (VTime t) = VTime zero_time"
| "reflect_copy iface other (VFloatPtr x) = VFloatPtr x"
| "reflect_copy iface other (VList xs) = VList xs"
| "reflect_copy iface other (VTyped t xs) =
     VTyped t (if iface t then xs else map_option (map (reflect_copy iface other)) xs)"
| "reflect_copy iface other (VArray t xs) = VArray t (if iface t then xs else map (reflect_copy iface other) xs)"
| "reflect_copy iface other (VMap m) = VMap m"
| "reflect_copy iface other (VOther t i) = other (VOther t i)"

definition list_at :: "store \<Rightarrow> addr \<Rightarrow> hval list" where
  "list_at h a = (case objs h a of Some (OList xs) \<Rightarrow> xs | _ \<Rightarrow> [])"

text \<open>
  \<open>deepCopyValue\<close> in the store: the new map and the new slice get the elements the old ones have, for a
  value taken out of them is of kind \<open>Interface\<close> and is returned as it is.
\<close>

definition deepCopyValue :: "(gval \<Rightarrow> gval) \<Rightarrow> store \<Rightarrow> hval \<Rightarrow> store \<times> hval" where
  "deepCopyValue copy h x =
     (case x of
        HLeaf v \<Rightarrow> (h, HLeaf (copy v))
      | HMap None \<Rightarrow> (h, x)
      | HMap (Some a) \<Rightarrow> (case alloc h (OMap (map_at h a)) of (h, b) \<Rightarrow> (h, HMap (Some b)))
      | HList None \<Rightarrow> (h, x)
      | HList (Some a) \<Rightarrow> (case alloc h (OList (list_at h a)) of (h, b) \<Rightarrow> (h, HList (Some b))))"

fun copy_entries :: "(gval \<Rightarrow> gval) \<Rightarrow> (string, hval) fmap \<Rightarrow> addr \<Rightarrow> string list \<Rightarrow> store \<Rightarrow> store" where
  "copy_entries copy src dst [] h = h"
| "copy_entries copy src dst (k # ks) h =
     (case fmlookup src k of
        None \<Rightarrow> copy_entries copy src dst ks h
      | Some x \<Rightarrow>
          (case deepCopyValue copy h x of (h, y) \<Rightarrow>
             copy_entries copy src dst ks (write_obj h dst (OMap (fmupd k y (map_at h dst))))))"

text \<open>The event as it is in the store; \<open>ord\<close> is the order of the loop over the payload.\<close>

definition Build :: "(gval \<Rightarrow> gval) \<Rightarrow> iter \<Rightarrow> store \<Rightarrow> builder \<Rightarrow> store \<times> builder" where
  "Build copy ord h b =
     (case BuildPayload b of
        None \<Rightarrow> (h, b)
      | Some a \<Rightarrow>
          (case alloc h (OMap fmempty) of (h1, out) \<Rightarrow>
             (copy_entries copy (map_at h a) out (ord (fmdom (map_at h a))) h1, b\<lparr>BuildPayload := Some out\<rparr>)))"

section \<open>What \<open>Build\<close> copies\<close>

text \<open>The copy \<open>y\<close> of \<open>x\<close>: a reference to a new object with the same elements, or the copied data\<close>

definition copied :: "(gval \<Rightarrow> gval) \<Rightarrow> store \<Rightarrow> store \<Rightarrow> hval \<Rightarrow> hval \<Rightarrow> bool" where
  "copied copy h h' x y \<longleftrightarrow>
     (case x of
        HLeaf v \<Rightarrow> y = HLeaf (copy v)
      | HMap None \<Rightarrow> y = HMap None
      | HMap (Some a) \<Rightarrow> (\<exists>b. y = HMap (Some b) \<and> next_addr h \<le> b \<and> objs h' b = Some (OMap (map_at h a)))
      | HList None \<Rightarrow> y = HList None
      | HList (Some a) \<Rightarrow> (\<exists>b. y = HList (Some b) \<and> next_addr h \<le> b \<and> objs h' b = Some (OList (list_at h a))))"

definition allocated :: "store \<Rightarrow> hval \<Rightarrow> bool" where
  "allocated h x \<longleftrightarrow> (case x of HMap (Some a) \<Rightarrow> a < next_addr h | HList (Some a) \<Rightarrow> a < next_addr h | _ \<Rightarrow> True)"

lemma map_at_cong: "objs h' a = objs h a \<Longrightarrow> map_at h' a = map_at h a"
  by (simp add: map_at_def)

lemma list_at_cong: "objs h' a = objs h a \<Longrightarrow> list_at h' a = list_at h a"
  by (simp add: list_at_def)

lemma copied_later:
  assumes "copied copy h h1 x y" and "\<And>b. next_addr h \<le> b \<Longrightarrow> objs h1 b \<noteq> None \<Longrightarrow> b \<noteq> d \<Longrightarrow> objs h2 b = objs h1 b" and "y \<noteq> HMap (Some d)" "y \<noteq> HList (Some d)"
  shows "copied copy h h2 x y"
  using assms by (auto simp: copied_def split: hval.splits option.splits)

lemma deepCopyValue_spec:
  assumes "deepCopyValue copy h1 x = (h2, y)" and "store_ok h1" and "next_addr h \<le> next_addr h1" and "allocated h x"
    and "\<And>b. b < next_addr h \<Longrightarrow> objs h1 b = objs h b"
  shows "store_ok h2" "next_addr h1 \<le> next_addr h2" "\<And>b. b < next_addr h1 \<Longrightarrow> objs h2 b = objs h1 b"
    "copied copy h h2 x y" "allocated h2 y" "y = HMap (Some d) \<or> y = HList (Some d) \<Longrightarrow> next_addr h1 \<le> d"
  using assms map_at_cong [of h1 _ h] list_at_cong [of h1 _ h]
  by (auto simp: deepCopyValue_def alloc_def store_ok_def copied_def allocated_def split: hval.splits option.splits)

lemma map_at_write [simp]: "map_at (write_obj h a (OMap f)) a = f"
  by (simp add: map_at_def write_obj_def)

lemma copy_entries_spec:
  assumes "store_ok h1" and "next_addr h \<le> dst" and "dst < next_addr h1"
    and "\<And>b. b < next_addr h \<Longrightarrow> objs h1 b = objs h b"
    and "\<And>k x. fmlookup src k = Some x \<Longrightarrow> allocated h x" and "distinct ks" and "set ks \<subseteq> fset (fmdom src)"
    and "copy_entries copy src dst ks h1 = h2"
  shows "store_ok h2 \<and> next_addr h1 \<le> next_addr h2 \<and> (\<forall>b < next_addr h1. b \<noteq> dst \<longrightarrow> objs h2 b = objs h1 b) \<and>
    (\<forall>k. if k \<in> set ks then rel_option (copied copy h h2) (fmlookup src k) (fmlookup (map_at h2 dst) k)
         else fmlookup (map_at h2 dst) k = fmlookup (map_at h1 dst) k)"
  using assms(1,3,4,6,7,8)
proof (induction ks arbitrary: h1)
  case Nil
  then show ?case by simp
next
  case (Cons k ks)
  obtain x where x: "fmlookup src k = Some x" using Cons.prems(5) by (auto simp: fmlookup_dom_iff)
  obtain h3 y where c: "deepCopyValue copy h1 x = (h3, y)" by fastforce
  have n: "next_addr h \<le> next_addr h1" using assms(2) Cons.prems(2) by simp
  note d = deepCopyValue_spec [OF c Cons.prems(1) n assms(5) [OF x] Cons.prems(3)]
  let ?h = "write_obj h3 dst (OMap (fmupd k y (map_at h3 dst)))"
  have pre: "store_ok ?h" "dst < next_addr ?h" "\<And>b. b < next_addr h \<Longrightarrow> objs ?h b = objs h b"
    using d(1-3) Cons.prems(2,3) assms(2) n by (auto simp: write_obj_def store_ok_def)
  have run: "copy_entries copy src dst ks ?h = h2" using Cons.prems(6) x c by simp
  from Cons.IH [OF pre _ _ run] Cons.prems(4,5)
  have ih: "store_ok h2" "next_addr ?h \<le> next_addr h2" "\<forall>b < next_addr ?h. b \<noteq> dst \<longrightarrow> objs h2 b = objs ?h b"
    "\<And>k. if k \<in> set ks then rel_option (copied copy h h2) (fmlookup src k) (fmlookup (map_at h2 dst) k)
       else fmlookup (map_at h2 dst) k = fmlookup (map_at ?h dst) k" by auto
  have new: "fmlookup (map_at h2 dst) k = Some y" using ih(4) [of k] Cons.prems(4) by simp
  have cp: "copied copy h h2 x y"
  proof (rule copied_later [OF d(4)])
    show "objs h2 b = objs h3 b" if "next_addr h \<le> b" "objs h3 b \<noteq> None" "b \<noteq> dst" for b
    proof -
      have "b < next_addr h3" using that(2) d(1) by (meson not_le store_ok_def)
      with ih(3) that(3) show ?thesis by (simp add: write_obj_def)
    qed
    show "y \<noteq> HMap (Some dst)" "y \<noteq> HList (Some dst)" using d(6) [of dst] Cons.prems(2) by auto
  qed
  have old: "fmlookup (map_at ?h dst) k' = fmlookup (map_at h1 dst) k'" if "k' \<noteq> k" for k'
    using that d(3) [of dst] Cons.prems(2) map_at_cong [of h3 dst h1] by simp
  have frame: "\<forall>b < next_addr h1. b \<noteq> dst \<longrightarrow> objs h2 b = objs h1 b"
    using ih(3) d(2,3) by (auto simp: write_obj_def)
  have all: "if k' \<in> set (k # ks) then rel_option (copied copy h h2) (fmlookup src k') (fmlookup (map_at h2 dst) k')
      else fmlookup (map_at h2 dst) k' = fmlookup (map_at h1 dst) k'" for k'
    using ih(4) [of k'] x new cp old Cons.prems(4) by (cases "k' = k") simp_all
  have "next_addr h1 \<le> next_addr h2" using ih(2) d(2) by (simp add: write_obj_def)
  with ih(1) frame all show ?case by blast
qed

section \<open>What \<open>WithField\<close> writes\<close>

text \<open>The maps the loop walks through before it makes new ones\<close>

fun trail :: "store \<Rightarrow> addr option \<Rightarrow> string list \<Rightarrow> addr list" where
  "trail h None ks = []"
| "trail h (Some a) [] = []"
| "trail h (Some a) [k] = [a]"
| "trail h (Some a) (k # k' # ks) =
     a # (case fmlookup (map_at h a) k of Some (HMap r) \<Rightarrow> trail h r (k' # ks) | _ \<Rightarrow> [])"

text \<open>The value at a path\<close>

fun fetch :: "store \<Rightarrow> addr option \<Rightarrow> string list \<Rightarrow> hval option" where
  "fetch h r [] = None"
| "fetch h r [k] = fmlookup (entries h r) k"
| "fetch h r (k # k' # ks) =
     (case fmlookup (entries h r) k of Some (HMap r') \<Rightarrow> fetch h r' (k' # ks) | _ \<Rightarrow> None)"

definition clear_trail :: "store \<Rightarrow> addr option \<Rightarrow> string list \<Rightarrow> bool" where
  "clear_trail h r ks \<longleftrightarrow> store_ok h \<and> distinct (trail h r ks) \<and> (\<forall>a \<in> set (trail h r ks). a < next_addr h)"

lemma entries_Some [simp]: "entries h (Some a) = map_at h a"
  by (simp add: entries_def)

lemma map_at_other: "b \<noteq> a \<Longrightarrow> map_at (write_obj h a x) b = map_at h b"
  by (simp add: map_at_def write_obj_def)

lemma with_field_step:
  assumes "with_field_loop h (Some a) (k # k' # ks) v = Inr h'" and "clear_trail h (Some a) (k # k' # ks)"
  shows "(\<exists>b. fmlookup (map_at h a) k = Some (HMap (Some b)) \<and> with_field_loop h (Some b) (k' # ks) v = Inr h' \<and>
      clear_trail h (Some b) (k' # ks) \<and> trail h (Some a) (k # k' # ks) = a # trail h (Some b) (k' # ks)) \<or>
    (\<exists>h1. with_field_loop h1 (Some (next_addr h)) (k' # ks) v = Inr h' \<and> clear_trail h1 (Some (next_addr h)) (k' # ks) \<and>
      trail h1 (Some (next_addr h)) (k' # ks) = [next_addr h] \<and> next_addr h1 = Suc (next_addr h) \<and>
      (\<forall>b < next_addr h. b \<noteq> a \<longrightarrow> objs h1 b = objs h b) \<and>
      map_at h1 a = fmupd k (HMap (Some (next_addr h))) (map_at h a) \<and> trail h (Some a) (k # k' # ks) = [a])"
proof (cases "\<exists>r. fmlookup (map_at h a) k = Some (HMap r)")
  case True
  then obtain r where r: "fmlookup (map_at h a) k = Some (HMap r)" by blast
  then have "with_field_loop h r (k' # ks) v = Inr h'" using assms(1) by simp
  moreover have "with_field_loop h None (k' # ks) v \<noteq> Inr h'"
    by (cases ks) (auto simp: map_assign_def entries_def alloc_def bind_res_def)
  ultimately obtain b where "r = Some b" by (cases r) auto
  with r assms show ?thesis by (auto simp: clear_trail_def)
next
  case False
  let ?n = "next_addr h"
  let ?h0 = "fst (alloc h (OMap fmempty))"
  let ?h1 = "write_obj ?h0 a (OMap (fmupd k (HMap (Some ?n)) (map_at ?h0 a)))"
  have a: "a < ?n" and ok: "store_ok h" using assms(2) by (auto simp: clear_trail_def)
  have m0: "map_at ?h0 a = map_at h a" using a by (simp add: map_at_def alloc_def)
  have t: "trail h (Some a) (k # k' # ks) = [a]" using False by (auto split: option.splits hval.splits)
  have "with_field_loop h (Some a) (k # k' # ks) v = with_field_loop ?h1 (Some ?n) (k' # ks) v"
    using False by (auto simp: alloc_def map_assign_def bind_res_def split: option.splits hval.splits)
  then have run: "with_field_loop ?h1 (Some ?n) (k' # ks) v = Inr h'" using assms(1) by simp
  have "map_at ?h1 ?n = fmempty" using a by (simp add: map_at_other) (simp add: map_at_def alloc_def)
  then have t1: "trail ?h1 (Some ?n) (k' # ks) = [?n]" by (cases ks) simp_all
  have "store_ok ?h1" using ok a by (simp add: store_ok_def alloc_def write_obj_def)
  with t1 have "clear_trail ?h1 (Some ?n) (k' # ks)" by (simp add: clear_trail_def alloc_def write_obj_def)
  moreover have "next_addr ?h1 = Suc ?n" "\<forall>b < ?n. b \<noteq> a \<longrightarrow> objs ?h1 b = objs h b"
    by (simp_all add: alloc_def write_obj_def)
  ultimately show ?thesis using run t t1 m0 by (intro disjI2 exI [of _ ?h1]) simp
qed

lemma with_field_frame:
  "with_field_loop h (Some a) ks v = Inr h' \<Longrightarrow> clear_trail h (Some a) ks \<Longrightarrow>
   (\<forall>b < next_addr h. b \<notin> set (trail h (Some a) ks) \<longrightarrow> objs h' b = objs h b)"
proof (induction ks arbitrary: h a)
  case (Cons k ks)
  show ?case
  proof (cases ks)
    case Nil
    with Cons.prems show ?thesis by (auto simp: map_assign_def write_obj_def)
  next
    case (Cons k' ks')
    from with_field_step [OF Cons.prems [unfolded Cons]] show ?thesis
    proof (elim disjE exE conjE)
      fix b
      assume "with_field_loop h (Some b) (k' # ks') v = Inr h'" "clear_trail h (Some b) (k' # ks')"
        "trail h (Some a) (k # k' # ks') = a # trail h (Some b) (k' # ks')"
      with Cons.IH [of h b] Cons show ?thesis by auto
    next
      fix h1
      assume "with_field_loop h1 (Some (next_addr h)) (k' # ks') v = Inr h'" "clear_trail h1 (Some (next_addr h)) (k' # ks')"
        "trail h1 (Some (next_addr h)) (k' # ks') = [next_addr h]" "next_addr h1 = Suc (next_addr h)"
        "\<forall>b < next_addr h. b \<noteq> a \<longrightarrow> objs h1 b = objs h b" "trail h (Some a) (k # k' # ks') = [a]"
      with Cons.IH [of h1 "next_addr h"] Cons show ?thesis by auto
    qed
  qed
qed auto

lemma with_field_fetch:
  "with_field_loop h (Some a) ks v = Inr h' \<Longrightarrow> clear_trail h (Some a) ks \<Longrightarrow> ks \<noteq> [] \<Longrightarrow> fetch h' (Some a) ks = Some v"
proof (induction ks arbitrary: h a)
  case (Cons k ks)
  show ?case
  proof (cases ks)
    case Nil
    with Cons.prems show ?thesis by (auto simp: map_assign_def)
  next
    case (Cons k' ks')
    from with_field_step [OF Cons.prems(1,2) [unfolded Cons]] show ?thesis
    proof (elim disjE exE conjE)
      fix b
      assume b: "fmlookup (map_at h a) k = Some (HMap (Some b))" "with_field_loop h (Some b) (k' # ks') v = Inr h'"
        "clear_trail h (Some b) (k' # ks')" "trail h (Some a) (k # k' # ks') = a # trail h (Some b) (k' # ks')"
      then have "objs h' a = objs h a"
        using with_field_frame [OF b(2,3)] Cons.prems(2) Cons by (auto simp: clear_trail_def)
      then have "map_at h' a = map_at h a" by (rule map_at_cong)
      with b Cons.IH [of h b] Cons show ?thesis by simp
    next
      fix h1
      assume n: "with_field_loop h1 (Some (next_addr h)) (k' # ks') v = Inr h'" "clear_trail h1 (Some (next_addr h)) (k' # ks')"
        "trail h1 (Some (next_addr h)) (k' # ks') = [next_addr h]" "next_addr h1 = Suc (next_addr h)"
        "map_at h1 a = fmupd k (HMap (Some (next_addr h))) (map_at h a)" "trail h (Some a) (k # k' # ks') = [a]"
      have "a < next_addr h" using Cons.prems(2) n(6) Cons by (simp add: clear_trail_def)
      then have "objs h' a = objs h1 a" using with_field_frame [OF n(1,2)] n(3,4) by auto
      then have "map_at h' a = map_at h1 a" by (rule map_at_cong)
      with n Cons.IH [of h1 "next_addr h"] Cons show ?thesis by simp
    qed
  qed
qed simp

lemma build_spec:
  assumes "store_ok h" and "iter_ok ord" and "BuildPayload b = Some a" and "a < next_addr h"
    and "\<forall>k x. fmlookup (map_at h a) k = Some x \<longrightarrow> allocated h x" and "Build copy ord h b = (h', ev)"
  shows "BuildPayload ev = Some (next_addr h) \<and> store_ok h' \<and> next_addr h < next_addr h' \<and>
    (\<forall>c < next_addr h. objs h' c = objs h c) \<and>
    (\<forall>k. rel_option (copied copy h h') (fmlookup (map_at h a) k) (fmlookup (map_at h' (next_addr h)) k)) \<and>
    ev = b\<lparr>BuildPayload := Some (next_addr h)\<rparr>"
proof -
  obtain h1 where h1: "alloc h (OMap fmempty) = (h1, next_addr h)" by (simp add: alloc_def)
  have run: "copy_entries copy (map_at h a) (next_addr h) (ord (fmdom (map_at h a))) h1 = h'"
      and ev: "ev = b\<lparr>BuildPayload := Some (next_addr h)\<rparr>"
    using assms(3,6) h1 by (simp_all add: Build_def)
  have pre: "store_ok h1" "next_addr h < next_addr h1" "\<And>c. c < next_addr h \<Longrightarrow> objs h1 c = objs h c"
      "map_at h1 (next_addr h) = fmempty"
    using h1 assms(1) by (auto simp: alloc_def store_ok_def map_at_def)
  note ord = iter_okD [OF assms(2), of "fmdom (map_at h a)"]
  from copy_entries_spec [OF pre(1) order_refl pre(2) pre(3) _ ord(1) _ run] assms(5) ord(2)
  have cp: "store_ok h'" "next_addr h1 \<le> next_addr h'" "\<forall>c < next_addr h1. c \<noteq> next_addr h \<longrightarrow> objs h' c = objs h1 c"
    "\<And>k. if k \<in> fset (fmdom (map_at h a)) then rel_option (copied copy h h') (fmlookup (map_at h a) k) (fmlookup (map_at h' (next_addr h)) k)
       else fmlookup (map_at h' (next_addr h)) k = None" using pre(4) by auto
  have "rel_option (copied copy h h') (fmlookup (map_at h a) k) (fmlookup (map_at h' (next_addr h)) k)" for k
    using cp(4) [of k] by (cases "k |\<in>| fmdom (map_at h a)") (simp_all add: fmdom_notD)
  moreover have "\<forall>c < next_addr h. objs h' c = objs h c" using cp(3) pre(2,3) by auto
  ultimately show ?thesis using cp(1,2) pre(2) ev by auto
qed

section \<open>Properties\<close>

text \<open>C40: \<open>Build\<close> leaves every map and slice of the builder as it was and makes a new payload with the same keys. The
  copy is one level deep: a map or slice directly in the payload is replaced by a new one with the very
  elements of the old one, so the maps and slices inside of it are shared with the builder; other data is
  copied, a time to the zero time.\<close>

theorem build_copies:
  assumes "store_ok h" and "iter_ok ord" and "BuildPayload b = Some a" and "a < next_addr h"
    and "\<forall>k x. fmlookup (map_at h a) k = Some x \<longrightarrow> allocated h x" and "Build (reflect_copy iface other) ord h b = (h', ev)"
  shows "(\<forall>c < next_addr h. objs h' c = objs h c) \<and> ev = b\<lparr>BuildPayload := Some (next_addr h)\<rparr> \<and>
    fmdom (map_at h' (next_addr h)) = fmdom (map_at h a) \<and>
    (\<forall>k x. fmlookup (map_at h a) k = Some x \<longrightarrow>
      (\<exists>y. fmlookup (map_at h' (next_addr h)) k = Some y \<and>
        (\<forall>m. x = HMap (Some m) \<longrightarrow> (\<exists>m'. y = HMap (Some m') \<and> next_addr h \<le> m' \<and> map_at h' m' = map_at h m)) \<and>
        (\<forall>l. x = HList (Some l) \<longrightarrow> (\<exists>l'. y = HList (Some l') \<and> next_addr h \<le> l' \<and> list_at h' l' = list_at h l)) \<and>
        (\<forall>v. x = HLeaf v \<longrightarrow> y = HLeaf (reflect_copy iface other v)) \<and>
        (\<forall>t. x = HLeaf (VTime t) \<longrightarrow> y = HLeaf (VTime zero_time)) \<and>
        (x = HMap None \<or> x = HList None \<longrightarrow> y = x)))"
proof -
  note b = build_spec [OF assms]
  let ?rel = "copied (reflect_copy iface other) h h'" and ?new = "map_at h' (next_addr h)"
  let ?like = "\<lambda>x y. (\<forall>m. x = HMap (Some m) \<longrightarrow> (\<exists>m'. y = HMap (Some m') \<and> next_addr h \<le> m' \<and> map_at h' m' = map_at h m)) \<and>
        (\<forall>l. x = HList (Some l) \<longrightarrow> (\<exists>l'. y = HList (Some l') \<and> next_addr h \<le> l' \<and> list_at h' l' = list_at h l)) \<and>
        (\<forall>v. x = HLeaf v \<longrightarrow> y = HLeaf (reflect_copy iface other v)) \<and>
        (\<forall>t. x = HLeaf (VTime t) \<longrightarrow> y = HLeaf (VTime zero_time)) \<and> (x = HMap None \<or> x = HList None \<longrightarrow> y = x)"
  have r: "rel_option ?rel (fmlookup (map_at h a) k) (fmlookup ?new k)" for k using b by blast
  have like: "?like x y" if "?rel x y" for x y
    using that by (auto simp: copied_def map_at_def list_at_def)
  have entries: "\<forall>k x. fmlookup (map_at h a) k = Some x \<longrightarrow> (\<exists>y. fmlookup ?new k = Some y \<and> ?like x y)"
  proof (intro allI impI)
    fix k x
    assume "fmlookup (map_at h a) k = Some x"
    with r [of k] obtain y where y: "fmlookup ?new k = Some y" "?rel x y" by (cases "fmlookup ?new k") auto
    from conjI [OF y(1) like [OF y(2)]] show "\<exists>y. fmlookup ?new k = Some y \<and> ?like x y" ..
  qed
  have "fmdom (map_at h a) = fmdom ?new" by (rule rel_option_dom [of ?rel]) (simp add: r)
  with b entries show ?thesis by (intro conjI) simp_all
qed

text \<open>After \<open>WithField\<close> the path leads to the value, whatever was there before, provided the maps on the path
  are different ones.\<close>

theorem with_field_sets:
  assumes "WithField path v h b = Inr (h', b')" and "BuildPayload b = Some a" and "splitPath path \<noteq> []"
    and "clear_trail h (Some a) (splitPath path)"
  shows "b' = b \<and> fetch h' (Some a) (splitPath path) = Some v"
  using with_field_fetch assms by (auto simp: WithField_def bind_res_def split: sum.splits)

text \<open>A map two levels below the payload is shared between the builder and the event it built: a field set in the
  builder afterwards changes the event.\<close>

theorem build_shares_below:
  assumes "store_ok h" and "iter_ok ord" and "BuildPayload b = Some a"
    and "\<forall>k x. fmlookup (map_at h a) k = Some x \<longrightarrow> allocated h x"
    and "fmlookup (map_at h a) k1 = Some (HMap (Some m1))" and "fmlookup (map_at h m1) k2 = Some (HMap (Some m2))"
    and "distinct [a, m1, m2]" and "a < next_addr h" and "m2 < next_addr h"
    and "Build copy ord h b = (h1, ev)"
    and "splitPath path = [k1, k2, k3]" and "WithField path v h1 b = Inr (h2, b')"
  shows "fetch h2 (BuildPayload ev) (splitPath path) = Some v"
proof -
  note built = build_spec [OF assms(1,2,3,8,4,10)]
  have "allocated h (HMap (Some m1))" using assms(4,5) by blast
  then have m1: "m1 < next_addr h" by (simp add: allocated_def)
  have same: "\<And>c. c < next_addr h \<Longrightarrow> map_at h1 c = map_at h c" using built by (intro map_at_cong) blast
  have "rel_option (copied copy h h1) (fmlookup (map_at h a) k1) (fmlookup (map_at h1 (next_addr h)) k1)" using built by blast
  then obtain m where m: "fmlookup (map_at h1 (next_addr h)) k1 = Some (HMap (Some m))" "next_addr h \<le> m"
      "objs h1 m = Some (OMap (map_at h m1))"
    using assms(5) by (cases "fmlookup (map_at h1 (next_addr h)) k1") (auto simp: copied_def)
  have t: "trail h1 (Some a) [k1, k2, k3] = [a, m1, m2]" using assms(5,6,8) m1 same by simp
  have clear: "clear_trail h1 (Some a) [k1, k2, k3]"
    using built t assms(7-9) m1 by (auto simp: clear_trail_def)
  have run: "with_field_loop h1 (Some a) [k1, k2, k3] v = Inr h2"
    using assms(3,11,12) by (auto simp: WithField_def bind_res_def split: sum.splits)
  have mh: "m < next_addr h1" using m(3) built by (metis not_le option.distinct(1) store_ok_def)
  have keep: "map_at h2 c = map_at h1 c" if "next_addr h \<le> c" "c < next_addr h1" for c
  proof -
    have "c \<notin> set (trail h1 (Some a) [k1, k2, k3])" unfolding t using that(1) m1 assms(8,9) by auto
    with with_field_frame [OF run clear] that(2) show ?thesis by (intro map_at_cong) blast
  qed
  have "fetch h2 (Some a) [k1, k2, k3] = Some v" using with_field_fetch [OF run clear] by simp
  moreover have "map_at h2 a = map_at h1 a \<and> map_at h2 m1 = map_at h1 m1"
  proof -
    have "h2 = write_obj h1 m2 (OMap (fmupd k3 v (map_at h1 m2)))"
      using run assms(5,6,8) m1 same by (simp add: map_assign_def)
    with assms(7) show ?thesis by (simp add: map_at_other)
  qed
  ultimately have "fmlookup (map_at h2 m2) k3 = Some v" using assms(5,6,8) m1 same by simp
  moreover have "map_at h1 m = map_at h m1" using m(3) by (simp add: map_at_def)
  ultimately show ?thesis
    using built m keep [of "next_addr h"] keep [of m] mh assms(6,11) by simp
qed

section \<open>Samples\<close>

text \<open>The payload \<open>{"a": {"b": {"c": "x"}}}\<close>\<close>

definition nested_store :: store where
  "nested_store =
     \<lparr>objs = (\<lambda>a. if a = 0 then Some (OMap (fmupd ''a'' (HMap (Some 1)) fmempty))
        else if a = 1 then Some (OMap (fmupd ''b'' (HMap (Some 2)) fmempty))
        else if a = 2 then Some (OMap (fmupd ''c'' (HLeaf (VStr ''x'')) fmempty)) else None),
      next_addr = 3\<rparr>"

definition sample_builder :: builder where
  "sample_builder =
     \<lparr>BuildPayload = Some 0, BuildMetadata = \<lparr>Topic = [], Partition = 0, Offset = 0, Key = None\<rparr>, BuildTime = 0, BuildHeaders = Some fmempty\<rparr>"

lemma nested_store_ok:
  "store_ok nested_store" "map_at nested_store 0 = fmupd ''a'' (HMap (Some 1)) fmempty"
  "map_at nested_store 1 = fmupd ''b'' (HMap (Some 2)) fmempty" "map_at nested_store 2 = fmupd ''c'' (HLeaf (VStr ''x'')) fmempty"
  "next_addr nested_store = 3" "\<forall>k x. fmlookup (map_at nested_store 0) k = Some x \<longrightarrow> allocated nested_store x"
  by (auto simp: store_ok_def nested_store_def map_at_def allocated_def)

lemma sample_path: "splitPath ''a..b.c'' = [''a'', ''b'', ''c'']" "splitPath ''a..b'' = [''a'', ''b'']"
  by code_simp+

theorem build_copies_witness:
  "\<exists>h' ev. Build (reflect_copy (\<lambda>t. False) (\<lambda>v. v)) sorted_keys nested_store sample_builder = (h', ev) \<and>
    fmdom (map_at h' 3) = {|''a''|}"
proof -
  obtain h' ev where run: "Build (reflect_copy (\<lambda>t. False) (\<lambda>v. v)) sorted_keys nested_store sample_builder = (h', ev)" by fastforce
  from build_copies [OF nested_store_ok(1) iter_ok_sorted _ _ _ run, of 0] run nested_store_ok(2,5,6)
  show ?thesis by (auto simp: sample_builder_def)
qed

theorem with_field_sets_witness:
  "\<exists>h'. WithField ''a..b'' (HLeaf VNil) nested_store sample_builder = Inr (h', sample_builder) \<and>
    fetch h' (Some 0) [''a'', ''b''] = Some (HLeaf VNil)"
proof -
  have clear: "clear_trail nested_store (Some 0) (splitPath ''a..b'')"
    using nested_store_ok by (simp add: clear_trail_def sample_path)
  obtain h' where run: "WithField ''a..b'' (HLeaf VNil) nested_store sample_builder = Inr (h', sample_builder)"
    using nested_store_ok by (auto simp: WithField_def sample_path sample_builder_def bind_res_def map_assign_def)
  from with_field_sets [OF run _ _ clear] run show ?thesis by (simp add: sample_path sample_builder_def)
qed

theorem build_shares_below_witness:
  "\<exists>h1 ev h2. Build (\<lambda>v. v) sorted_keys nested_store sample_builder = (h1, ev) \<and>
    WithField ''a..b.c'' (HLeaf (VStr ''y'')) h1 sample_builder = Inr (h2, sample_builder) \<and>
    fetch h2 (BuildPayload ev) [''a'', ''b'', ''c''] = Some (HLeaf (VStr ''y''))"
proof -
  obtain h1 ev where run: "Build (\<lambda>v. v) sorted_keys nested_store sample_builder = (h1, ev)" by fastforce
  have p: "BuildPayload sample_builder = Some 0" by (simp add: sample_builder_def)
  have "0 < next_addr nested_store" by (simp add: nested_store_ok)
  note b = build_spec [OF nested_store_ok(1) iter_ok_sorted p this nested_store_ok(6) run]
  have same: "map_at h1 0 = map_at nested_store 0" "map_at h1 1 = map_at nested_store 1" "map_at h1 2 = map_at nested_store 2"
    using b by (intro map_at_cong; simp add: nested_store_ok(5))+
  obtain h2 where field: "WithField ''a..b.c'' (HLeaf (VStr ''y'')) h1 sample_builder = Inr (h2, sample_builder)"
    using same nested_store_ok by (auto simp: WithField_def sample_path p bind_res_def map_assign_def)
  from build_shares_below [OF nested_store_ok(1) iter_ok_sorted p nested_store_ok(6) _ _ _ _ _ run sample_path(1) field, of 1 2]
    run field nested_store_ok show ?thesis by (auto simp: sample_path)
qed

end
