(* ===== verification/Go_Utf8.thy ===== *)
theory Go_Utf8
  imports Go_Value
begin

text \<open>
  UTF-8 as \<open>unicode/utf8\<close> reads and writes it: a Go string is a byte string, a rune is a code
  point. A byte that starts no valid encoding decodes to U+FFFD with width 1, so \<open>[]rune(s)\<close> is
  total, and \<open>string(runes)\<close> writes U+FFFD for what is not a valid code point.
\<close>

definition byte :: "char \<Rightarrow> nat" where
  "byte c = of_char c"

definition rune_error :: nat where
  "rune_error = 0xFFFD"

definition cont_byte :: "nat \<Rightarrow> nat \<Rightarrow> nat \<Rightarrow> bool" where
  "cont_byte lo hi b = (lo \<le> b \<and> b \<le> hi)"

text \<open>The bytes of an encoding of two, three and four bytes, for the bytes at the front of a string\<close>

definition two_bytes :: "nat list \<Rightarrow> bool" where
  "two_bytes b = (length b \<ge> 2 \<and> cont_byte 0xC2 0xDF (b ! 0) \<and> cont_byte 0x80 0xBF (b ! 1))"

definition three_bytes :: "nat list \<Rightarrow> bool" where
  "three_bytes b =
     (length b \<ge> 3 \<and> cont_byte 0xE0 0xEF (b ! 0) \<and>
      cont_byte (if b ! 0 = 0xE0 then 0xA0 else 0x80) (if b ! 0 = 0xED then 0x9F else 0xBF) (b ! 1) \<and>
      cont_byte 0x80 0xBF (b ! 2))"

definition four_bytes :: "nat list \<Rightarrow> bool" where
  "four_bytes b =
     (length b \<ge> 4 \<and> cont_byte 0xF0 0xF4 (b ! 0) \<and>
      cont_byte (if b ! 0 = 0xF0 then 0x90 else 0x80) (if b ! 0 = 0xF4 then 0x8F else 0xBF) (b ! 1) \<and>
      cont_byte 0x80 0xBF (b ! 2) \<and> cont_byte 0x80 0xBF (b ! 3))"

text \<open>\<open>utf8.DecodeRuneInString\<close> on a non-empty string: the rune and its width\<close>

definition decode_rune :: "string \<Rightarrow> nat \<times> nat" where
  "decode_rune s =
     (let b = map byte (take 4 s)
      in if b ! 0 < 0x80 then (b ! 0, 1)
         else if two_bytes b then ((b ! 0 mod 0x20) * 0x40 + b ! 1 mod 0x40, 2)
         else if three_bytes b then
           ((b ! 0 mod 0x10) * 0x1000 + (b ! 1 mod 0x40) * 0x40 + b ! 2 mod 0x40, 3)
         else if four_bytes b then
           ((b ! 0 mod 0x08) * 0x40000 + (b ! 1 mod 0x40) * 0x1000 + (b ! 2 mod 0x40) * 0x40
              + b ! 3 mod 0x40, 4)
         else (rune_error, 1))"

lemma decode_rune_width:
  assumes "s \<noteq> []"
  shows "0 < snd (decode_rune s)" and "snd (decode_rune s) \<le> length s"
proof -
  define b where "b = map byte (take 4 s)"
  have l: "length b \<le> length s" "1 \<le> length s" using assms by (simp_all add: b_def Suc_le_eq)
  have "two_bytes b \<Longrightarrow> 2 \<le> length b" "three_bytes b \<Longrightarrow> 3 \<le> length b" "four_bytes b \<Longrightarrow> 4 \<le> length b"
    unfolding two_bytes_def three_bytes_def four_bytes_def by blast+
  with l show "0 < snd (decode_rune s)" and "snd (decode_rune s) \<le> length s"
    unfolding decode_rune_def b_def [symmetric] Let_def by auto
qed

lemma decode_rune_ascii: "byte c < 0x80 \<Longrightarrow> decode_rune (c # s) = (byte c, 1)"
  by (simp add: decode_rune_def)

text \<open>\<open>[]rune(s)\<close>\<close>

function runes :: "string \<Rightarrow> nat list" where
  "runes s =
     (if s = [] then []
      else case decode_rune s of (r, w) \<Rightarrow> r # runes (drop w s))"
  by auto
termination
proof (relation "measure length", goal_cases)
  case (2 s r w)
  then show ?case using decode_rune_width [of s] by (cases "decode_rune s") auto
qed simp

declare runes.simps [simp del]

text \<open>\<open>utf8.EncodeRune\<close> and \<open>string(runes)\<close>\<close>

definition encode_rune :: "nat \<Rightarrow> string" where
  "encode_rune r =
     (let r = (if r > 0x10FFFF \<or> 0xD800 \<le> r \<and> r \<le> 0xDFFF then rune_error else r)
      in map char_of
          (if r < 0x80 then [r]
           else if r < 0x800 then [0xC0 + r div 0x40, 0x80 + r mod 0x40]
           else if r < 0x10000 then
             [0xE0 + r div 0x1000, 0x80 + r div 0x40 mod 0x40, 0x80 + r mod 0x40]
           else
             [0xF0 + r div 0x40000, 0x80 + r div 0x1000 mod 0x40, 0x80 + r div 0x40 mod 0x40,
              0x80 + r mod 0x40]))"

definition string_of_runes :: "nat list \<Rightarrow> string" where
  "string_of_runes rs = concat (map encode_rune rs)"

text \<open>\<open>utf8.RuneCountInString\<close>\<close>

definition rune_count :: "string \<Rightarrow> nat" where
  "rune_count s = length (runes s)"

text \<open>Strings of ASCII bytes are their own runes.\<close>

definition is_ascii :: "string \<Rightarrow> bool" where
  "is_ascii s = list_all (\<lambda>c. byte c < 0x80) s"

lemma runes_ascii: "is_ascii s \<Longrightarrow> runes s = map byte s"
proof (induction s)
  case (Cons c s)
  then show ?case by (subst runes.simps) (simp add: is_ascii_def decode_rune_ascii)
qed (simp add: runes.simps)

lemma encode_rune_ascii: "byte c < 0x80 \<Longrightarrow> encode_rune (byte c) = [c]"
  by (simp add: encode_rune_def byte_def)

lemma string_of_runes_ascii: "is_ascii s \<Longrightarrow> string_of_runes (map byte s) = s"
  by (induction s) (auto simp: is_ascii_def string_of_runes_def encode_rune_ascii)

lemma runes_length: "length (runes s) \<le> length s"
proof (induction s rule: runes.induct)
  case (1 s)
  show ?case
  proof (cases "s = []")
    case False
    obtain r w where d: "decode_rune s = (r, w)" by fastforce
    then have "0 < w" "w \<le> length s" using decode_rune_width [OF False] by auto
    with 1 [OF False d [symmetric]] d False show ?thesis by (subst runes.simps) simp
  qed (simp add: runes.simps)
qed

text \<open>
  \<open>strings.ToLower\<close> where its result is only compared with ASCII words: besides the ASCII capitals,
  U+0130 and the Kelvin sign are the runes with an ASCII lower case; other runes stay outside ASCII.
\<close>

definition lower_rune :: "nat \<Rightarrow> nat" where
  "lower_rune r =
     (if 0x41 \<le> r \<and> r \<le> 0x5A then r + 0x20
      else if r = 0x130 then 0x69 else if r = 0x212A then 0x6B else r)"

definition ascii_lower :: "string \<Rightarrow> string" where
  "ascii_lower s = string_of_runes (map lower_rune (runes s))"

end
