(* ===== verification/Go_Regexp.thy ===== *)
theory Go_Regexp
  imports Go_Utf8
begin

text \<open>
  The part of \<open>regexp\<close> the sources call. The matching engine is an argument: \<open>regexp.Compile\<close>
  is a function from patterns, and a compiled pattern is known by the leftmost match it finds at or
  after a position, and by what \<open>Expand\<close> makes of a template for that match. The methods that find
  or replace all matches are translated here on top of it.
\<close>

record regex =
  rx_exec :: "string \<Rightarrow> nat \<Rightarrow> (nat \<times> nat) option"
  rx_expand :: "string \<Rightarrow> string \<Rightarrow> nat \<Rightarrow> string"

text \<open>What a match is: a range of the string at or after the position asked for.\<close>

definition regex_ok :: "regex \<Rightarrow> bool" where
  "regex_ok re = (\<forall>s p a b. rx_exec re s p = Some (a, b) \<longrightarrow> p \<le> a \<and> a \<le> b \<and> b \<le> length s)"

type_synonym regexp_compile = "string \<Rightarrow> gerror + regex"

definition MatchString :: "regex \<Rightarrow> string \<Rightarrow> bool" where
  "MatchString re s = (rx_exec re s 0 \<noteq> None)"

text \<open>The loop of \<open>allMatches\<close>: the end of the last match, and the position to search from\<close>

function all_matches :: "regex \<Rightarrow> string \<Rightarrow> nat option \<Rightarrow> nat \<Rightarrow> (nat \<times> nat \<times> nat) list" where
  "all_matches re s prev pos =
     (if length s < pos then []
      else case rx_exec re s pos of
             None \<Rightarrow> []
           | Some (a, b) \<Rightarrow>
               (if b \<le> pos then
                  (let rest = all_matches re s (Some b)
                                (if pos < length s then pos + snd (decode_rune (drop pos s))
                                 else length s + 1)
                   in if Some a = prev then rest else (pos, a, b) # rest)
                else (pos, a, b) # all_matches re s (Some b) b))"
  by auto
termination
proof (relation "measure (\<lambda>(re, s, prev, pos). length s + 1 - pos)", goal_cases)
  case (2 re s prev pos ab a b)
  then show ?case
    using decode_rune_width(1) [of "drop pos s"] by (auto split: if_splits)
qed auto

declare all_matches.simps [simp del]

definition substr :: "string \<Rightarrow> nat \<Rightarrow> nat \<Rightarrow> string" where
  "substr s a b = drop a (take b s)"

definition FindAllString :: "regex \<Rightarrow> string \<Rightarrow> string list" where
  "FindAllString re s = map (\<lambda>(p, a, b). substr s a b) (all_matches re s None 0)"

text \<open>
  The loop of \<open>replaceAll\<close>: the text between matches is kept, and each match is replaced unless it
  is an empty one right after the last match.
\<close>

function replace_all ::
  "regex \<Rightarrow> string \<Rightarrow> (nat \<Rightarrow> nat \<Rightarrow> nat \<Rightarrow> string) \<Rightarrow> nat \<Rightarrow> nat \<Rightarrow> string" where
  "replace_all re s repl fin pos =
     (if length s < pos then drop fin s
      else case rx_exec re s pos of
             None \<Rightarrow> drop fin s
           | Some (a, b) \<Rightarrow>
               (let adv = (if pos < length s then pos + snd (decode_rune (drop pos s)) else pos + 1)
                in substr s fin a @ (if fin < b \<or> a = 0 then repl pos a b else []) @
                   replace_all re s repl b (max adv b)))"
  by auto
termination
proof (relation "measure (\<lambda>(re, s, repl, fin, pos). length s + 1 - pos)", goal_cases)
  case (2 re s repl fin pos ab a b)
  then show ?case
    using decode_rune_width(1) [of "drop pos s"] by (auto split: if_splits)
qed auto

declare replace_all.simps [simp del]

definition ReplaceAllString :: "regex \<Rightarrow> string \<Rightarrow> string \<Rightarrow> string" where
  "ReplaceAllString re src template =
     replace_all re src (\<lambda>pos a b. rx_expand re template src pos) 0 0"

definition ReplaceAllStringFunc :: "regex \<Rightarrow> string \<Rightarrow> (string \<Rightarrow> string) \<Rightarrow> string" where
  "ReplaceAllStringFunc re src f = replace_all re src (\<lambda>pos a b. f (substr src a b)) 0 0"

end
