(* ===== verification/Condition.thy ===== *)
theory Condition
  imports Event Go_Regexp
begin

text \<open>
  \<open>internal/condition/condition.go\<close>: the expression language of the filter transforms. The scanner
  works on byte positions as the code does, with the quote state as an optional quote character
  (\<open>inQuote\<close> and \<open>quoteChar\<close>); the parser is the mutual recursion of \<open>Parse\<close> and
  \<open>parseUnary\<close>; a compiled pattern is kept as the pattern it was compiled from.
\<close>

section \<open>Data\<close>

datatype cond =
    AndCondition "cond list"
  | OrCondition "cond list"
  | NotCondition "cond option"
  | ComparisonCondition string string string "string option"

section \<open>Scanning\<close>

abbreviation dquote :: char where "dquote \<equiv> CHR 0x22"
abbreviation squote :: char where "squote \<equiv> CHR 0x27"
abbreviation backslash :: char where "backslash \<equiv> CHR 0x5C"

definition isEscaped :: "string \<Rightarrow> nat \<Rightarrow> bool" where
  "isEscaped expr idx = odd (length (takeWhile (\<lambda>c. c = backslash) (rev (take idx expr))))"

definition updateQuoteState :: "string \<Rightarrow> nat \<Rightarrow> char option \<Rightarrow> char option" where
  "updateQuoteState expr idx q =
     (let ch = expr ! idx
      in if ch = dquote \<or> ch = squote then
           (if isEscaped expr idx then q
            else case q of
                   Some qc \<Rightarrow> (if ch = qc then None else q)
                 | None \<Rightarrow> Some ch)
         else q)"

definition add_part :: "string list \<Rightarrow> string \<Rightarrow> string list" where
  "add_part parts s = (let part = trim_space s in if part \<noteq> [] then parts @ [part] else parts)"

text \<open>The loop of \<open>splitOutsideParens\<close> and the tail it adds after it\<close>

function split_loop ::
  "string \<Rightarrow> string \<Rightarrow> nat \<Rightarrow> nat \<Rightarrow> char option \<Rightarrow> string list \<Rightarrow> nat \<Rightarrow> string list" where
  "split_loop expr sep depth start q parts i =
     (if \<not> (i + length sep \<le> length expr) \<or> sep = [] then add_part parts (drop start expr)
      else let q' = updateQuoteState expr i q
           in if q' \<noteq> None then split_loop expr sep depth start q' parts (i + 1)
              else if expr ! i = CHR ''('' then split_loop expr sep (depth + 1) start q' parts (i + 1)
              else if expr ! i = CHR '')'' then split_loop expr sep (depth - 1) start q' parts (i + 1)
              else if depth = 0 \<and> str_has_prefix (drop i expr) sep
                then split_loop expr sep depth (i + length sep) q'
                       (add_part parts (drop start (take i expr))) (i + length sep)
              else split_loop expr sep depth start q' parts (i + 1))"
  by auto
termination
proof (relation "measure (\<lambda>(expr, sep, depth, start, q, parts, i). length expr + 1 - i)", goal_cases)
  case (5 expr sep depth start q parts i q')
  then show ?case by (cases sep) auto
qed auto

declare split_loop.simps [simp del]

definition splitOutsideParens :: "string \<Rightarrow> string \<Rightarrow> string list" where
  "splitOutsideParens expr sep = split_loop expr sep 0 0 None [] 0"

text \<open>The loop of \<open>findOperatorOutsideQuotes\<close>\<close>

function find_loop :: "string \<Rightarrow> string \<Rightarrow> char option \<Rightarrow> nat \<Rightarrow> nat option" where
  "find_loop expr needle q i =
     (if \<not> (i + length needle \<le> length expr) then None
      else let q' = updateQuoteState expr i q
           in if q' \<noteq> None then find_loop expr needle q' (i + 1)
              else if str_has_prefix (drop i expr) needle then Some i
              else find_loop expr needle q' (i + 1))"
  by auto
termination
  by (relation "measure (\<lambda>(expr, needle, q, i). length expr + 1 - i)") auto

declare find_loop.simps [simp del]

definition findOperatorOutsideQuotes :: "string \<Rightarrow> string \<Rightarrow> nat option" where
  "findOperatorOutsideQuotes expr op =
     (if op = [] then None
      else let needle = '' '' @ op @ '' ''
           in if length expr < length needle then None else find_loop expr needle None 0)"

definition unquoteValue :: "string \<Rightarrow> string" where
  "unquoteValue s =
     (if length s \<ge> 2 \<and>
         (hd s = dquote \<and> last s = dquote \<or> hd s = squote \<and> last s = squote)
      then butlast (tl s) else s)"

text \<open>
  The loop of \<open>stripOuterParens\<close> over the bytes from position \<open>i\<close>: \<open>None\<close> is its early return,
  otherwise the depth at the end. The depth may become negative.
\<close>

fun paren_loop :: "nat \<Rightarrow> int \<Rightarrow> nat \<Rightarrow> string \<Rightarrow> int option" where
  "paren_loop n depth i [] = Some depth"
| "paren_loop n depth i (c # cs) =
     (if c = CHR ''('' then paren_loop n (depth + 1) (i + 1) cs
      else if c = CHR '')'' then
        (if depth - 1 = 0 \<and> i + 1 \<noteq> n then None else paren_loop n (depth - 1) (i + 1) cs)
      else paren_loop n depth (i + 1) cs)"

definition stripOuterParens :: "string \<Rightarrow> string" where
  "stripOuterParens expr0 =
     (let expr = trim_space expr0
      in if length expr < 2 then expr
         else if hd expr \<noteq> CHR ''('' \<or> last expr \<noteq> CHR '')'' then expr
         else case paren_loop (length expr) 0 0 expr of
                None \<Rightarrow> expr
              | Some depth \<Rightarrow> if depth = 0 then butlast (tl expr) else expr)"

section \<open>Comparisons\<close>

definition cmp_operators :: "(string \<times> string) list" where
  "cmp_operators =
     [(''!~'', ''notmatch''), (''=~'', ''match''), (''!='', ''ne''), (''<='', ''lte''),
      (''>='', ''gte''), (''<'', ''lt''), (''>'', ''gt''), (''=='', ''eq''), (''='', ''eq'')]"

definition text_operators :: "(string \<times> string) list" where
  "text_operators =
     [(''contains'', ''contains''), (''startswith'', ''startswith''),
      (''endswith'', ''endswith''), (''in'', ''in'')]"

text \<open>The body of both operator loops once the operator is found at position \<open>idx\<close>\<close>

definition make_comparison ::
  "regexp_compile \<Rightarrow> string \<Rightarrow> nat \<Rightarrow> string \<Rightarrow> string \<Rightarrow> gerror + cond" where
  "make_comparison compile expr idx op opType =
     (let needleLen = length op + 2;
          field = trim_space (take idx expr);
          valueStr = trim_space (drop (idx + needleLen) expr)
      in if field = [] \<or> valueStr = []
         then Inl (Errorf ''invalid condition expression: %s'' [VStr expr])
         else let unquoted = unquoteValue valueStr
              in if opType = ''match'' \<or> opType = ''notmatch'' then
                   (case compile unquoted of
                      Inl err \<Rightarrow> Inl (Wrapf ''invalid regex pattern: %w'' [] err)
                    | Inr re \<Rightarrow> Inr (ComparisonCondition field opType unquoted (Some unquoted)))
                 else Inr (ComparisonCondition field opType unquoted None))"

fun try_operators ::
  "regexp_compile \<Rightarrow> string \<Rightarrow> (string \<times> string) list \<Rightarrow> gerror + cond" where
  "try_operators compile expr [] = Inl (Errorf ''invalid condition expression: %s'' [VStr expr])"
| "try_operators compile expr ((op, opType) # ops) =
     (case findOperatorOutsideQuotes expr op of
        None \<Rightarrow> try_operators compile expr ops
      | Some idx \<Rightarrow> make_comparison compile expr idx op opType)"

definition parseComparisonCondition :: "regexp_compile \<Rightarrow> string \<Rightarrow> gerror + cond" where
  "parseComparisonCondition compile expr0 =
     (let expr = trim_space expr0
      in if expr = [] then Inl (Errorf ''condition expression cannot be empty'' [])
         else try_operators compile expr (cmp_operators @ text_operators))"

section \<open>Facts for the termination of the parser\<close>

lemma trim_drop_shorter: "0 < n \<Longrightarrow> s \<noteq> [] \<Longrightarrow> length (trim_space (drop n s)) < length s"
  using trim_space_length [of "drop n s"] by (cases s) (auto simp: le_less_trans)

lemma add_part_mem: "p \<in> set (add_part parts s) \<Longrightarrow> p \<in> set parts \<or> p = trim_space s \<and> p \<noteq> []"
  by (auto simp: add_part_def Let_def split: if_splits)

text \<open>Once a part has been cut off, every part is shorter than the expression.\<close>

lemma split_loop_shorter:
  assumes "\<forall>p \<in> set parts. length p < length expr"
    and "start = 0 \<Longrightarrow> parts = []"
    and "start \<le> i"
    and "1 < length (split_loop expr sep depth start q parts i)"
  shows "\<forall>p \<in> set (split_loop expr sep depth start q parts i). length p < length expr"
  using assms
proof (induction expr sep depth start q parts i rule: split_loop.induct)
  case (1 expr sep depth start q parts i)
  let ?cut = "add_part parts (drop start (take i expr))"
  have part: "\<forall>p \<in> set ?cut. length p < length expr" if "i + length sep \<le> length expr" "sep \<noteq> []"
  proof -
    have "0 < length sep" using that(2) by simp
    then have "i < length expr" using that(1) by linarith
    moreover have "length (trim_space (drop start (take i expr))) \<le> i"
      using trim_space_length [of "drop start (take i expr)"] by simp
    ultimately show ?thesis using 1(6) add_part_mem by fastforce
  qed
  have last: "\<forall>p \<in> set (add_part parts (drop start expr)). length p < length expr"
    if "1 < length (add_part parts (drop start expr))"
  proof -
    have "0 < start" using that 1(7) by (cases start) (auto simp: add_part_def Let_def split: if_splits)
    moreover have "expr \<noteq> []"
      using that 1(6) by (cases expr) (auto simp: add_part_def Let_def split: if_splits)
    ultimately show ?thesis
      using 1(6) trim_drop_shorter [of start expr] by (auto dest!: add_part_mem)
  qed
  note eq = split_loop.simps [of expr sep depth start q parts i]
  let ?q = "updateQuoteState expr i q"
  consider (at_end) "\<not> (i + length sep \<le> length expr) \<or> sep = []"
    | (quote) "i + length sep \<le> length expr" and "sep \<noteq> []" and "?q \<noteq> None"
    | (lpar) "i + length sep \<le> length expr" and "sep \<noteq> []" and "?q = None" and "expr ! i = CHR ''(''"
    | (rpar) "i + length sep \<le> length expr" and "sep \<noteq> []" and "?q = None" and "expr ! i = CHR '')''"
    | (sep) "i + length sep \<le> length expr" and "sep \<noteq> []" and "?q = None" and
        "expr ! i \<noteq> CHR ''(''" and "expr ! i \<noteq> CHR '')''" and "depth = 0 \<and> str_has_prefix (drop i expr) sep"
    | (char) "i + length sep \<le> length expr" and "sep \<noteq> []" and "?q = None" and
        "expr ! i \<noteq> CHR ''(''" and "expr ! i \<noteq> CHR '')''" and "\<not> (depth = 0 \<and> str_has_prefix (drop i expr) sep)"
    by blast
  then show ?case
  proof cases
    case at_end
    then have "split_loop expr sep depth start q parts i = add_part parts (drop start expr)"
      using eq by simp
    with 1(9) last show ?thesis by simp
  next
    case quote
    with 1(1) 1(6-9) eq show ?thesis by (simp add: Let_def)
  next
    case lpar
    with 1(2) 1(6-9) eq show ?thesis by (simp add: Let_def)
  next
    case rpar
    with 1(3) 1(6-9) eq show ?thesis by (simp add: Let_def)
  next
    case sep
    with 1(4) 1(6-9) eq part show ?thesis by (simp add: Let_def)
  next
    case char
    with 1(5) 1(6-9) eq show ?thesis by (simp add: Let_def)
  qed
qed

lemma splitOutsideParens_shorter:
  "1 < length (splitOutsideParens expr sep) \<Longrightarrow> p \<in> set (splitOutsideParens expr sep) \<Longrightarrow>
   length p < length expr"
  unfolding splitOutsideParens_def using split_loop_shorter [of "[]" expr 0 0 sep 0 None] by simp

lemma stripOuterParens_shorter:
  assumes "stripOuterParens expr \<noteq> expr"
  shows "length (stripOuterParens expr) < length expr"
proof -
  have "stripOuterParens expr = trim_space expr \<or> length (stripOuterParens expr) < length (trim_space expr)"
    by (auto simp: stripOuterParens_def Let_def split: option.split)
  then show ?thesis using assms trim_space_length [of expr] trim_space_shorter [of expr] by auto
qed

section \<open>The parser\<close>

function (sequential) Parse :: "regexp_compile \<Rightarrow> string \<Rightarrow> gerror + cond"
  and parseUnary :: "regexp_compile \<Rightarrow> string \<Rightarrow> gerror + cond" where
  "Parse compile expr0 =
     (let expr = trim_space expr0
      in if expr = [] then Inl (Errorf ''condition expression cannot be empty'' [])
         else let parts = splitOutsideParens expr '' OR ''
              in if length parts > 1
                 then bind_res (map_res (Parse compile) parts) (\<lambda>cs. Inr (OrCondition cs))
                 else let parts = splitOutsideParens expr '' AND ''
                      in if length parts > 1
                         then bind_res (map_res (Parse compile) parts) (\<lambda>cs. Inr (AndCondition cs))
                         else parseUnary compile expr)"
| "parseUnary compile expr0 =
     (let expr = trim_space expr0
      in if expr = [] then Inl (Errorf ''condition expression cannot be empty'' [])
         else if str_has_prefix expr ''NOT '' then
           (let operand = trim_space (drop 4 expr)
            in if operand = [] then Inl (Errorf ''NOT operator requires an operand'' [])
               else bind_res (parseUnary compile operand) (\<lambda>c. Inr (NotCondition (Some c))))
         else let stripped = stripOuterParens expr
              in if stripped \<noteq> expr then Parse compile stripped
                 else parseComparisonCondition compile expr)"
  by pat_completeness auto
termination
proof (relation "measure (\<lambda>x. case x of Inl (c, s) \<Rightarrow> 2 * length s + 1 | Inr (c, s) \<Rightarrow> 2 * length s)",
    goal_cases)
  case (2 compile expr0 expr parts p)
  then show ?case
    using splitOutsideParens_shorter [of expr _ p] trim_space_length [of expr0] by fastforce
next
  case (3 compile expr0 expr parts parts' p)
  then show ?case
    using splitOutsideParens_shorter [of expr _ p] trim_space_length [of expr0] by fastforce
next
  case (4 compile expr0 expr parts parts')
  then show ?case using trim_space_length [of expr0] by simp
next
  case (5 compile expr0 expr operand)
  then have "length operand < length expr"
    using trim_drop_shorter [of 4 expr] by simp
  then show ?case using 5 trim_space_length [of expr0] by simp
next
  case (6 compile expr0 expr stripped)
  then show ?case
    using stripOuterParens_shorter [of expr] trim_space_length [of expr0] by simp
qed simp

declare Parse.simps [simp del] parseUnary.simps [simp del]

section \<open>Evaluation\<close>

definition compareNumbers :: "string \<Rightarrow> string \<Rightarrow> (f64 \<Rightarrow> f64 \<Rightarrow> bool) \<Rightarrow> gerror + bool" where
  "compareNumbers a b cmp =
     (case (parse_float a, parse_float b) of
        (Some numA, Some numB) \<Rightarrow> Inr (cmp numA numB)
      | _ \<Rightarrow> Inl (Errorf ''non-numeric operands for comparison: %s, %s'' [VStr a, VStr b]))"

definition in_candidate :: "string \<Rightarrow> string" where
  "in_candidate v =
     (let candidate = str_replace_all v [backslash, dquote] [dquote];
          candidate = str_replace_all candidate [backslash, squote] [squote]
      in unquoteValue candidate)"

fun in_loop :: "string \<Rightarrow> string list \<Rightarrow> bool" where
  "in_loop fieldStr [] = False"
| "in_loop fieldStr (v # vs) =
     (let candidate = trim_space v
      in if candidate = [] then in_loop fieldStr vs
         else if in_candidate candidate = fieldStr then True
         else in_loop fieldStr vs)"

definition match_regex :: "regexp_compile \<Rightarrow> string \<Rightarrow> string \<Rightarrow> bool" where
  "match_regex compile pattern s =
     (case compile pattern of Inl _ \<Rightarrow> False | Inr re \<Rightarrow> MatchString re s)"

record go_env =
  env_render :: renderer
  env_compile :: regexp_compile

definition eval_comparison ::
  "go_env \<Rightarrow> event \<Rightarrow> string \<Rightarrow> string \<Rightarrow> string \<Rightarrow> string option \<Rightarrow> gerror + bool" where
  "eval_comparison env e field operator target rx =
     (if field = [] then Inl (Errorf ''comparison missing field'' [])
      else case GetField e field of
        None \<Rightarrow> Inr (operator = ''ne'' \<or> operator = ''notmatch'')
      | Some fieldValue \<Rightarrow>
          (let fieldStr = fmt_v (env_render env) fieldValue
           in if operator = ''eq'' then Inr (fieldStr = target)
              else if operator = ''ne'' then Inr (fieldStr \<noteq> target)
              else if operator = ''lt'' then compareNumbers fieldStr target f64_lt
              else if operator = ''lte'' then compareNumbers fieldStr target f64_le
              else if operator = ''gt'' then compareNumbers fieldStr target (\<lambda>a b. f64_lt b a)
              else if operator = ''gte'' then compareNumbers fieldStr target (\<lambda>a b. f64_le b a)
              else if operator = ''match'' then
                (case rx of
                   None \<Rightarrow> Inl (Errorf ''regex not compiled for match operator'' [])
                 | Some pattern \<Rightarrow> Inr (match_regex (env_compile env) pattern fieldStr))
              else if operator = ''notmatch'' then
                (case rx of
                   None \<Rightarrow> Inl (Errorf ''regex not compiled for notmatch operator'' [])
                 | Some pattern \<Rightarrow> Inr (\<not> match_regex (env_compile env) pattern fieldStr))
              else if operator = ''contains'' then Inr (str_contains fieldStr target)
              else if operator = ''startswith'' then Inr (str_has_prefix fieldStr target)
              else if operator = ''endswith'' then Inr (str_has_suffix fieldStr target)
              else if operator = ''in'' then Inr (in_loop fieldStr (str_split target '',''))
              else Inl (Errorf ''unknown operator: %s'' [VStr operator])))"

fun Evaluate :: "go_env \<Rightarrow> event \<Rightarrow> cond \<Rightarrow> gerror + bool"
  and evaluate_and :: "go_env \<Rightarrow> event \<Rightarrow> cond list \<Rightarrow> gerror + bool"
  and evaluate_or :: "go_env \<Rightarrow> event \<Rightarrow> cond list \<Rightarrow> gerror + bool" where
  "Evaluate env e (AndCondition cs) = evaluate_and env e cs"
| "Evaluate env e (OrCondition cs) = evaluate_or env e cs"
| "Evaluate env e (NotCondition None) = Inl (Errorf ''not condition missing operand'' [])"
| "Evaluate env e (NotCondition (Some c)) =
     bind_res (Evaluate env e c) (\<lambda>match. Inr (\<not> match))"
| "Evaluate env e (ComparisonCondition field operator target rx) =
     eval_comparison env e field operator target rx"
| "evaluate_and env e [] = Inr True"
| "evaluate_and env e (c # cs) =
     bind_res (Evaluate env e c) (\<lambda>match. if \<not> match then Inr False else evaluate_and env e cs)"
| "evaluate_or env e [] = Inr False"
| "evaluate_or env e (c # cs) =
     bind_res (Evaluate env e c) (\<lambda>match. if match then Inr True else evaluate_or env e cs)"

section \<open>Well-formed conditions\<close>

text \<open>
  What \<open>Evaluate\<close> checks again at run time and the parser has established: a field, a known
  operator, a compiled pattern exactly for the two pattern operators, operands of a connective.
\<close>

definition known_operators :: "string list" where
  "known_operators = map snd (cmp_operators @ text_operators)"

lemma known_operators_mem:
  "operator \<in> set known_operators \<longleftrightarrow>
     operator \<in> {''eq'', ''ne'', ''lt'', ''lte'', ''gt'', ''gte'', ''match'', ''notmatch'',
                ''contains'', ''startswith'', ''endswith'', ''in''}"
  by (auto simp: known_operators_def cmp_operators_def text_operators_def)

fun cond_ok :: "regexp_compile \<Rightarrow> cond \<Rightarrow> bool" where
  "cond_ok compile (AndCondition cs) = (2 \<le> length cs \<and> list_all (cond_ok compile) cs)"
| "cond_ok compile (OrCondition cs) = (2 \<le> length cs \<and> list_all (cond_ok compile) cs)"
| "cond_ok compile (NotCondition None) = False"
| "cond_ok compile (NotCondition (Some c)) = cond_ok compile c"
| "cond_ok compile (ComparisonCondition field operator target rx) =
     (field \<noteq> [] \<and> operator \<in> set known_operators \<and>
      (if operator = ''match'' \<or> operator = ''notmatch''
       then rx = Some target \<and> (\<exists>re. compile target = Inr re) else rx = None))"

lemma make_comparison_ok:
  "make_comparison compile expr idx op opType = Inr c \<Longrightarrow> opType \<in> set known_operators \<Longrightarrow>
   cond_ok compile c"
  by (auto simp: make_comparison_def Let_def split: if_splits sum.splits)

lemma try_operators_ok:
  "try_operators compile expr ops = Inr c \<Longrightarrow> snd ` set ops \<subseteq> set known_operators \<Longrightarrow>
   cond_ok compile c"
  by (induction compile expr ops rule: try_operators.induct)
     (auto split: option.splits intro: make_comparison_ok)

lemma operators_known: "snd ` set (cmp_operators @ text_operators) \<subseteq> set known_operators"
  by (simp add: known_operators_def image_Un)

lemma parseComparisonCondition_ok: "parseComparisonCondition compile s = Inr c \<Longrightarrow> cond_ok compile c"
  using try_operators_ok [OF _ operators_known]
  by (simp add: parseComparisonCondition_def Let_def split: if_splits)

lemma map_res_ok:
  "map_res f xs = Inr ys \<Longrightarrow> (\<And>x y. x \<in> set xs \<Longrightarrow> f x = Inr y \<Longrightarrow> P y) \<Longrightarrow> list_all P ys"
  unfolding list_all_iff by (metis map_res_mem)

lemma Parse_ok:
  "Parse compile s = Inr c \<Longrightarrow> cond_ok compile c"
  "parseUnary compile s = Inr c \<Longrightarrow> cond_ok compile c"
proof (induction compile s and compile s arbitrary: c and c rule: Parse_parseUnary.induct)
  case (1 compile expr0)
  let ?e = "trim_space expr0"
  have or: "2 \<le> length cs \<and> list_all (cond_ok compile) cs"
    if "?e \<noteq> []" "1 < length (splitOutsideParens ?e '' OR '')"
      "map_res (Parse compile) (splitOutsideParens ?e '' OR '') = Inr cs" for cs
    using map_res_ok [OF that(3) 1(1) [OF refl that(1) refl that(2)]] map_res_length [OF that(3)]
      that(2) by simp
  have "and": "2 \<le> length cs \<and> list_all (cond_ok compile) cs"
    if "?e \<noteq> []" "\<not> 1 < length (splitOutsideParens ?e '' OR '')"
      "1 < length (splitOutsideParens ?e '' AND '')"
      "map_res (Parse compile) (splitOutsideParens ?e '' AND '') = Inr cs" for cs
    using map_res_ok [OF that(4) 1(2) [OF refl that(1) refl that(2) refl that(3)]]
      map_res_length [OF that(4)] that(3) by simp
  note un = 1(3) [OF refl _ refl _ refl]
  from 1(4) show ?case
    by (subst (asm) Parse.simps)
       (auto simp: Let_def bind_res_Inr_iff simp del: One_nat_def split: if_splits dest: or "and" un)
next
  case (2 compile expr0)
  from 2(3) 2(1) [OF refl _ _ refl] 2(2) [OF refl _ _ refl] show ?case
    by (subst (asm) parseUnary.simps)
       (auto simp: Let_def bind_res_Inr_iff split: if_splits dest: parseComparisonCondition_ok)
qed


text \<open>The first of a list of outcomes that decides, or what there is when none does\<close>

definition first_outcome :: "('e + bool) \<Rightarrow> ('e + bool) list \<Rightarrow> 'e + bool" where
  "first_outcome r rs = (case find (\<lambda>x. x \<noteq> r) rs of None \<Rightarrow> r | Some x \<Rightarrow> x)"

lemma evaluate_and_first: "evaluate_and env e cs = first_outcome (Inr True) (map (Evaluate env e) cs)"
proof (induction cs)
  case (Cons c cs)
  then show ?case by (cases "Evaluate env e c") (auto simp: first_outcome_def)
qed (simp add: first_outcome_def)

lemma evaluate_or_first: "evaluate_or env e cs = first_outcome (Inr False) (map (Evaluate env e) cs)"
proof (induction cs)
  case (Cons c cs)
  then show ?case by (cases "Evaluate env e c") (auto simp: first_outcome_def)
qed (simp add: first_outcome_def)

lemma evaluate_not_list:
  "evaluate_or env e (map (\<lambda>c. NotCondition (Some c)) cs) =
     bind_res (evaluate_and env e cs) (\<lambda>match. Inr (\<not> match))"
  "evaluate_and env e (map (\<lambda>c. NotCondition (Some c)) cs) =
     bind_res (evaluate_or env e cs) (\<lambda>match. Inr (\<not> match))"
proof (induction cs)
  case (Cons c cs)
  {
    case 1 from Cons(1) show ?case by (cases "Evaluate env e c") auto
  next
    case 2 from Cons(2) show ?case by (cases "Evaluate env e c") auto
  }
qed simp_all

text \<open>
  The error of an order comparison whose field is there, and one of whose operands (the field as text, or the
  target) is no number
\<close>

definition order_operator :: "string \<Rightarrow> bool" where
  "order_operator op = (op \<in> {''lt'', ''lte'', ''gt'', ''gte''})"

definition not_numbers :: "go_env \<Rightarrow> event \<Rightarrow> string \<times> string \<times> string \<Rightarrow> gerror \<Rightarrow> bool" where
  "not_numbers env e cmp err =
     (case cmp of (f, op, t) \<Rightarrow>
        order_operator op \<and>
        (case GetField e f of
           None \<Rightarrow> False
         | Some v \<Rightarrow>
             (parse_float (fmt_v (env_render env) v) = None \<or> parse_float t = None) \<and>
             err = Errorf ''non-numeric operands for comparison: %s, %s'' [VStr (fmt_v (env_render env) v), VStr t]))"

lemma compareNumbers_error:
  "compareNumbers a b cmp = Inl err \<longleftrightarrow>
   (parse_float a = None \<or> parse_float b = None) \<and>
   err = Errorf ''non-numeric operands for comparison: %s, %s'' [VStr a, VStr b]"
  by (auto simp: compareNumbers_def split: option.splits)

lemma eval_comparison_error:
  "eval_comparison env e field operator target rx = Inl err \<Longrightarrow>
   cond_ok (env_compile env) (ComparisonCondition field operator target rx) \<Longrightarrow>
   not_numbers env e (field, operator, target) err"
  by (auto simp: eval_comparison_def Let_def order_operator_def known_operators_mem not_numbers_def
      compareNumbers_error split: if_splits option.splits)

fun comparisons :: "cond \<Rightarrow> (string \<times> string \<times> string) list" where
  "comparisons (AndCondition cs) = concat (map comparisons cs)"
| "comparisons (OrCondition cs) = concat (map comparisons cs)"
| "comparisons (NotCondition None) = []"
| "comparisons (NotCondition (Some c)) = comparisons c"
| "comparisons (ComparisonCondition field operator target rx) = [(field, operator, target)]"

text \<open>A well-formed condition fails only where an order comparison has an operand that is no number.\<close>

lemma Evaluate_error:
  "Evaluate env e c = Inl err \<Longrightarrow> cond_ok (env_compile env) c \<Longrightarrow>
     \<exists>cmp \<in> set (comparisons c). not_numbers env e cmp err"
  "evaluate_and env e cs = Inl err \<Longrightarrow> list_all (cond_ok (env_compile env)) cs \<Longrightarrow>
     \<exists>c \<in> set cs. \<exists>cmp \<in> set (comparisons c). not_numbers env e cmp err"
  "evaluate_or env e cs = Inl err \<Longrightarrow> list_all (cond_ok (env_compile env)) cs \<Longrightarrow>
     \<exists>c \<in> set cs. \<exists>cmp \<in> set (comparisons c). not_numbers env e cmp err"
proof (induction env e c and env e cs and env e cs rule: Evaluate_evaluate_and_evaluate_or.induct)
  case (7 env e c cs)
  then show ?case by (cases "Evaluate env e c") (auto split: if_splits)
next
  case (9 env e c cs)
  then show ?case by (cases "Evaluate env e c") (auto split: if_splits)
next
  case (4 env e c)
  then show ?case by (cases "Evaluate env e c") auto
next
  case (5 env e f op t rx)
  then show ?case using eval_comparison_error by fastforce
qed auto

lemma f64_le_iff_val: "f64_finite a \<Longrightarrow> f64_finite b \<Longrightarrow> f64_le a b \<longleftrightarrow> f64_val a \<le> f64_val b"
  by (simp add: f64_le_def f64_lt_iff_val f64_eq_iff_val le_less)

section \<open>Properties\<close>

text \<open>C24: every condition the parser returns is well formed.\<close>

theorem Parse_well_formed:
  assumes "Parse compile s = Inr c"
  shows "cond_ok compile c"
  using assms by (rule Parse_ok)

definition any_pattern :: regexp_compile where
  "any_pattern p = Inr \<lparr>rx_exec = (\<lambda>s i. if i \<le> length s then Some (i, i) else None),
                        rx_expand = (\<lambda>t s i. t)\<rparr>"

definition plain_env :: go_env where
  "plain_env = \<lparr>env_render = (\<lambda>v. []), env_compile = any_pattern\<rparr>"

theorem Parse_well_formed_witness:
  "cond_ok any_pattern (AndCondition [ComparisonCondition ''a'' ''gt'' ''3'' None,
     NotCondition (Some (ComparisonCondition ''b'' ''match'' ''x'' (Some ''x'')))])"
proof (rule Parse_well_formed)
  show "Parse any_pattern ''a > 3 AND NOT b =~ x'' = Inr (AndCondition
     [ComparisonCondition ''a'' ''gt'' ''3'' None,
      NotCondition (Some (ComparisonCondition ''b'' ''match'' ''x'' (Some ''x'')))])"
    by code_simp
qed

text \<open>C25: a parsed condition fails on an event only because of an order comparison in it whose field is there and
  whose field value or target does not read as a number; the error is the one this comparison gives by itself and
  names these two texts; the other errors of \<open>Evaluate\<close> cannot occur. A condition whose order comparisons all have operands that are numbers, or no
  field, is true or false.\<close>

theorem parsed_condition_errors:
  assumes "Parse (env_compile env) s = Inr c" and "Evaluate env e c = Inl err"
  shows "\<exists>f op t v. (f, op, t) \<in> set (comparisons c) \<and> op \<in> {''lt'', ''lte'', ''gt'', ''gte''} \<and> GetField e f = Some v \<and>
    (parse_float (fmt_v (env_render env) v) = None \<or> parse_float t = None) \<and>
    Evaluate env e (ComparisonCondition f op t None) = Inl err \<and>
    err = Errorf ''non-numeric operands for comparison: %s, %s'' [VStr (fmt_v (env_render env) v), VStr t]"
proof -
  obtain f op t v where c: "(f, op, t) \<in> set (comparisons c)" "op \<in> {''lt'', ''lte'', ''gt'', ''gte''}" "GetField e f = Some v"
    "parse_float (fmt_v (env_render env) v) = None \<or> parse_float t = None"
    "err = Errorf ''non-numeric operands for comparison: %s, %s'' [VStr (fmt_v (env_render env) v), VStr t]"
    using Evaluate_error(1) [OF assms(2) Parse_ok(1) [OF assms(1)]]
    by (fastforce simp: not_numbers_def order_operator_def split: option.splits)
  moreover have "f \<noteq> []" using c(3) by (auto simp: GetField_def)
  then have "Evaluate env e (ComparisonCondition f op t None) = Inl err"
    using c(2-5) by (auto simp: eval_comparison_def compareNumbers_error Let_def)
  ultimately show ?thesis by blast
qed

theorem parsed_condition_errors_witness:
  "Evaluate plain_env (sample_event (fmupd ''a'' (VStr ''x'') fmempty)) (ComparisonCondition ''a'' ''gt'' ''3'' None) =
     Inl (Errorf ''non-numeric operands for comparison: %s, %s'' [VStr ''x'', VStr ''3'']) \<and> parse_float ''x'' = None"
proof -
  let ?msg = "Errorf ''non-numeric operands for comparison: %s, %s''"
  have parsed: "Parse (env_compile plain_env) ''a > 3'' = Inr (ComparisonCondition ''a'' ''gt'' ''3'' None)" by code_simp
  have failed: "Evaluate plain_env (sample_event (fmupd ''a'' (VStr ''x'') fmempty))
      (ComparisonCondition ''a'' ''gt'' ''3'' None) = Inl (?msg [VStr ''x'', VStr ''3''])" by code_simp
  from parsed_condition_errors [OF parsed failed] obtain t v where
    n: "parse_float (fmt_v (env_render plain_env) v) = None \<or> parse_float t = None" and
    e: "?msg [VStr ''x'', VStr ''3''] = ?msg [VStr (fmt_v (env_render plain_env) v), VStr t]" by blast
  from e have "''x'' = fmt_v (env_render plain_env) v" "''3'' = t" by (simp_all only: gerror.inject list.inject gval.inject)
  moreover have "parse_float ''3'' \<noteq> None" by code_simp
  ultimately show ?thesis using n failed by (simp only:) simp
qed

text \<open>A conjunction gives the first outcome that is not true (a false or an error), a
  disjunction the first that is not false, later operands being ignored; negation distributes over
  both, errors included.\<close>

theorem Evaluate_connectives:
  "Evaluate env e (AndCondition cs) = first_outcome (Inr True) (map (Evaluate env e) cs) \<and>
   Evaluate env e (OrCondition cs) = first_outcome (Inr False) (map (Evaluate env e) cs) \<and>
   Evaluate env e (NotCondition (Some (AndCondition cs))) =
     Evaluate env e (OrCondition (map (\<lambda>c. NotCondition (Some c)) cs)) \<and>
   Evaluate env e (NotCondition (Some (OrCondition cs))) =
     Evaluate env e (AndCondition (map (\<lambda>c. NotCondition (Some c)) cs))"
  by (simp add: evaluate_not_list) (simp add: evaluate_and_first evaluate_or_first)

text \<open>On a field and a target that read as finite numbers, the four order operators decide the
  order of the two real values.\<close>

theorem Evaluate_order:
  assumes "GetField e f = Some v" and "parse_float (fmt_v (env_render env) v) = Some a"
    and "parse_float t = Some b" and "f64_finite a" and "f64_finite b"
  shows "Evaluate env e (ComparisonCondition f ''lt'' t None) = Inr (f64_val a < f64_val b) \<and>
    Evaluate env e (ComparisonCondition f ''lte'' t None) = Inr (f64_val a \<le> f64_val b) \<and>
    Evaluate env e (ComparisonCondition f ''gt'' t None) = Inr (f64_val a > f64_val b) \<and>
    Evaluate env e (ComparisonCondition f ''gte'' t None) = Inr (f64_val a \<ge> f64_val b)"
proof -
  have "f \<noteq> []" using assms(1) by (auto simp: GetField_def)
  with assms show ?thesis
    by (simp add: eval_comparison_def compareNumbers_def f64_lt_iff_val f64_le_iff_val)
qed

theorem Evaluate_order_witness:
  "Evaluate plain_env (sample_event (fmupd ''a'' (VStr ''2.5'') fmempty))
     (ComparisonCondition ''a'' ''gt'' ''-1'' None) = Inr True"
proof -
  have "parse_float (fmt_v (env_render plain_env) (VStr ''2.5'')) = Some (FFin False 5629499534213120 (- 51))"
    and "parse_float ''-1'' = Some (FFin True 4503599627370496 (- 52))"
    and "GetField (sample_event (fmupd ''a'' (VStr ''2.5'') fmempty)) ''a'' = Some (VStr ''2.5'')"
    by (code_simp, code_simp, code_simp)
  from Evaluate_order [OF this(3,1,2)] show ?thesis by (simp add: powr_minus powr_numeral)
qed

text \<open>A field is compared by the text \<open>%v\<close> gives it, so an equality with a whole number of
  a million or more fails on the JSON number itself, while the same number satisfies both order
  comparisons.\<close>

theorem eq_large_number:
  "let e = sample_event (fmupd ''amount'' (VFloat64 (f64_of_int 1000000)) fmempty)
   in Parse any_pattern ''amount == 1000000'' = Inr (ComparisonCondition ''amount'' ''eq'' ''1000000'' None) \<and>
      Evaluate plain_env e (ComparisonCondition ''amount'' ''eq'' ''1000000'' None) = Inr False \<and>
      Evaluate plain_env e (ComparisonCondition ''amount'' ''gte'' ''1000000'' None) = Inr True \<and>
      Evaluate plain_env e (ComparisonCondition ''amount'' ''lte'' ''1000000'' None) = Inr True"
  by code_simp

text \<open>The scan for operators skips quoted text but the removal of outer parentheses counts the
  parentheses inside it, so a parenthesised disjunction with a quoted parenthesis is read as one
  comparison on a field whose name starts with the parenthesis.\<close>

theorem quoted_parenthesis:
  "Parse any_pattern ''(a == \")\" OR b == 1)'' =
     Inr (ComparisonCondition ''(a'' ''eq'' ''\")\" OR b == 1)'' None) \<and>
   Parse any_pattern ''(a == \"x\" OR b == 1)'' =
     Inr (OrCondition [ComparisonCondition ''a'' ''eq'' ''x'' None,
                       ComparisonCondition ''b'' ''eq'' ''1'' None])"
  by code_simp

end
