(* ===== verification/Go_Time.thy ===== *)
theory Go_Time
  imports Go_Value
begin

text \<open>
  \<open>time.ParseDuration\<close>: a sign and a sequence of decimal numbers, each with a unit. A duration is
  its number of nanoseconds; the machine arithmetic on \<open>uint64\<close> is written out, its overflow
  checks included.
\<close>

definition is_num_char :: "char \<Rightarrow> bool" where
  "is_num_char c = (c = CHR ''.'' \<or> is_digit c)"

text \<open>\<open>leadingInt\<close>: \<open>None\<close> is overflow\<close>

fun leading_int :: "nat \<Rightarrow> string \<Rightarrow> (nat \<times> string) option" where
  "leading_int x [] = Some (x, [])"
| "leading_int x (c # s) =
     (if \<not> is_digit c then Some (x, c # s)
      else if x > 2 ^ 63 div 10 then None
      else let y = x * 10 + digit_val c in if y > 2 ^ 63 then None else leading_int y s)"

text \<open>\<open>leadingFraction\<close>: digits that would overflow are skipped\<close>

fun leading_fraction :: "nat \<Rightarrow> f64 \<Rightarrow> bool \<Rightarrow> string \<Rightarrow> nat \<times> f64 \<times> string" where
  "leading_fraction x scale ovf [] = (x, scale, [])"
| "leading_fraction x scale ovf (c # s) =
     (if \<not> is_digit c then (x, scale, c # s)
      else if ovf then leading_fraction x scale ovf s
      else if x > (2 ^ 63 - 1) div 10 then leading_fraction x scale True s
      else let y = x * 10 + digit_val c
           in if y > 2 ^ 63 then leading_fraction x scale True s
              else leading_fraction y (f64_mul scale (f64_of_int 10)) ovf s)"

definition unit_map :: "(string \<times> nat) list" where
  "unit_map =
     [(''ns'', 1), (''us'', 10 ^ 3), (map char_of [0xC2, 0xB5, 0x73 :: nat], 10 ^ 3),
      (map char_of [0xCE, 0xBC, 0x73 :: nat], 10 ^ 3), (''ms'', 10 ^ 6), (''s'', 10 ^ 9),
      (''m'', 60 * 10 ^ 9), (''h'', 3600 * 10 ^ 9)]"

text \<open>One number with its unit: the nanoseconds and the rest, or \<open>None\<close> for a syntax error or overflow\<close>

definition duration_part :: "string \<Rightarrow> (nat \<times> string) option" where
  "duration_part s =
     (if s = [] \<or> \<not> is_num_char (hd s) then None
      else case leading_int 0 s of
        None \<Rightarrow> None
      | Some (v, s1) \<Rightarrow>
          (let pre = (length s1 \<noteq> length s);
               (f, scale, s2) =
                 (if s1 \<noteq> [] \<and> hd s1 = CHR ''.'' then leading_fraction 0 (f64_of_int 1) False (tl s1)
                  else (0, f64_of_int 1, s1));
               post = (s1 \<noteq> [] \<and> hd s1 = CHR ''.'' \<and> length s2 \<noteq> length (tl s1));
               u = takeWhile (\<lambda>c. \<not> is_num_char c) s2;
               s3 = dropWhile (\<lambda>c. \<not> is_num_char c) s2
           in if \<not> pre \<and> \<not> post \<or> u = [] then None
              else case map_of unit_map u of
                None \<Rightarrow> None
              | Some unit \<Rightarrow>
                  (if v > 2 ^ 63 div unit then None
                   else let v1 = v * unit;
                            v2 = (if f > 0
                                  then v1 + nat (f64_trunc (f64_mul (f64_of_int (int f))
                                         (f64_div (f64_of_int (int unit)) scale)))
                                  else v1)
                        in if f > 0 \<and> v2 > 2 ^ 63 then None else Some (v2, s3))))"

lemma leading_int_length: "leading_int x s = Some (v, r) \<Longrightarrow> length r \<le> length s"
  by (induction x s rule: leading_int.induct) (auto simp: Let_def split: if_splits)

lemma leading_fraction_length: "leading_fraction x sc ov s = (v, sc', r) \<Longrightarrow> length r \<le> length s"
  by (induction x sc ov s rule: leading_fraction.induct) (auto simp: Let_def split: if_splits)

lemma dropWhile_shorter: "takeWhile P s \<noteq> [] \<Longrightarrow> length (dropWhile P s) < length s"
  by (cases s) (auto simp: length_dropWhile_le le_imp_less_Suc split: if_splits)

lemma duration_part_length: "duration_part s = Some (v, r) \<Longrightarrow> length r < length s"
proof -
  assume a: "duration_part s = Some (v, r)"
  then obtain v0 s1 where i: "leading_int 0 s = Some (v0, s1)"
    by (auto simp: duration_part_def split: if_splits option.splits)
  obtain f sc s2 where p: "(if s1 \<noteq> [] \<and> hd s1 = CHR ''.''
      then leading_fraction 0 (f64_of_int 1) False (tl s1) else (0, f64_of_int 1, s1)) = (f, sc, s2)"
    by (metis prod_cases3)
  have "length s2 \<le> length s1"
    using p leading_fraction_length [of 0 "f64_of_int 1" False "tl s1" f sc s2]
    by (cases s1) (auto split: if_splits)
  moreover have "takeWhile (\<lambda>c. \<not> is_num_char c) s2 \<noteq> []"
      and "r = dropWhile (\<lambda>c. \<not> is_num_char c) s2"
    using a by (simp_all add: duration_part_def i p Let_def split: if_splits option.splits)
  ultimately show "length r < length s"
    using leading_int_length [OF i] dropWhile_shorter by fastforce
qed

text \<open>The loop over the parts, and the sum of their nanoseconds\<close>

function duration_parts :: "nat \<Rightarrow> string \<Rightarrow> nat option" where
  "duration_parts d s =
     (if s = [] then Some d
      else case duration_part s of
             None \<Rightarrow> None
           | Some (v, r) \<Rightarrow>
               (let d' = (d + v) mod 2 ^ 64 in if d' > 2 ^ 63 then None else duration_parts d' r))"
  by auto
termination
  by (relation "measure (\<lambda>(d, s). length s)") (auto dest: duration_part_length)

declare duration_parts.simps [simp del]

definition parse_duration :: "string \<Rightarrow> int option" where
  "parse_duration s =
     (case split_sign s of (neg, t) \<Rightarrow>
        if t = ''0'' then Some 0
        else if t = [] then None
        else case duration_parts 0 t of
               None \<Rightarrow> None
             | Some d \<Rightarrow>
                 (if neg then Some (- int d)
                  else if d > 2 ^ 63 - 1 then None else Some (int d)))"

definition ParseDuration :: "string \<Rightarrow> gerror + int" where
  "ParseDuration s =
     (case parse_duration s of
        None \<Rightarrow> Inl (ErrLib ''time: invalid duration'')
      | Some d \<Rightarrow> Inr d)"

text \<open>Every duration is an \<open>int64\<close>.\<close>

lemma duration_parts_bound: "d \<le> 2 ^ 63 \<Longrightarrow> duration_parts d s = Some x \<Longrightarrow> x \<le> 2 ^ 63"
proof (induction d s rule: duration_parts.induct)
  case (1 d s)
  show ?case
  proof (cases "s = []")
    case True
    with 1(2,3) show ?thesis by (simp add: duration_parts.simps)
  next
    case False
    with 1(3) obtain v r where p: "duration_part s = Some (v, r)" "\<not> (d + v) mod 2 ^ 64 > 2 ^ 63"
        "duration_parts ((d + v) mod 2 ^ 64) r = Some x"
      by (subst (asm) duration_parts.simps) (auto simp: Let_def split: if_splits option.splits)
    with 1(1) [OF False p(1) refl refl] show ?thesis by simp
  qed
qed

lemma parse_duration_int64: "parse_duration s = Some d \<Longrightarrow> - (2 ^ 63) \<le> d \<and> d < 2 ^ 63"
  by (fastforce simp: parse_duration_def split: prod.splits if_splits option.splits
      dest: duration_parts_bound [of 0, simplified])

end
