(* ===== verification/Config.thy ===== *)
theory Config
  imports Condition Go_Time
begin

text \<open>
  \<open>internal/config\<close>: the configuration structs (\<open>config.go\<close>), the defaults and the choice of the
  file and its decoder (\<open>loader.go\<close>), the overrides by environment variables (\<open>env.go\<close>) and the
  validation (\<open>validate.go\<close>). The file system, the environment and the JSON and YAML decoders
  are arguments.
\<close>

section \<open>Data\<close>

record service_config =
  ServiceName :: string
  LogLevel :: string
  MetricsPort :: int
  HealthPort :: int
  ShutdownTimeout :: int

record consumer_config =
  ConsumerBrokers :: "string list"
  GroupID :: string
  ConsumerTopics :: "string list"
  SessionTimeout :: string
  MaxPollInterval :: string
  AutoOffsetReset :: string
  EnableAutoCommit :: bool
  FetchMaxRecords :: int
  PollIntervalMs :: int

record producer_config =
  ProducerBrokers :: "string list"
  Compression :: string
  Idempotent :: bool
  MaxInFlight :: int
  BatchSize :: int
  LingerMs :: int
  Acks :: string

record kafka_config =
  Consumer :: consumer_config
  Producer :: producer_config

datatype transform_descriptor =
    TransformDescriptor (DescType: string) (DescConfig: gval) (DescCondition: string)
      (DescBranches: "branch_descriptor list")
and branch_descriptor =
    BranchDescriptor (BranchCondition: string) (BranchTransforms: "transform_descriptor list")

record pipeline_config =
  PipelineName :: string
  InputTopics :: "string list"
  OutputTopic :: string
  DLQTopic :: string
  PipelineTransforms :: "transform_descriptor list"

record redis_enrichment =
  RedisAddr :: string
  RedisPassword :: string
  RedisDB :: int
  RedisMaxRetries :: int
  RedisPoolSize :: int
  RedisCacheTTL :: int
  RedisCacheSize :: int

record http_enrichment =
  DefaultTimeout :: string
  HTTPMaxIdleConns :: int
  MaxConnsPerHost :: int
  MaxResponseSize :: int

record postgres_enrichment =
  PostgresURL :: string
  MaxOpenConns :: int
  PostgresMaxIdleConns :: int
  ConnMaxLifetime :: int
  QueryTimeout :: int

record enrichment_config =
  Redis :: "(string, redis_enrichment) fmap option"
  HTTP :: http_enrichment
  Postgres :: postgres_enrichment

record metrics_config =
  Namespace :: string
  Subsystem :: string
  Buckets :: "(string, f64 list) fmap option"

record config =
  Service :: service_config
  Kafka :: kafka_config
  Pipelines :: "pipeline_config list"
  Enrichment :: enrichment_config
  Metrics :: metrics_config

definition ParsedSessionTimeout :: "consumer_config \<Rightarrow> gerror + int" where
  "ParsedSessionTimeout c = ParseDuration (SessionTimeout c)"

definition ParsedMaxPollInterval :: "consumer_config \<Rightarrow> gerror + int" where
  "ParsedMaxPollInterval c = ParseDuration (MaxPollInterval c)"

section \<open>Loading\<close>

abbreviation "DefaultConfigPath \<equiv> ''configs/config.yaml''"
abbreviation "ConfigPathEnvKey \<equiv> ''TRANSFORM_CONFIG_PATH''"

text \<open>A field update that happens only when the field has its zero value\<close>

definition default_to :: "'a \<Rightarrow> 'a \<Rightarrow> 'a \<Rightarrow> 'a" where
  "default_to zero d x = (if x = zero then d else x)"

definition applyDefaults :: "config \<Rightarrow> config" where
  "applyDefaults cfg =
     cfg\<lparr>Service := Service cfg
            \<lparr>ServiceName := default_to [] ''ggt'' (ServiceName (Service cfg)),
             LogLevel := default_to [] ''info'' (LogLevel (Service cfg)),
             ShutdownTimeout := default_to 0 30000000000 (ShutdownTimeout (Service cfg))\<rparr>,
         Metrics := Metrics cfg
            \<lparr>Namespace := default_to [] ''transform_service'' (Namespace (Metrics cfg)),
             Subsystem := default_to [] ''pipeline'' (Subsystem (Metrics cfg)),
             Buckets := default_to None (Some fmempty) (Buckets (Metrics cfg))\<rparr>\<rparr>"

text \<open>\<open>filepath.Ext\<close>: the suffix from the last dot of the last path element\<close>

definition path_ext :: "string \<Rightarrow> string" where
  "path_ext path =
     (let base = rev (takeWhile (\<lambda>c. c \<noteq> CHR ''/'') (rev path))
      in if CHR ''.'' \<in> set base
         then CHR ''.'' # rev (takeWhile (\<lambda>c. c \<noteq> CHR ''.'') (rev base)) else [])"

type_synonym decoder = "string \<Rightarrow> gerror + config"

definition unmarshalConfig :: "decoder \<Rightarrow> decoder \<Rightarrow> string \<Rightarrow> string \<Rightarrow> gerror + config" where
  "unmarshalConfig json yaml path data =
     (let ext = ascii_lower (path_ext path)
      in if ext = ''.json'' then
           (case json data of Inl e \<Rightarrow> Inl (wrap_err ''unmarshal json config: %w'' [] e) | Inr c \<Rightarrow> Inr c)
         else
           (case yaml data of Inl e \<Rightarrow> Inl (wrap_err ''unmarshal yaml config: %w'' [] e) | Inr c \<Rightarrow> Inr c))"

definition config_path :: "(string \<Rightarrow> string option) \<Rightarrow> string \<Rightarrow> string" where
  "config_path env path =
     (if path \<noteq> [] then path
      else case env ConfigPathEnvKey of
             Some p \<Rightarrow> (if p = [] then DefaultConfigPath else p)
           | None \<Rightarrow> DefaultConfigPath)"

definition LoadConfig ::
  "(string \<Rightarrow> string option) \<Rightarrow> (string \<Rightarrow> gerror + string) \<Rightarrow> decoder \<Rightarrow> decoder \<Rightarrow> string \<Rightarrow>
   gerror + config" where
  "LoadConfig env read_file json yaml path =
     (let path = config_path env path
      in case read_file path of
           Inl e \<Rightarrow> Inl (wrap_err ''read config file: %w'' [] e)
         | Inr data \<Rightarrow> bind_res (unmarshalConfig json yaml path data) (\<lambda>cfg. Inr (applyDefaults cfg)))"

section \<open>Overrides\<close>

definition parseCSV :: "string \<Rightarrow> string list" where
  "parseCSV raw = filter (\<lambda>t. t \<noteq> []) (map trim_space (str_split raw '',''))"

text \<open>An entry of \<open>envOverrides\<close>: the guard on the empty value that all of them start with\<close>

definition unless_empty :: "(config \<Rightarrow> string \<Rightarrow> gerror + config) \<Rightarrow> config \<Rightarrow> string \<Rightarrow> gerror + config" where
  "unless_empty f cfg raw = (if raw = [] then Inr cfg else f cfg raw)"

definition set_service :: "(service_config \<Rightarrow> service_config) \<Rightarrow> config \<Rightarrow> config" where
  "set_service f cfg = cfg\<lparr>Service := f (Service cfg)\<rparr>"

definition set_consumer :: "(consumer_config \<Rightarrow> consumer_config) \<Rightarrow> config \<Rightarrow> config" where
  "set_consumer f cfg = cfg\<lparr>Kafka := Kafka cfg\<lparr>Consumer := f (Consumer (Kafka cfg))\<rparr>\<rparr>"

definition set_producer :: "(producer_config \<Rightarrow> producer_config) \<Rightarrow> config \<Rightarrow> config" where
  "set_producer f cfg = cfg\<lparr>Kafka := Kafka cfg\<lparr>Producer := f (Producer (Kafka cfg))\<rparr>\<rparr>"

definition set_metrics :: "(metrics_config \<Rightarrow> metrics_config) \<Rightarrow> config \<Rightarrow> config" where
  "set_metrics f cfg = cfg\<lparr>Metrics := f (Metrics cfg)\<rparr>"

definition with_port :: "string \<Rightarrow> (int \<Rightarrow> config) \<Rightarrow> string \<Rightarrow> gerror + config" where
  "with_port what f raw =
     (case atoi raw of
        None \<Rightarrow> Inl (Wrapf what [] (ErrLib ''strconv.Atoi''))
      | Some port \<Rightarrow> Inr (f port))"

definition env_overrides :: "(string \<times> (config \<Rightarrow> string \<Rightarrow> gerror + config)) list" where
  "env_overrides =
    [(''TRANSFORM_SERVICE_NAME'', \<lambda>cfg raw. Inr (set_service (\<lambda>s. s\<lparr>ServiceName := raw\<rparr>) cfg)),
     (''TRANSFORM_SERVICE_LOG_LEVEL'', \<lambda>cfg raw. Inr (set_service (\<lambda>s. s\<lparr>LogLevel := raw\<rparr>) cfg)),
     (''TRANSFORM_SERVICE_METRICS_PORT'', \<lambda>cfg.
        with_port ''parse metrics port: %w'' (\<lambda>p. set_service (\<lambda>s. s\<lparr>MetricsPort := p\<rparr>) cfg)),
     (''TRANSFORM_SERVICE_HEALTH_PORT'', \<lambda>cfg.
        with_port ''parse health port: %w'' (\<lambda>p. set_service (\<lambda>s. s\<lparr>HealthPort := p\<rparr>) cfg)),
     (''TRANSFORM_SERVICE_SHUTDOWN_TIMEOUT'', \<lambda>cfg raw.
        case ParseDuration raw of
          Inl e \<Rightarrow> Inl (wrap_err ''parse shutdown timeout: %w'' [] e)
        | Inr d \<Rightarrow> Inr (set_service (\<lambda>s. s\<lparr>ShutdownTimeout := d\<rparr>) cfg)),
     (''TRANSFORM_KAFKA_CONSUMER_BROKERS'', \<lambda>cfg raw.
        Inr (set_consumer (\<lambda>c. c\<lparr>ConsumerBrokers := parseCSV raw\<rparr>) cfg)),
     (''TRANSFORM_KAFKA_CONSUMER_GROUP_ID'', \<lambda>cfg raw. Inr (set_consumer (\<lambda>c. c\<lparr>GroupID := raw\<rparr>) cfg)),
     (''TRANSFORM_KAFKA_CONSUMER_TOPICS'', \<lambda>cfg raw.
        Inr (set_consumer (\<lambda>c. c\<lparr>ConsumerTopics := parseCSV raw\<rparr>) cfg)),
     (''TRANSFORM_KAFKA_PRODUCER_BROKERS'', \<lambda>cfg raw.
        Inr (set_producer (\<lambda>p. p\<lparr>ProducerBrokers := parseCSV raw\<rparr>) cfg)),
     (''TRANSFORM_METRICS_NAMESPACE'', \<lambda>cfg raw. Inr (set_metrics (\<lambda>m. m\<lparr>Namespace := raw\<rparr>) cfg)),
     (''TRANSFORM_METRICS_SUBSYSTEM'', \<lambda>cfg raw. Inr (set_metrics (\<lambda>m. m\<lparr>Subsystem := raw\<rparr>) cfg))]"

text \<open>The loop of \<open>ApplyEnvOverrides\<close>: the configuration as far as it got, and the error\<close>

fun apply_overrides ::
  "(string \<Rightarrow> string option) \<Rightarrow> (string \<times> (config \<Rightarrow> string \<Rightarrow> gerror + config)) list \<Rightarrow> config \<Rightarrow>
   config \<times> gerror option" where
  "apply_overrides env [] cfg = (cfg, None)"
| "apply_overrides env ((key, app) # os) cfg =
     (case env key of
        None \<Rightarrow> apply_overrides env os cfg
      | Some raw \<Rightarrow>
          (case unless_empty app cfg (trim_space raw) of
             Inl e \<Rightarrow> (cfg, Some (wrap_err ''%s: %w'' [VStr key] e))
           | Inr cfg' \<Rightarrow> apply_overrides env os cfg'))"

definition ApplyEnvOverrides :: "(string \<Rightarrow> string option) \<Rightarrow> config \<Rightarrow> config \<times> gerror option" where
  "ApplyEnvOverrides env cfg = apply_overrides env env_overrides cfg"

section \<open>Validation\<close>

definition validLogLevel :: "string \<Rightarrow> bool" where
  "validLogLevel level =
     (ascii_lower (trim_space level) \<in>
        set [''debug'', ''info'', ''warn'', ''error'', ''dpanic'', ''panic'', ''fatal''])"

definition parseDurationField :: "string \<Rightarrow> string \<Rightarrow> gerror option" where
  "parseDurationField raw name =
     (let trimmed = trim_space raw
      in if trimmed = [] then None
         else case ParseDuration trimmed of
                Inl err \<Rightarrow> Some (wrap_err ''%s is invalid: %w'' [VStr name] err)
              | Inr d \<Rightarrow> None)"

definition at_index :: "string \<Rightarrow> string \<Rightarrow> nat \<Rightarrow> string" where
  "at_index scope field i = scope @ field @ ''['' @ nat_digits i @ '']''"

definition blank :: "string \<Rightarrow> bool" where
  "blank s = (trim_space s = [])"

text \<open>\<open>validatePipelineTransforms\<close> from index \<open>i\<close>, and its loop over the branches from index \<open>b\<close>\<close>

fun validate_transforms ::
  "regexp_compile \<Rightarrow> string \<Rightarrow> nat \<Rightarrow> transform_descriptor list \<Rightarrow> gerror option"
  and validate_branches ::
  "regexp_compile \<Rightarrow> string \<Rightarrow> nat \<Rightarrow> branch_descriptor list \<Rightarrow> gerror option" where
  "validate_transforms compile scope i [] = None"
| "validate_transforms compile scope i (TransformDescriptor t c cond branches # ds) =
     (if blank t then Some (Errorf ''%s.transforms[%d].type is required'' [VStr scope, VInt (of_nat i)])
      else case (if blank cond then Inr True else map_sum id (\<lambda>_. True) (Parse compile cond)) of
        Inl err \<Rightarrow>
          Some (wrap_err ''%s.transforms[%d].condition is invalid: %w'' [VStr scope, VInt (of_nat i)] err)
      | Inr _ \<Rightarrow>
          (case validate_branches compile (at_index scope ''.transforms'' i) 0 branches of
             Some err \<Rightarrow> Some err
           | None \<Rightarrow> validate_transforms compile scope (i + 1) ds))"
| "validate_branches compile scope b [] = None"
| "validate_branches compile scope b (BranchDescriptor cond ts # bs) =
     (if blank cond then Some (Errorf ''%s.branches[%d].condition is required'' [VStr scope, VInt (of_nat b)])
      else case Parse compile cond of
        Inl err \<Rightarrow>
          Some (wrap_err ''%s.branches[%d].condition is invalid: %w'' [VStr scope, VInt (of_nat b)] err)
      | Inr _ \<Rightarrow>
          (if ts = [] then
             Some (Errorf ''%s.branches[%d].transforms must contain at least one transform''
                     [VStr scope, VInt (of_nat b)])
           else case validate_transforms compile (at_index scope ''.branches'' b) 0 ts of
                  Some err \<Rightarrow> Some err
                | None \<Rightarrow> validate_branches compile scope (b + 1) bs))"

fun validate_pipelines :: "regexp_compile \<Rightarrow> nat \<Rightarrow> pipeline_config list \<Rightarrow> gerror option" where
  "validate_pipelines compile idx [] = None"
| "validate_pipelines compile idx (p # ps) =
     (if blank (PipelineName p) then
        Some (Errorf ''transforms.pipelines[%d].name is required'' [VInt (of_nat idx)])
      else if InputTopics p = [] then
        Some (Errorf ''transforms.pipelines[%d].input_topics must contain at least one topic'' [VInt (of_nat idx)])
      else if blank (OutputTopic p) then
        Some (Errorf ''transforms.pipelines[%d].output_topic is required'' [VInt (of_nat idx)])
      else case validate_transforms compile (at_index ''transforms'' ''.pipelines'' idx) 0 (PipelineTransforms p) of
             Some err \<Rightarrow> Some err
           | None \<Rightarrow> validate_pipelines compile (idx + 1) ps)"

text \<open>The first check that fails gives the error.\<close>

fun first_error :: "(bool \<times> string) list \<Rightarrow> gerror option \<Rightarrow> gerror option" where
  "first_error [] rest = rest"
| "first_error ((bad, msg) # cs) rest = (if bad then Some (Errorf msg []) else first_error cs rest)"

definition or_else :: "gerror option \<Rightarrow> gerror option \<Rightarrow> gerror option" where
  "or_else a b = (case a of Some e \<Rightarrow> Some e | None \<Rightarrow> b)"

definition Validate :: "regexp_compile \<Rightarrow> config \<Rightarrow> gerror option" where
  "Validate compile cfg =
    (let s = Service cfg; c = Consumer (Kafka cfg)
     in first_error
      [(blank (ServiceName s), ''service.name is required''),
       (\<not> validLogLevel (LogLevel s),
          ''service.log_level must be one of debug, info, warn, error, dpanic, panic, fatal''),
       (ShutdownTimeout s \<le> 0, ''service.shutdown_timeout must be greater than zero''),
       (MetricsPort s < 0 \<or> MetricsPort s > 65535,
          ''service.metrics_port must be zero (disabled) or in range 1-65535''),
       (HealthPort s < 0 \<or> HealthPort s > 65535,
          ''service.health_port must be zero (disabled) or in range 1-65535''),
       (ConsumerBrokers c = [], ''kafka.consumer.brokers must contain at least one broker''),
       (ProducerBrokers (Producer (Kafka cfg)) = [],
          ''kafka.producer.brokers must contain at least one broker''),
       (ConsumerTopics c = [], ''kafka.consumer.topics must contain at least one topic'')]
      (or_else (parseDurationField (SessionTimeout c) ''kafka.consumer.session_timeout'')
      (or_else (parseDurationField (MaxPollInterval c) ''kafka.consumer.max_poll_interval'')
      (first_error
        [(Pipelines cfg = [], ''transforms.pipelines must declare at least one pipeline'')]
      (or_else (validate_pipelines compile 0 (Pipelines cfg))
      (first_error
        [(blank (Namespace (Metrics cfg)), ''metrics.namespace is required''),
         (blank (Subsystem (Metrics cfg)), ''metrics.subsystem is required'')]
        None))))))"

section \<open>What a valid configuration is\<close>

fun transform_ok :: "regexp_compile \<Rightarrow> transform_descriptor \<Rightarrow> bool"
  and branch_ok :: "regexp_compile \<Rightarrow> branch_descriptor \<Rightarrow> bool" where
  "transform_ok compile (TransformDescriptor t c cond branches) =
     (\<not> blank t \<and> (blank cond \<or> \<not> isl (Parse compile cond)) \<and> list_all (branch_ok compile) branches)"
| "branch_ok compile (BranchDescriptor cond ts) =
     (\<not> blank cond \<and> \<not> isl (Parse compile cond) \<and> ts \<noteq> [] \<and> list_all (transform_ok compile) ts)"

definition pipeline_ok :: "regexp_compile \<Rightarrow> pipeline_config \<Rightarrow> bool" where
  "pipeline_ok compile p =
     (\<not> blank (PipelineName p) \<and> InputTopics p \<noteq> [] \<and> \<not> blank (OutputTopic p) \<and>
      list_all (transform_ok compile) (PipelineTransforms p))"

definition duration_field_ok :: "string \<Rightarrow> bool" where
  "duration_field_ok s = (blank s \<or> parse_duration (trim_space s) \<noteq> None)"

definition config_ok :: "regexp_compile \<Rightarrow> config \<Rightarrow> bool" where
  "config_ok compile cfg =
    (let s = Service cfg; c = Consumer (Kafka cfg)
     in \<not> blank (ServiceName s) \<and> validLogLevel (LogLevel s) \<and> 0 < ShutdownTimeout s \<and>
        0 \<le> MetricsPort s \<and> MetricsPort s \<le> 65535 \<and> 0 \<le> HealthPort s \<and> HealthPort s \<le> 65535 \<and>
        ConsumerBrokers c \<noteq> [] \<and> ProducerBrokers (Producer (Kafka cfg)) \<noteq> [] \<and>
        ConsumerTopics c \<noteq> [] \<and> duration_field_ok (SessionTimeout c) \<and>
        duration_field_ok (MaxPollInterval c) \<and> Pipelines cfg \<noteq> [] \<and>
        list_all (pipeline_ok compile) (Pipelines cfg) \<and>
        \<not> blank (Namespace (Metrics cfg)) \<and> \<not> blank (Subsystem (Metrics cfg)))"

lemma validate_transforms_iff:
  "validate_transforms compile scope i ds = None \<longleftrightarrow> list_all (transform_ok compile) ds"
  "validate_branches compile scope b bs = None \<longleftrightarrow> list_all (branch_ok compile) bs"
proof (induction compile scope i ds and compile scope b bs rule: validate_transforms_validate_branches.induct)
  case (2 compile scope i t c cond branches ds)
  then show ?case
    by (cases "blank cond"; cases "Parse compile cond";
        cases "validate_branches compile (at_index scope ''.transforms'' i) 0 branches") auto
next
  case (4 compile scope b cond ts bs)
  then show ?case
    by (cases "Parse compile cond"; cases "validate_transforms compile (at_index scope ''.branches'' b) 0 ts")
       auto
qed simp_all

lemma validate_pipelines_iff:
  "validate_pipelines compile i ps = None \<longleftrightarrow> list_all (pipeline_ok compile) ps"
proof (induction compile i ps rule: validate_pipelines.induct)
  case (2 compile idx p ps)
  then show ?case
    using validate_transforms_iff(1) [of compile "at_index ''transforms'' ''.pipelines'' idx" 0
        "PipelineTransforms p"]
    by (cases "validate_transforms compile (at_index ''transforms'' ''.pipelines'' idx) 0 (PipelineTransforms p)")
       (auto simp: pipeline_ok_def)
qed simp

lemma parseDurationField_iff: "parseDurationField s n = None \<longleftrightarrow> duration_field_ok s"
  by (auto simp: parseDurationField_def duration_field_ok_def blank_def ParseDuration_def Let_def
      split: option.split)

lemma first_error_None: "first_error cs rest = None \<longleftrightarrow> (\<forall>c \<in> set cs. \<not> fst c) \<and> rest = None"
  by (induction cs rest rule: first_error.induct) simp_all

lemma or_else_None [simp]: "or_else a b = None \<longleftrightarrow> a = None \<and> b = None"
  by (simp add: or_else_def split: option.split)

section \<open>The overrides one by one\<close>

definition env_string :: "(string \<Rightarrow> string option) \<Rightarrow> string \<Rightarrow> string \<Rightarrow> string" where
  "env_string env key old =
     (case env key of None \<Rightarrow> old | Some raw \<Rightarrow> if blank raw then old else trim_space raw)"

definition env_list :: "(string \<Rightarrow> string option) \<Rightarrow> string \<Rightarrow> string list \<Rightarrow> string list" where
  "env_list env key old =
     (case env key of None \<Rightarrow> old | Some raw \<Rightarrow> if blank raw then old else parseCSV (trim_space raw))"

definition env_number :: "(string \<Rightarrow> int option) \<Rightarrow> (string \<Rightarrow> string option) \<Rightarrow> string \<Rightarrow> int \<Rightarrow> int option" where
  "env_number parse env key old =
     (case env key of None \<Rightarrow> Some old | Some raw \<Rightarrow> if blank raw then Some old else parse (trim_space raw))"

text \<open>One step of the loop succeeds when its override does.\<close>

lemma apply_overrides_step:
  "apply_overrides env ((key, app) # os) cfg = (cfg', None) \<longleftrightarrow>
     (\<exists>mid. (case env key of None \<Rightarrow> Inr cfg | Some raw \<Rightarrow> unless_empty app cfg (trim_space raw)) = Inr mid \<and>
        apply_overrides env os mid = (cfg', None))"
  by (auto split: option.splits sum.splits)

definition step :: "(string \<Rightarrow> string option) \<Rightarrow> string \<Rightarrow> (config \<Rightarrow> string \<Rightarrow> gerror + config) \<Rightarrow> config \<Rightarrow> gerror + config" where
  "step env key app cfg =
     (case env key of None \<Rightarrow> Inr cfg | Some raw \<Rightarrow> unless_empty app cfg (trim_space raw))"

lemma apply_overrides_Cons:
  "apply_overrides env ((key, app) # os) cfg = (cfg', None) \<longleftrightarrow>
     (\<exists>mid. step env key app cfg = Inr mid \<and> apply_overrides env os mid = (cfg', None))"
  unfolding step_def by (rule apply_overrides_step)

lemma step_string:
  "step env key (\<lambda>cfg raw. Inr (set_service (\<lambda>s. s\<lparr>ServiceName := raw\<rparr>) cfg)) cfg =
     Inr (set_service (\<lambda>s. s\<lparr>ServiceName := env_string env key (ServiceName s)\<rparr>) cfg)"
  "step env key (\<lambda>cfg raw. Inr (set_service (\<lambda>s. s\<lparr>LogLevel := raw\<rparr>) cfg)) cfg =
     Inr (set_service (\<lambda>s. s\<lparr>LogLevel := env_string env key (LogLevel s)\<rparr>) cfg)"
  "step env key (\<lambda>cfg raw. Inr (set_consumer (\<lambda>c. c\<lparr>GroupID := raw\<rparr>) cfg)) cfg =
     Inr (set_consumer (\<lambda>s. s\<lparr>GroupID := env_string env key (GroupID s)\<rparr>) cfg)"
  "step env key (\<lambda>cfg raw. Inr (set_metrics (\<lambda>m. m\<lparr>Namespace := raw\<rparr>) cfg)) cfg =
     Inr (set_metrics (\<lambda>s. s\<lparr>Namespace := env_string env key (Namespace s)\<rparr>) cfg)"
  "step env key (\<lambda>cfg raw. Inr (set_metrics (\<lambda>m. m\<lparr>Subsystem := raw\<rparr>) cfg)) cfg =
     Inr (set_metrics (\<lambda>s. s\<lparr>Subsystem := env_string env key (Subsystem s)\<rparr>) cfg)"
  by (simp_all add: step_def unless_empty_def env_string_def blank_def set_service_def
      set_consumer_def set_metrics_def split: option.split)

lemma step_list:
  "step env key (\<lambda>cfg raw. Inr (set_consumer (\<lambda>c. c\<lparr>ConsumerBrokers := parseCSV raw\<rparr>) cfg)) cfg =
     Inr (set_consumer (\<lambda>s. s\<lparr>ConsumerBrokers := env_list env key (ConsumerBrokers s)\<rparr>) cfg)"
  "step env key (\<lambda>cfg raw. Inr (set_consumer (\<lambda>c. c\<lparr>ConsumerTopics := parseCSV raw\<rparr>) cfg)) cfg =
     Inr (set_consumer (\<lambda>s. s\<lparr>ConsumerTopics := env_list env key (ConsumerTopics s)\<rparr>) cfg)"
  "step env key (\<lambda>cfg raw. Inr (set_producer (\<lambda>p. p\<lparr>ProducerBrokers := parseCSV raw\<rparr>) cfg)) cfg =
     Inr (set_producer (\<lambda>s. s\<lparr>ProducerBrokers := env_list env key (ProducerBrokers s)\<rparr>) cfg)"
  by (simp_all add: step_def unless_empty_def env_list_def blank_def set_consumer_def
      set_producer_def split: option.split)

lemma step_number:
  "step env key (\<lambda>cfg. with_port msg (\<lambda>p. set_service (\<lambda>s. s\<lparr>MetricsPort := p\<rparr>) cfg)) cfg = Inr mid \<longleftrightarrow>
     (\<exists>p. env_number atoi env key (MetricsPort (Service cfg)) = Some p \<and>
          mid = set_service (\<lambda>s. s\<lparr>MetricsPort := p\<rparr>) cfg)"
  "step env key (\<lambda>cfg. with_port msg (\<lambda>p. set_service (\<lambda>s. s\<lparr>HealthPort := p\<rparr>) cfg)) cfg = Inr mid \<longleftrightarrow>
     (\<exists>p. env_number atoi env key (HealthPort (Service cfg)) = Some p \<and>
          mid = set_service (\<lambda>s. s\<lparr>HealthPort := p\<rparr>) cfg)"
  "step env key (\<lambda>cfg raw. case ParseDuration raw of
          Inl e \<Rightarrow> Inl (wrap_err msg [] e)
        | Inr d \<Rightarrow> Inr (set_service (\<lambda>s. s\<lparr>ShutdownTimeout := d\<rparr>) cfg)) cfg = Inr mid \<longleftrightarrow>
     (\<exists>d. env_number parse_duration env key (ShutdownTimeout (Service cfg)) = Some d \<and>
          mid = set_service (\<lambda>s. s\<lparr>ShutdownTimeout := d\<rparr>) cfg)"
  by (auto simp: step_def unless_empty_def env_number_def with_port_def blank_def ParseDuration_def
      set_service_def split: option.split)

lemma overrides_result:
  assumes "ApplyEnvOverrides env cfg = (cfg', None)"
  shows "\<exists>mp hp d.
    env_number atoi env ''TRANSFORM_SERVICE_METRICS_PORT'' (MetricsPort (Service cfg)) = Some mp \<and>
    env_number atoi env ''TRANSFORM_SERVICE_HEALTH_PORT'' (HealthPort (Service cfg)) = Some hp \<and>
    env_number parse_duration env ''TRANSFORM_SERVICE_SHUTDOWN_TIMEOUT'' (ShutdownTimeout (Service cfg)) = Some d \<and>
    cfg' = cfg
     \<lparr>Service := Service cfg
        \<lparr>ServiceName := env_string env ''TRANSFORM_SERVICE_NAME'' (ServiceName (Service cfg)),
         LogLevel := env_string env ''TRANSFORM_SERVICE_LOG_LEVEL'' (LogLevel (Service cfg)),
         MetricsPort := mp, HealthPort := hp, ShutdownTimeout := d\<rparr>,
      Kafka := Kafka cfg
        \<lparr>Consumer := Consumer (Kafka cfg)
           \<lparr>ConsumerBrokers := env_list env ''TRANSFORM_KAFKA_CONSUMER_BROKERS'' (ConsumerBrokers (Consumer (Kafka cfg))),
            GroupID := env_string env ''TRANSFORM_KAFKA_CONSUMER_GROUP_ID'' (GroupID (Consumer (Kafka cfg))),
            ConsumerTopics := env_list env ''TRANSFORM_KAFKA_CONSUMER_TOPICS'' (ConsumerTopics (Consumer (Kafka cfg)))\<rparr>,
         Producer := Producer (Kafka cfg)
           \<lparr>ProducerBrokers := env_list env ''TRANSFORM_KAFKA_PRODUCER_BROKERS'' (ProducerBrokers (Producer (Kafka cfg)))\<rparr>\<rparr>,
      Metrics := Metrics cfg
        \<lparr>Namespace := env_string env ''TRANSFORM_METRICS_NAMESPACE'' (Namespace (Metrics cfg)),
         Subsystem := env_string env ''TRANSFORM_METRICS_SUBSYSTEM'' (Subsystem (Metrics cfg))\<rparr>\<rparr>"
  using assms
  by (simp only: ApplyEnvOverrides_def env_overrides_def apply_overrides_Cons step_string step_list
      step_number apply_overrides.simps(1) sum.inject prod.inject ex_simps simp_thms)
     (auto simp: set_service_def set_consumer_def set_producer_def set_metrics_def)

section \<open>Properties\<close>

text \<open>C13: \<open>Validate\<close> accepts exactly the configurations that satisfy every documented constraint,
  the conditions of nested branches at any depth included.\<close>

theorem Validate_iff: "Validate compile cfg = None \<longleftrightarrow> config_ok compile cfg"
  by (auto simp: Validate_def config_ok_def Let_def first_error_None validate_pipelines_iff
      parseDurationField_iff not_less not_le)

lemma default_to_simps [simp]:
  "d \<noteq> z \<Longrightarrow> default_to z d x \<noteq> z"
  "default_to z d (default_to z d x) = default_to z d x"
  by (simp_all add: default_to_def)

lemma applyDefaults_sets:
  "ServiceName (Service (applyDefaults cfg)) \<noteq> [] \<and> LogLevel (Service (applyDefaults cfg)) \<noteq> [] \<and>
   ShutdownTimeout (Service (applyDefaults cfg)) \<noteq> 0 \<and> Namespace (Metrics (applyDefaults cfg)) \<noteq> [] \<and>
   Subsystem (Metrics (applyDefaults cfg)) \<noteq> [] \<and> Buckets (Metrics (applyDefaults cfg)) \<noteq> None \<and>
   Kafka (applyDefaults cfg) = Kafka cfg \<and> Pipelines (applyDefaults cfg) = Pipelines cfg \<and>
   Enrichment (applyDefaults cfg) = Enrichment cfg"
  using default_to_simps(1) [of "Some fmempty" None "Buckets (Metrics cfg)"]
  by (simp add: applyDefaults_def)

lemma applyDefaults_idem: "applyDefaults (applyDefaults cfg) = applyDefaults cfg"
  by (simp add: applyDefaults_def)

text \<open>A configuration that loads has a name, a log level and a non-zero timeout, the metrics
  names and a bucket map, and differs from what the decoder gave only where that was empty.\<close>

theorem LoadConfig_defaults:
  assumes "LoadConfig env read_file json yaml path = Inr cfg"
  shows "ServiceName (Service cfg) \<noteq> [] \<and> LogLevel (Service cfg) \<noteq> [] \<and>
    ShutdownTimeout (Service cfg) \<noteq> 0 \<and> Namespace (Metrics cfg) \<noteq> [] \<and>
    Subsystem (Metrics cfg) \<noteq> [] \<and> Buckets (Metrics cfg) \<noteq> None \<and> applyDefaults cfg = cfg \<and>
    (\<exists>data raw. read_file (config_path env path) = Inr data \<and> (json data = Inr raw \<or> yaml data = Inr raw) \<and>
       Kafka cfg = Kafka raw \<and> Pipelines cfg = Pipelines raw \<and> Enrichment cfg = Enrichment raw)"
proof -
  obtain data raw where r: "read_file (config_path env path) = Inr data"
      "json data = Inr raw \<or> yaml data = Inr raw" "cfg = applyDefaults raw"
    using assms
    by (auto simp: LoadConfig_def bind_res_Inr_iff unmarshalConfig_def Let_def
        split: sum.splits if_splits)
  with applyDefaults_sets [of raw] applyDefaults_idem [of raw] show ?thesis by blast
qed

definition sample_config :: config where
  "sample_config =
     \<lparr>Service = \<lparr>ServiceName = [], LogLevel = [], MetricsPort = 9090, HealthPort = 8080, ShutdownTimeout = 0\<rparr>,
      Kafka = \<lparr>Consumer = \<lparr>ConsumerBrokers = [''b''], GroupID = ''g'', ConsumerTopics = [''in''],
                   SessionTimeout = ''30s'', MaxPollInterval = [], AutoOffsetReset = [],
                   EnableAutoCommit = False, FetchMaxRecords = 0, PollIntervalMs = 0\<rparr>,
              Producer = \<lparr>ProducerBrokers = [''b''], Compression = [], Idempotent = False, MaxInFlight = 0,
                   BatchSize = 0, LingerMs = 0, Acks = []\<rparr>\<rparr>,
      Pipelines = [\<lparr>PipelineName = ''p'', InputTopics = [''in''], OutputTopic = ''out'', DLQTopic = [],
        PipelineTransforms = [TransformDescriptor ''field.add'' VNil ''a > 3'' []]\<rparr>],
      Enrichment = \<lparr>Redis = None,
        HTTP = \<lparr>DefaultTimeout = [], HTTPMaxIdleConns = 0, MaxConnsPerHost = 0, MaxResponseSize = 0\<rparr>,
        Postgres = \<lparr>PostgresURL = [], MaxOpenConns = 0, PostgresMaxIdleConns = 0, ConnMaxLifetime = 0,
                    QueryTimeout = 0\<rparr>\<rparr>,
      Metrics = \<lparr>Namespace = [], Subsystem = [], Buckets = None\<rparr>\<rparr>"

theorem LoadConfig_defaults_witness:
  "ServiceName (Service (applyDefaults sample_config)) \<noteq> []"
proof -
  have "LoadConfig (\<lambda>_. None) (\<lambda>_. Inr []) (\<lambda>_. Inl ErrDrop) (\<lambda>_. Inr sample_config) ''c.yaml'' =
      Inr (applyDefaults sample_config)"
    by code_simp
  from LoadConfig_defaults [OF this] show ?thesis by simp
qed

text \<open>When the overrides succeed, exactly the eleven documented settings are affected, each one
  only if its variable is set and not blank; a list is the trimmed non-empty parts of the value.\<close>

theorem ApplyEnvOverrides_result:
  assumes "ApplyEnvOverrides env cfg = (cfg', None)"
  shows "\<exists>mp hp d.
    env_number atoi env ''TRANSFORM_SERVICE_METRICS_PORT'' (MetricsPort (Service cfg)) = Some mp \<and>
    env_number atoi env ''TRANSFORM_SERVICE_HEALTH_PORT'' (HealthPort (Service cfg)) = Some hp \<and>
    env_number parse_duration env ''TRANSFORM_SERVICE_SHUTDOWN_TIMEOUT'' (ShutdownTimeout (Service cfg)) = Some d \<and>
    cfg' = cfg
     \<lparr>Service := Service cfg
        \<lparr>ServiceName := env_string env ''TRANSFORM_SERVICE_NAME'' (ServiceName (Service cfg)),
         LogLevel := env_string env ''TRANSFORM_SERVICE_LOG_LEVEL'' (LogLevel (Service cfg)),
         MetricsPort := mp, HealthPort := hp, ShutdownTimeout := d\<rparr>,
      Kafka := Kafka cfg
        \<lparr>Consumer := Consumer (Kafka cfg)
           \<lparr>ConsumerBrokers := env_list env ''TRANSFORM_KAFKA_CONSUMER_BROKERS'' (ConsumerBrokers (Consumer (Kafka cfg))),
            GroupID := env_string env ''TRANSFORM_KAFKA_CONSUMER_GROUP_ID'' (GroupID (Consumer (Kafka cfg))),
            ConsumerTopics := env_list env ''TRANSFORM_KAFKA_CONSUMER_TOPICS'' (ConsumerTopics (Consumer (Kafka cfg)))\<rparr>,
         Producer := Producer (Kafka cfg)
           \<lparr>ProducerBrokers := env_list env ''TRANSFORM_KAFKA_PRODUCER_BROKERS'' (ProducerBrokers (Producer (Kafka cfg)))\<rparr>\<rparr>,
      Metrics := Metrics cfg
        \<lparr>Namespace := env_string env ''TRANSFORM_METRICS_NAMESPACE'' (Namespace (Metrics cfg)),
         Subsystem := env_string env ''TRANSFORM_METRICS_SUBSYSTEM'' (Subsystem (Metrics cfg))\<rparr>\<rparr>"
  using assms by (rule overrides_result)

theorem ApplyEnvOverrides_result_witness:
  "\<exists>mp. env_number atoi (\<lambda>k. if k = ''TRANSFORM_SERVICE_METRICS_PORT'' then Some ''9'' else None)
     ''TRANSFORM_SERVICE_METRICS_PORT'' 9090 = Some mp"
proof -
  let ?env = "\<lambda>k. if k = ''TRANSFORM_SERVICE_METRICS_PORT'' then Some ''9'' else None"
  have "ApplyEnvOverrides ?env sample_config =
      (set_service (MetricsPort_update (\<lambda>_. 9)) sample_config, None)"
    by code_simp
  from ApplyEnvOverrides_result [OF this] show ?thesis by (auto simp: sample_config_def)
qed

end
