(* ===== verification/Transform.thy ===== *)
theory Transform
  imports Config
begin

text \<open>
  \<open>internal/transform\<close>: the interface of transforms with its adapters (\<open>transform.go\<close>), the
  registry of factories (\<open>registry.go\<close>) and the pipeline that runs a list of transforms
  (\<open>pipeline.go\<close>). The registry is a locale with its own interpretation; the locale
  \<open>envelope_transform\<close> is the contract of the transforms that touch the payload only.
\<close>

section \<open>Data\<close>

text \<open>
  What \<open>Execute\<close> receives and returns as \<open>interface{}\<close>: nothing, one event, a slice of events, or
  a value of another type.
\<close>

datatype item = INil | IEvent event | IEvents "event list" | IValue gval

text \<open>
  A transform: its name and its \<open>Execute\<close>, which may change the state \<open>'s\<close> that transforms keep
  between events (windows, counts, caches).
\<close>

record 's transform =
  Name :: string
  Exec :: "'s \<Rightarrow> item \<Rightarrow> 's \<times> (gerror + item)"

text \<open>An operation without state as a transform\<close>

definition pure_transform :: "string \<Rightarrow> (item \<Rightarrow> gerror + item) \<Rightarrow> 's transform" where
  "pure_transform n f = \<lparr>Name = n, Exec = (\<lambda>s e. (s, f e))\<rparr>"

text \<open>
  The factory every package registers in its \<open>init\<close>: configure a new transform, give it back when
  that succeeds.
\<close>

definition pure_factory ::
  "string \<Rightarrow> (string \<Rightarrow> gerror + 'c) \<Rightarrow> ('c \<Rightarrow> item \<Rightarrow> gerror + item) \<Rightarrow> string \<Rightarrow> gerror + 's transform" where
  "pure_factory n configure execute raw =
     bind_res (configure raw) (\<lambda>cfg. Inr (pure_transform n (execute cfg)))"

section \<open>Adapters\<close>

text \<open>\<open>NewFunc\<close>: \<open>None\<close> stands for a nil function\<close>

definition NewFunc :: "string \<Rightarrow> ('s \<Rightarrow> item \<Rightarrow> 's \<times> (gerror + item)) option \<Rightarrow> gerror + 's transform" where
  "NewFunc name fn =
     (case fn of
        None \<Rightarrow> Inl (ErrPanic ''transform: fn cannot be nil'')
      | Some f \<Rightarrow>
          if name = [] then Inl (ErrPanic ''transform: name cannot be empty'')
          else Inr \<lparr>Name = name, Exec = f\<rparr>)"

text \<open>
  \<open>GenericToInterfaceAdapter.Execute\<close>: \<open>cast\<close> is the assertion \<open>e.(T)\<close> and \<open>box\<close> the
  conversion of a \<open>T\<close> back to an interface value.
\<close>

definition generic_execute ::
  "(item \<Rightarrow> 't option) \<Rightarrow> ('t \<Rightarrow> item) \<Rightarrow> string \<Rightarrow> ('s \<Rightarrow> 't \<Rightarrow> 's \<times> (gerror + 't)) \<Rightarrow>
   's \<Rightarrow> item \<Rightarrow> 's \<times> (gerror + item)" where
  "generic_execute cast box name inner s e =
     (case cast e of
        None \<Rightarrow> (s, Inl (Errorf ''transform: unexpected payload type for %s'' [VStr name]))
      | Some te \<Rightarrow>
          (case inner s te of
             (s', Inl err) \<Rightarrow> (s', Inl err)
           | (s', Inr out) \<Rightarrow> (s', Inr (box out))))"

definition NewGenericFunc ::
  "(item \<Rightarrow> 't option) \<Rightarrow> ('t \<Rightarrow> item) \<Rightarrow> string \<Rightarrow> ('s \<Rightarrow> 't \<Rightarrow> 's \<times> (gerror + 't)) option \<Rightarrow>
   gerror + 's transform" where
  "NewGenericFunc cast box name fn =
     (case fn of
        None \<Rightarrow> Inl (ErrPanic ''transform: fn cannot be nil'')
      | Some f \<Rightarrow>
          if name = [] then Inl (ErrPanic ''transform: name cannot be empty'')
          else Inr \<lparr>Name = name, Exec = generic_execute cast box name f\<rparr>)"

section \<open>The registry\<close>

type_synonym 's factory = "string \<Rightarrow> gerror + 's transform"
type_synonym 's registry = "(string, 's factory) fmap"

definition Register :: "string \<Rightarrow> 's factory \<Rightarrow> 's registry \<Rightarrow> 's registry" where
  "Register name f r = fmupd name f r"

definition Create :: "'s registry \<Rightarrow> string \<Rightarrow> string \<Rightarrow> gerror + 's transform" where
  "Create r name cfg =
     (case fmlookup r name of
        None \<Rightarrow> Inl (Wrapf ''%w: %s'' [VStr name] ErrUnknownTransform)
      | Some f \<Rightarrow> f cfg)"

definition Registered :: "'s registry \<Rightarrow> string list" where
  "Registered r = sorted_list_of_fset (fmdom r)"

definition Unregister :: "string \<Rightarrow> 's registry \<Rightarrow> 's registry \<times> bool" where
  "Unregister name r =
     (case fmlookup r name of
        None \<Rightarrow> (r, False)
      | Some _ \<Rightarrow> (fmdrop name r, True))"

text \<open>
  The contract of a registry of named factories, for its users: what \<open>create\<close> gives after the two
  updates, and which names are listed.
\<close>

locale factory_registry =
  fixes register :: "string \<Rightarrow> ('c \<Rightarrow> gerror + 't) \<Rightarrow> 'r \<Rightarrow> 'r"
    and create :: "'r \<Rightarrow> string \<Rightarrow> 'c \<Rightarrow> gerror + 't"
    and unregister :: "string \<Rightarrow> 'r \<Rightarrow> 'r \<times> bool"
    and names :: "'r \<Rightarrow> string list"
  assumes create_register: "create (register n f r) m c = (if m = n then f c else create r m c)"
    and create_unregister:
      "m \<noteq> n \<Longrightarrow> create (fst (unregister n r)) m c = create r m c"
    and create_unknown:
      "n \<notin> set (names r) \<Longrightarrow> \<exists>e. create r n c = Inl e \<and> error_is e ErrUnknownTransform"
    and names_register: "set (names (register n f r)) = insert n (set (names r))"
    and names_unregister: "set (names (fst (unregister n r))) = set (names r) - {n}"
    and unregister_result: "snd (unregister n r) = (n \<in> set (names r))"
    and names_order: "sorted (names r) \<and> distinct (names r)"
begin

lemma create_register_last: "create (register n f (register n g r)) n c = f c"
  by (simp add: create_register)

lemma create_register_commute:
  "n \<noteq> m \<Longrightarrow> create (register n f (register m g r)) = create (register m g (register n f r))"
  by (intro ext) (simp add: create_register)

lemma names_eqI: "set (names r) = set (names r') \<Longrightarrow> names r = names r'"
  using names_order by (blast intro: sorted_distinct_set_unique)

lemma names_register_again: "n \<in> set (names r) \<Longrightarrow> names (register n f r) = names r"
  by (rule names_eqI) (auto simp: names_register)

lemma names_unregister_register:
  "n \<notin> set (names r) \<Longrightarrow> names (fst (unregister n (register n f r))) = names r"
  by (rule names_eqI) (auto simp: names_register names_unregister)

lemma create_unregistered:
  "\<exists>e. create (fst (unregister n r)) n c = Inl e \<and> error_is e ErrUnknownTransform"
  by (rule create_unknown) (simp add: names_unregister)

lemma unregister_twice: "snd (unregister n (fst (unregister n r))) = False"
  by (simp add: unregister_result names_unregister)

end

lemma set_Registered [simp]: "set (Registered r) = fset (fmdom r)"
  by (simp add: Registered_def)

interpretation reg: factory_registry Register Create Unregister Registered
proof
  show "sorted (Registered r) \<and> distinct (Registered r)" for r :: "'a registry"
    by (simp add: Registered_def sorted_list_of_fset.rep_eq)
qed (auto simp: Register_def Create_def Unregister_def fmlookup_dom_iff
     split: option.splits intro: fmdom_notD fmdom_notI)

section \<open>The pipeline\<close>

record 's pipeline =
  pipeline_id :: string
  pipeline_transforms :: "'s transform list"

text \<open>The loop over the descriptors; \<open>marshal\<close> is \<open>json.Marshal\<close>\<close>

fun create_all ::
  "(gval \<Rightarrow> gerror + string) \<Rightarrow> 's registry \<Rightarrow> nat \<Rightarrow> transform_descriptor list \<Rightarrow>
   gerror + 's transform list" where
  "create_all marshal r i [] = Inr []"
| "create_all marshal r i (d # ds) =
     (case marshal (DescConfig d) of
        Inl err \<Rightarrow> Inl (wrap_err ''descriptor[%d]: failed to marshal config: %w'' [VInt (of_nat i)] err)
      | Inr cfgBytes \<Rightarrow>
          (case Create r (DescType d) cfgBytes of
             Inl err \<Rightarrow> Inl (wrap_err ''descriptor[%d]: %w'' [VInt (of_nat i)] err)
           | Inr tr \<Rightarrow> bind_res (create_all marshal r (i + 1) ds) (\<lambda>trs. Inr (tr # trs))))"

definition NewPipeline ::
  "(gval \<Rightarrow> gerror + string) \<Rightarrow> 's registry \<Rightarrow> string \<Rightarrow> transform_descriptor list \<Rightarrow>
   gerror + 's pipeline" where
  "NewPipeline marshal r pid descriptors =
     (if pid = [] then Inl (Errorf ''id must be non-empty'' [])
      else if descriptors = [] then Inl (Errorf ''descriptors must be provided'' [])
      else bind_res (create_all marshal r 0 descriptors)
             (\<lambda>trs. Inr \<lparr>pipeline_id = pid, pipeline_transforms = trs\<rparr>))"

text \<open>
  The loop of \<open>Pipeline.Execute\<close> from the transform with index \<open>idx\<close>; \<open>ctx idx\<close> is what
  \<open>ctx.Err()\<close> answers before that transform.
\<close>

fun run_transforms ::
  "(nat \<Rightarrow> gerror option) \<Rightarrow> nat \<Rightarrow> 's transform list \<Rightarrow> 's \<Rightarrow> item \<Rightarrow> 's \<times> (gerror + item)" where
  "run_transforms ctx idx [] s e = (s, Inr e)"
| "run_transforms ctx idx (tr # trs) s e =
     (case ctx idx of
        Some err \<Rightarrow> (s, Inl err)
      | None \<Rightarrow>
          (case Exec tr s e of
             (s', Inl err) \<Rightarrow>
               (if error_is err ErrDrop then (s', Inl ErrDrop)
                else (s', Inl (wrap_err ''transform %s failed: %w'' [VStr (Name tr)] err)))
           | (s', Inr out) \<Rightarrow>
               (case out of
                  INil \<Rightarrow> (s', Inl ErrDrop)
                | IEvent result \<Rightarrow> run_transforms ctx (idx + 1) trs s' (IEvent result)
                | IEvents result \<Rightarrow>
                    (if length result = 0 then (s', Inl ErrDrop)
                     else run_transforms ctx (idx + 1) trs s' (IEvents result))
                | IValue result \<Rightarrow> run_transforms ctx (idx + 1) trs s' (IValue result))))"

definition clone_item :: "item \<Rightarrow> item" where
  "clone_item e = (case e of IEvent ev \<Rightarrow> IEvent (Clone ev) | _ \<Rightarrow> e)"

definition Execute ::
  "'s pipeline \<Rightarrow> (nat \<Rightarrow> gerror option) \<Rightarrow> 's \<Rightarrow> item \<Rightarrow> 's \<times> (gerror + item)" where
  "Execute p ctx s e = run_transforms ctx 0 (pipeline_transforms p) s (clone_item e)"

lemma clone_item_id [simp]: "clone_item e = e"
  by (simp add: clone_item_def split: item.split)

text \<open>An output the loop goes on with\<close>

definition item_live :: "item \<Rightarrow> bool" where
  "item_live x = (x \<noteq> INil \<and> x \<noteq> IEvents [])"

lemma run_transforms_step:
  "run_transforms ctx idx (tr # trs) s e =
     (case ctx idx of
        Some err \<Rightarrow> (s, Inl err)
      | None \<Rightarrow>
          (case Exec tr s e of
             (s', Inl err) \<Rightarrow>
               (s', Inl (if error_is err ErrDrop then ErrDrop
                         else wrap_err ''transform %s failed: %w'' [VStr (Name tr)] err))
           | (s', Inr out) \<Rightarrow>
               (if item_live out then run_transforms ctx (idx + 1) trs s' out else (s', Inl ErrDrop))))"
  by (auto simp: item_live_def split: option.split prod.split sum.split item.split)

declare run_transforms.simps(2) [simp del]

lemma run_transforms_append:
  "run_transforms ctx i (ts @ us) s e =
     (case run_transforms ctx i ts s e of
        (s', Inl err) \<Rightarrow> (s', Inl err)
      | (s', Inr x) \<Rightarrow> run_transforms ctx (i + length ts) us s' x)"
proof (induction ts arbitrary: i s e)
  case (Cons t ts)
  then show ?case
    by (simp add: run_transforms_step split: option.split prod.split sum.split)
qed simp

lemma run_transforms_shift:
  "run_transforms (\<lambda>i. ctx (i + k)) i us s x = run_transforms ctx (i + k) us s x"
  by (induction us arbitrary: i s x)
     (simp_all add: run_transforms_step split: option.split prod.split sum.split)

lemma run_transforms_live:
  "run_transforms ctx i ts s e = (s', Inr x) \<Longrightarrow> item_live e \<Longrightarrow> item_live x"
  by (induction ts arbitrary: i s e)
     (auto simp: run_transforms_step split: option.splits prod.splits sum.splits if_splits)

lemma run_transforms_error:
  "run_transforms ctx i ts s e = (s', Inl err) \<Longrightarrow>
     err = ErrDrop \<or> (\<exists>j. i \<le> j \<and> j < i + length ts \<and> ctx j = Some err) \<or>
     (\<exists>tr \<in> set ts. \<exists>t u c. Exec tr t u = (s', Inl c) \<and> \<not> error_is c ErrDrop \<and>
        err = wrap_err ''transform %s failed: %w'' [VStr (Name tr)] c)"
proof (induction ts arbitrary: i s e)
  case (Cons t ts)
  show ?case
  proof (cases "ctx i")
    case None
    obtain s1 r where ex: "Exec t s e = (s1, r)" by fastforce
    show ?thesis
    proof (cases r)
      case (Inl c)
      with Cons.prems None ex have "s' = s1"
          and "err = (if error_is c ErrDrop then ErrDrop
                      else wrap_err ''transform %s failed: %w'' [VStr (Name t)] c)"
        by (simp_all add: run_transforms_step)
      with ex Inl show ?thesis by (metis list.set_intros(1))
    next
      case (Inr out)
      show ?thesis
      proof (cases "item_live out")
        case True
        with Cons.prems None ex Inr have "run_transforms ctx (i + 1) ts s1 out = (s', Inl err)"
          by (simp add: run_transforms_step)
        from Cons.IH [OF this] consider "err = ErrDrop"
          | j where "i + 1 \<le> j" and "j < i + 1 + length ts" and "ctx j = Some err"
          | tr u x c where "tr \<in> set ts" and "Exec tr u x = (s', Inl c)" and "\<not> error_is c ErrDrop"
              and "err = wrap_err ''transform %s failed: %w'' [VStr (Name tr)] c"
          by blast
        then show ?thesis
        proof cases
          case 2
          then have "i \<le> j" and "j < i + length (t # ts)" by simp_all
          with 2(3) show ?thesis by blast
        qed (simp, metis list.set_intros(2))
      next
        case False
        with Cons.prems None ex Inr show ?thesis by (simp add: run_transforms_step)
      qed
    qed
  next
    case (Some x)
    with Cons.prems have "ctx i = Some err" by (simp add: run_transforms_step)
    then show ?thesis by force
  qed
qed simp

lemma create_all_iff:
  "create_all m r i ds = Inr trs \<longleftrightarrow>
     list_all2 (\<lambda>d tr. \<exists>cfg. m (DescConfig d) = Inr cfg \<and> Create r (DescType d) cfg = Inr tr) ds trs"
  by (induction ds arbitrary: i trs) (auto simp: bind_res_Inr_iff list_all2_Cons1 split: sum.splits)

section \<open>Transforms of one event\<close>

text \<open>
  Every transform of the repository accepts an event only. Apart from the aggregates, the events it
  returns have the metadata and the timestamp of the event it was given, and most transforms keep
  its headers too.
\<close>

definition item_events :: "item \<Rightarrow> event list" where
  "item_events x = (case x of IEvent ev \<Rightarrow> [ev] | IEvents evs \<Rightarrow> evs | _ \<Rightarrow> [])"

lemma item_events_simps [simp]:
  "item_events INil = []" "item_events (IEvent ev) = [ev]" "item_events (IEvents evs) = evs"
  "item_events (IValue v) = []"
  by (simp_all add: item_events_def)

definition same_origin :: "event \<Rightarrow> event \<Rightarrow> bool" where
  "same_origin a b \<longleftrightarrow> Metadata a = Metadata b \<and> Timestamp a = Timestamp b"

lemma same_origin_refl [simp]: "same_origin a a"
  by (simp add: same_origin_def)

lemma same_origin_trans: "same_origin a b \<Longrightarrow> same_origin b c \<Longrightarrow> same_origin a c"
  by (simp add: same_origin_def)

lemma same_origin_edit [simp]:
  "same_origin (SetField a p v) b = same_origin a b"
  "same_origin (RemoveField a p) b = same_origin a b"
  "same_origin (a\<lparr>Payload := m\<rparr>) b = same_origin a b"
  "same_origin (a\<lparr>Headers := h\<rparr>) b = same_origin a b"
  by (simp_all add: same_origin_def go_frame)

locale event_transform =
  fixes exec :: "item \<Rightarrow> gerror + item"
  assumes rejects: "\<forall>ev. x \<noteq> IEvent ev \<Longrightarrow> \<exists>err. exec x = Inl err \<and> \<not> error_is err ErrDrop"
    and origin: "exec (IEvent ev) = Inr out \<Longrightarrow> ev' \<in> set (item_events out) \<Longrightarrow> same_origin ev' ev"
begin

lemma output_of_event: "exec x = Inr out \<Longrightarrow> \<exists>ev. x = IEvent ev"
  using rejects [of x] by force

lemma rejects_events: "\<exists>err. exec (IEvents evs) = Inl err \<and> \<not> error_is err ErrDrop"
  by (rule rejects) simp

end

locale envelope_transform = event_transform +
  assumes headers: "exec (IEvent ev) = Inr out \<Longrightarrow> ev' \<in> set (item_events out) \<Longrightarrow>
    Headers ev' = Headers ev"

text \<open>A relation to the given event that every stateless transform keeps is kept by the pipeline.\<close>

lemma pipeline_keeps:
  assumes "\<forall>tr \<in> set trs. \<exists>f. (\<forall>s x. Exec tr s x = (s, f x)) \<and> event_transform f \<and>
      (\<forall>ev out ev'. f (IEvent ev) = Inr out \<longrightarrow> ev' \<in> set (item_events out) \<longrightarrow> R ev' ev)"
    and "transp R"
    and "run_transforms ctx i trs s x = (s', Inr out)"
    and "\<forall>ev' \<in> set (item_events x). R ev' ev"
  shows "\<forall>ev' \<in> set (item_events out). R ev' ev"
  using assms
proof (induction trs arbitrary: i s x)
  case (Cons tr trs)
  from Cons.prems(1) obtain f where f: "\<And>s x. Exec tr s x = (s, f x)" and tf: "event_transform f"
    and R: "\<And>ev out ev'. f (IEvent ev) = Inr out \<Longrightarrow> ev' \<in> set (item_events out) \<Longrightarrow> R ev' ev"
    by auto
  from Cons.prems(3) f obtain y where y: "f x = Inr y" and run: "run_transforms ctx (i + 1) trs s y = (s', Inr out)"
    by (auto simp: run_transforms_step split: option.splits sum.splits if_splits)
  from event_transform.output_of_event [OF tf y] obtain ev1 where x: "x = IEvent ev1" by auto
  have "R ev1 ev" using Cons.prems(4) x by simp
  then have "\<forall>ev' \<in> set (item_events y). R ev' ev"
    using R [OF y [unfolded x]] transpD [OF Cons.prems(2)] by blast
  with Cons.IH [OF _ Cons.prems(2) run] Cons.prems(1) show ?case by simp
qed simp

lemma after_many:
  assumes "Exec t s (IEvent ev) = (s1, Inr (IEvents evs))" and "evs \<noteq> []"
    and "ctx i = None" and "ctx (Suc i) = None"
    and "\<And>s x. Exec u s x = (s, f x)" and "event_transform f"
  shows "\<exists>err. run_transforms ctx i (t # u # us) s (IEvent ev) =
     (s1, Inl (wrap_err ''transform %s failed: %w'' [VStr (Name u)] err))"
proof -
  obtain err where "f (IEvents evs) = Inl err" and "\<not> error_is err ErrDrop"
    using event_transform.rejects_events [OF assms(6)] by blast
  with assms(1-5) show ?thesis by (auto simp: run_transforms_step item_live_def)
qed

section \<open>What the packages of transforms share\<close>

type_synonym 'c unmarshal = "string \<Rightarrow> gerror + 'c"

text \<open>The guard at the start of every \<open>Execute\<close>: the payload must be an \<open>event.Event\<close>.\<close>

definition on_event :: "string \<Rightarrow> (event \<Rightarrow> gerror + item) \<Rightarrow> item \<Rightarrow> gerror + item" where
  "on_event msg f x = (case x of IEvent ev \<Rightarrow> f ev | _ \<Rightarrow> Inl (Errorf msg []))"

lemma on_event_simps [simp]:
  "on_event msg f (IEvent ev) = f ev"
  "\<forall>ev. x \<noteq> IEvent ev \<Longrightarrow> on_event msg f x = Inl (Errorf msg [])"
  by (simp_all add: on_event_def split: item.split)

lemma on_event_transform:
  assumes "\<And>ev out ev'. f ev = Inr out \<Longrightarrow> ev' \<in> set (item_events out) \<Longrightarrow> same_origin ev' ev"
  shows "event_transform (on_event msg f)"
  by unfold_locales (auto simp: on_event_def dest: assms split: item.split)

definition same_envelope :: "event \<Rightarrow> event \<Rightarrow> bool" where
  "same_envelope a b \<longleftrightarrow> same_origin a b \<and> Headers a = Headers b"

lemma same_envelope_refl [simp]: "same_envelope a a"
  by (simp add: same_envelope_def)

lemma same_envelope_edit [simp]:
  "same_envelope (SetField a p v) b = same_envelope a b"
  "same_envelope (RemoveField a p) b = same_envelope a b"
  "same_envelope (a\<lparr>Payload := m\<rparr>) b = same_envelope a b"
  by (simp_all add: same_envelope_def go_frame)

lemma on_event_envelope:
  assumes "\<And>ev out ev'. f ev = Inr out \<Longrightarrow> ev' \<in> set (item_events out) \<Longrightarrow> same_envelope ev' ev"
  shows "envelope_transform (on_event msg f)"
proof (rule envelope_transform.intro)
  show "event_transform (on_event msg f)"
    using assms by (intro on_event_transform) (simp add: same_envelope_def)
  show "envelope_transform_axioms (on_event msg f)"
    by unfold_locales (use assms in \<open>auto simp: same_envelope_def\<close>)
qed

section \<open>Properties\<close>

text \<open>C6: the pipeline's result is one of: a live output (never nothing, never an empty slice),
  \<open>ErrDrop\<close>, the error of the context at one of its polls, or the error of one of the transforms,
  wrapped with the name of that transform and not an \<open>ErrDrop\<close>.\<close>

theorem Execute_outcome:
  assumes "Execute p ctx s (IEvent ev) = (s', r)"
  shows "case r of
      Inr out \<Rightarrow> out \<noteq> INil \<and> out \<noteq> IEvents []
    | Inl err \<Rightarrow> err = ErrDrop \<or> (\<exists>j < length (pipeline_transforms p). ctx j = Some err) \<or>
        (\<exists>tr \<in> set (pipeline_transforms p). \<exists>t x c. Exec tr t x = (s', Inl c) \<and> \<not> error_is c ErrDrop \<and>
           err = wrap_err ''transform %s failed: %w'' [VStr (Name tr)] c)"
proof (cases r)
  case (Inl err)
  with assms run_transforms_error [of ctx 0 "pipeline_transforms p" s "IEvent ev" s' err] show ?thesis
    by (auto simp: Execute_def)
next
  case (Inr out)
  with assms run_transforms_live [of ctx 0 "pipeline_transforms p" s "IEvent ev" s' out] show ?thesis
    by (simp add: Execute_def item_live_def)
qed

definition echo_transform :: "nat transform" where
  "echo_transform = \<lparr>Name = ''echo'', Exec = (\<lambda>s x. (s + 1, Inr x))\<rparr>"

theorem Execute_outcome_witness:
  "Execute \<lparr>pipeline_id = ''p'', pipeline_transforms = [echo_transform]\<rparr> (\<lambda>_. None) 0
     (IEvent (sample_event fmempty)) = (1, Inr (IEvent (sample_event fmempty))) \<and>
   IEvent (sample_event fmempty) \<noteq> INil"
proof -
  have run: "Execute \<lparr>pipeline_id = ''p'', pipeline_transforms = [echo_transform]\<rparr> (\<lambda>_. None) 0
     (IEvent (sample_event fmempty)) = (1, Inr (IEvent (sample_event fmempty)))"
    by (simp add: Execute_def run_transforms_step echo_transform_def item_live_def)
  from Execute_outcome [OF run] run show ?thesis by simp
qed

text \<open>Running a concatenation of pipelines is running the first and, on its output and in the
  state it left, the second; an error or drop of the first ends the run before the second starts.\<close>

theorem Execute_append:
  "Execute \<lparr>pipeline_id = n, pipeline_transforms = ts @ us\<rparr> ctx s e =
     (case Execute \<lparr>pipeline_id = n, pipeline_transforms = ts\<rparr> ctx s e of
        (s', Inl err) \<Rightarrow> (s', Inl err)
      | (s', Inr x) \<Rightarrow>
          Execute \<lparr>pipeline_id = n, pipeline_transforms = us\<rparr> (\<lambda>i. ctx (i + length ts)) s' x)"
  using run_transforms_shift [of ctx "length ts" 0 us] by (simp add: Execute_def run_transforms_append split: prod.split sum.split)

text \<open>A pipeline is created exactly when it has an identifier and descriptors and the registry
  makes a transform of each descriptor, and it holds these transforms in order; the conditions and
  branches of the descriptors play no part.\<close>

theorem NewPipeline_iff:
  "NewPipeline marshal r n ds = Inr p \<longleftrightarrow>
     n \<noteq> [] \<and> ds \<noteq> [] \<and> pipeline_id p = n \<and>
     list_all2 (\<lambda>d tr. \<exists>cfg. marshal (DescConfig d) = Inr cfg \<and> Create r (DescType d) cfg = Inr tr)
       ds (pipeline_transforms p)"
  by (cases p) (auto simp: NewPipeline_def bind_res_Inr_iff create_all_iff)

text \<open>The condition and the branches of a descriptor, which the configuration documents as
  deciding whether and how the transform runs, do not change the pipeline that is built.\<close>

theorem NewPipeline_ignores_conditions:
  "NewPipeline marshal r n
     (map (\<lambda>d. TransformDescriptor (DescType d) (DescConfig d) (c d) (bs d)) ds) =
   NewPipeline marshal r n ds"
proof -
  have "create_all marshal r i (map (\<lambda>d. TransformDescriptor (DescType d) (DescConfig d) (c d) (bs d)) ds) =
      create_all marshal r i ds" for i
    by (induction ds arbitrary: i) (simp_all cong: sum.case_cong)
  then show ?thesis by (simp add: NewPipeline_def)
qed

text \<open>After a registration \<open>Create\<close> uses the last factory registered under the name, other
  names are not affected, an unregistered name is unknown, and the list of names is sorted, has no
  duplicates and follows the registrations.\<close>

theorem registry_laws:
  "Create (Register n f (Register n g r)) n cfg = f cfg \<and>
   (m \<noteq> n \<longrightarrow> Create (Register n f r) m cfg = Create r m cfg) \<and>
   (\<exists>e. Create (fst (Unregister n r)) n cfg = Inl e \<and> error_is e ErrUnknownTransform) \<and>
   set (Registered (Register n f r)) = insert n (set (Registered r)) \<and>
   (n \<notin> set (Registered r) \<longrightarrow>
      Registered (fst (Unregister n (Register n f r))) = Registered r) \<and>
   sorted (Registered r) \<and> distinct (Registered r)"
  by (intro conjI reg.create_register_last reg.create_unregistered reg.names_register
      reg.names_order impI reg.names_unregister_register) (simp_all add: reg.create_register reg.names_order)

theorem registry_laws_witness:
  "Registered (fst (Unregister ''a'' (Register ''a'' (\<lambda>_. Inr echo_transform) fmempty))) = []"
  using registry_laws [of "''a''" "\<lambda>_. Inr echo_transform" "\<lambda>_. Inr echo_transform" fmempty "''b''" "[]"]
  by (simp add: Registered_def sorted_list_of_fset.rep_eq)

text \<open>A pipeline of stateless transforms of events gives only events with the metadata and the
  timestamp of the event it was given, and with its headers when each transform keeps them.\<close>

theorem Execute_keeps_envelope:
  assumes "\<forall>tr \<in> set (pipeline_transforms p). \<exists>f. (\<forall>s x. Exec tr s x = (s, f x)) \<and> event_transform f"
    and "Execute p ctx s (IEvent ev) = (s', Inr out)" and "ev' \<in> set (item_events out)"
  shows "Metadata ev' = Metadata ev \<and> Timestamp ev' = Timestamp ev \<and>
    ((\<forall>tr \<in> set (pipeline_transforms p). \<exists>f. (\<forall>s x. Exec tr s x = (s, f x)) \<and> envelope_transform f) \<longrightarrow>
       Headers ev' = Headers ev)"
proof -
  note run = assms(2) [unfolded Execute_def clone_item_id]
  have "transp same_origin" using same_origin_trans by (rule transpI)
  from pipeline_keeps [OF _ this run, of ev] assms(1,3) have "same_origin ev' ev"
    using event_transform.origin by fastforce
  moreover have "Headers ev' = Headers ev"
    if "\<forall>tr \<in> set (pipeline_transforms p). \<exists>f. (\<forall>s x. Exec tr s x = (s, f x)) \<and> envelope_transform f"
  proof -
    have "transp (\<lambda>a b. Headers a = Headers b)" by (rule transpI) simp
    from pipeline_keeps [OF _ this run, of ev] that assms(3) show ?thesis
      using envelope_transform.headers envelope_transform.axioms(1) by fastforce
  qed
  ultimately show ?thesis by (simp add: same_origin_def)
qed

definition pass_event :: "item \<Rightarrow> gerror + item" where
  "pass_event x = (case x of IEvent ev \<Rightarrow> Inr (IEvent ev) | _ \<Rightarrow> Inl (Errorf ''unexpected payload type'' []))"

lemma pass_event_transform: "event_transform pass_event"
  by unfold_locales (auto simp: pass_event_def split: item.split)

theorem Execute_keeps_envelope_witness:
  "Metadata (sample_event fmempty) = sample_meta"
proof -
  let ?p = "\<lparr>pipeline_id = ''p'', pipeline_transforms = [pure_transform ''t'' pass_event]\<rparr>"
  have "\<forall>tr \<in> set (pipeline_transforms ?p). \<exists>f. (\<forall>s x. Exec tr s x = (s, f x)) \<and> event_transform f"
    using pass_event_transform by (auto simp: pure_transform_def)
  moreover have "Execute ?p (\<lambda>_. None) () (IEvent (sample_event fmempty)) =
      ((), Inr (IEvent (sample_event fmempty)))"
    by (simp add: Execute_def run_transforms_step pure_transform_def pass_event_def item_live_def)
  ultimately show ?thesis
    using Execute_keeps_envelope [of ?p "\<lambda>_. None" "()" "sample_event fmempty" "()"
        "IEvent (sample_event fmempty)" "sample_event fmempty"]
    by (simp add: sample_event_def)
qed

text \<open>When a transform returns several events and a transform that expects one event follows, the
  run fails with that transform's error: only the last transform of a pipeline can produce many.\<close>

theorem many_events_then_transform:
  assumes "pipeline_transforms p = t # u # us"
    and "Exec t s (IEvent ev) = (s1, Inr (IEvents evs))" and "evs \<noteq> []"
    and "ctx 0 = None" and "ctx 1 = None"
    and "\<And>s x. Exec u s x = (s, f x)" and "event_transform f"
  shows "\<exists>err. Execute p ctx s (IEvent ev) =
     (s1, Inl (wrap_err ''transform %s failed: %w'' [VStr (Name u)] err))"
proof -
  have "ctx (Suc 0) = None" using assms(5) by simp
  from after_many [OF assms(2-4) this, of u f us] assms(6,7) assms(1) show ?thesis
    by (simp add: Execute_def)
qed

theorem many_events_then_transform_witness:
  "\<exists>err. Execute \<lparr>pipeline_id = ''p'', pipeline_transforms =
      [\<lparr>Name = ''split'', Exec = (\<lambda>s x. (s, Inr (IEvents [sample_event fmempty])))\<rparr>,
       pure_transform ''t'' pass_event]\<rparr> (\<lambda>_. None) () (IEvent (sample_event fmempty)) =
     ((), Inl (wrap_err ''transform %s failed: %w'' [VStr ''t''] err))"
  using many_events_then_transform [OF _ _ _ _ _ _ pass_event_transform,
      of "\<lparr>pipeline_id = ''p'', pipeline_transforms =
        [\<lparr>Name = ''split'', Exec = (\<lambda>s x. (s, Inr (IEvents [sample_event fmempty])))\<rparr>,
         pure_transform ''t'' pass_event]\<rparr>" _ _ "[]" "()" "sample_event fmempty" "()"
        "[sample_event fmempty]" "\<lambda>_. None"]
  by (simp add: pure_transform_def)

end
