(* ===== verification/Field.thy ===== *)
theory Field
  imports Transform
begin

text \<open>
  \<open>internal/transform/field\<close>: the transforms that add, remove, rename, extract, flatten and unflatten
  payload fields. \<open>Configure\<close> receives the raw bytes and the decoder \<open>json.Unmarshal\<close> into the
  configuration of the transform.
\<close>

section \<open>\<open>field.add\<close>\<close>

record add_config =
  AddField :: string
  AddValue :: gval

definition add_Configure :: "add_config unmarshal \<Rightarrow> string \<Rightarrow> gerror + add_config" where
  "add_Configure unmarshal raw =
     (if length raw = 0 then Inr \<lparr>AddField = [], AddValue = VNil\<rparr>
      else bind_res (unmarshal raw) (\<lambda>cfg.
        if AddField cfg = [] then Inl (Errorf ''field name is required'' []) else Inr cfg))"

definition add_Execute :: "add_config \<Rightarrow> item \<Rightarrow> gerror + item" where
  "add_Execute cfg = on_event ''unexpected payload type''
     (\<lambda>ev. Inr (IEvent (SetField ev (AddField cfg) (AddValue cfg))))"

section \<open>\<open>field.remove\<close>\<close>

record remove_config =
  Fields :: "string list"

definition remove_Configure :: "remove_config unmarshal \<Rightarrow> string \<Rightarrow> gerror + remove_config" where
  "remove_Configure unmarshal raw = (if length raw = 0 then Inr \<lparr>Fields = []\<rparr> else unmarshal raw)"

definition remove_fields :: "string list \<Rightarrow> event \<Rightarrow> event" where
  "remove_fields fs ev = foldl RemoveField ev fs"

definition remove_Execute :: "remove_config \<Rightarrow> item \<Rightarrow> gerror + item" where
  "remove_Execute cfg = on_event ''unexpected payload type''
     (\<lambda>ev. Inr (IEvent (remove_fields (Fields cfg) ev)))"

section \<open>\<open>field.extract\<close>\<close>

record extract_config =
  Source :: string
  Target :: string
  Overwrite :: bool

definition extract_Configure :: "extract_config unmarshal \<Rightarrow> string \<Rightarrow> gerror + extract_config" where
  "extract_Configure unmarshal raw =
     (if length raw = 0 then
        Inl (Errorf ''configuration required: source and target must be specified'' [])
      else bind_res (unmarshal raw) (\<lambda>cfg.
        if Source cfg = [] then Inl (Errorf ''source field must be specified'' [])
        else if Target cfg = [] then Inl (Errorf ''target field must be specified'' [])
        else if Source cfg = Target cfg then
          Inl (Errorf ''source and target must be different: both are %q'' [VStr (Source cfg)])
        else Inr cfg))"

definition extract_event :: "extract_config \<Rightarrow> event \<Rightarrow> gerror + item" where
  "extract_event cfg ev =
     (case GetField ev (Source cfg) of
        None \<Rightarrow> Inr (IEvent ev)
      | Some v \<Rightarrow>
          (if \<not> Overwrite cfg \<and> GetField ev (Target cfg) \<noteq> None
           then Inl (Errorf ''target field %q already exists and overwrite is not enabled''
                       [VStr (Target cfg)])
           else Inr (IEvent (RemoveField (SetField ev (Target cfg) v) (Source cfg)))))"

definition extract_Execute :: "extract_config \<Rightarrow> item \<Rightarrow> gerror + item" where
  "extract_Execute cfg = on_event ''unexpected payload type'' (extract_event cfg)"

section \<open>\<open>field.rename\<close>\<close>

record rename_config =
  Mappings :: "(string, string) fmap option"

definition rename_Configure :: "rename_config unmarshal \<Rightarrow> string \<Rightarrow> gerror + rename_config" where
  "rename_Configure unmarshal raw = (if length raw = 0 then Inr \<lparr>Mappings = None\<rparr> else unmarshal raw)"

definition mappings_of :: "rename_config \<Rightarrow> (string, string) fmap" where
  "mappings_of cfg = (case Mappings cfg of None \<Rightarrow> fmempty | Some m \<Rightarrow> m)"

text \<open>\<open>targetToSources[target]\<close>: the sources in the order the map was visited\<close>

definition sources_of :: "iter \<Rightarrow> (string, string) fmap \<Rightarrow> string \<Rightarrow> string list" where
  "sources_of ord m target = filter (\<lambda>from. fmlookup m from = Some target) (ord (fmdom m))"

definition existing_sources :: "iter \<Rightarrow> (string, string) fmap \<Rightarrow> event \<Rightarrow> string \<Rightarrow> string list" where
  "existing_sources ord m ev target =
     filter (\<lambda>source. GetField ev source \<noteq> None \<and> source \<noteq> target) (sources_of ord m target)"

fun rename_conflict :: "iter \<Rightarrow> (string, string) fmap \<Rightarrow> event \<Rightarrow> string list \<Rightarrow> gerror option" where
  "rename_conflict ord m ev [] = None"
| "rename_conflict ord m ev (target # targets) =
     (let existing = existing_sources ord m ev target
      in if length existing > 1 then
           Some (Errorf ''field.rename: multiple source fields %v map to the same target %q, would cause overwrite''
                   [VStr (fmt_strings existing), VStr target])
         else if GetField ev target \<noteq> None \<and> length existing > 0 then
           Some (Errorf ''field.rename: target field %q already exists and source field(s) %v would overwrite it''
                   [VStr target, VStr (fmt_strings existing)])
         else rename_conflict ord m ev targets)"

definition rename_step :: "(string, string) fmap \<Rightarrow> event \<Rightarrow> string \<Rightarrow> event" where
  "rename_step m out from =
     (case fmlookup m from of
        None \<Rightarrow> out
      | Some to \<Rightarrow>
          (case GetField out from of
             Some v \<Rightarrow> RemoveField (SetField out to v) from
           | None \<Rightarrow> out))"

definition rename_event :: "iter \<Rightarrow> rename_config \<Rightarrow> event \<Rightarrow> gerror + item" where
  "rename_event ord cfg ev =
     (let m = mappings_of cfg
      in case rename_conflict ord m ev (ord (fmran m)) of
           Some err \<Rightarrow> Inl err
         | None \<Rightarrow> Inr (IEvent (foldl (rename_step m) ev (sorted_keys (fmdom m)))))"

definition rename_Execute :: "iter \<Rightarrow> rename_config \<Rightarrow> item \<Rightarrow> gerror + item" where
  "rename_Execute ord cfg = on_event ''unexpected payload type'' (rename_event ord cfg)"

section \<open>\<open>field.flatten\<close>\<close>

text \<open>\<open>flattenMapWithDepth\<close>\<close>

definition flat_key :: "string \<Rightarrow> string \<Rightarrow> string" where
  "flat_key pfx k = (if pfx \<noteq> [] then pfx @ ''.'' @ k else k)"

function flatten_depth :: "iter \<Rightarrow> string \<Rightarrow> gmap \<Rightarrow> nat \<Rightarrow> nat \<Rightarrow> (string, gval) fmap" where
  "flatten_depth ord pfx m depth maxDepth =
     (if depth > maxDepth then fmupd pfx (VMap m) fmempty
      else foldl (\<lambda>result k.
             case map_get m k of
               Some (VMap nested) \<Rightarrow>
                 fmadd result (flatten_depth ord (flat_key pfx k) nested (depth + 1) maxDepth)
             | Some v \<Rightarrow> fmupd (flat_key pfx k) v result
             | None \<Rightarrow> result)
           fmempty (ord (fmdom (map_make m))))"
  by auto
termination
  by (relation "measure (\<lambda>(ord, pfx, m, depth, maxDepth). maxDepth + 1 - depth)") auto

declare flatten_depth.simps [simp del]

definition flatten_map :: "iter \<Rightarrow> string \<Rightarrow> gmap \<Rightarrow> (string, gval) fmap" where
  "flatten_map ord pfx m = flatten_depth ord pfx m 0 100"

definition flatten_Configure :: "unit unmarshal \<Rightarrow> string \<Rightarrow> gerror + unit" where
  "flatten_Configure unmarshal raw = (if length raw = 0 then Inr () else unmarshal raw)"

definition flatten_Execute :: "iter \<Rightarrow> item \<Rightarrow> gerror + item" where
  "flatten_Execute ord = on_event ''unexpected event type''
     (\<lambda>ev. Inr (IEvent ((Clone ev)\<lparr>Payload := Some (flatten_map ord [] (Payload ev))\<rparr>)))"

section \<open>\<open>field.unflatten\<close>\<close>

text \<open>Writing to a nil map panics.\<close>

definition map_store :: "gmap \<Rightarrow> string \<Rightarrow> gval \<Rightarrow> gerror + (string, gval) fmap" where
  "map_store m k v =
     (case m of None \<Rightarrow> Inl (ErrPanic ''assignment to entry in nil map'') | Some f \<Rightarrow> Inr (fmupd k v f))"

fun set_nested :: "gmap \<Rightarrow> string list \<Rightarrow> gval \<Rightarrow> gerror + (string, gval) fmap" where
  "set_nested m [] v = Inl (ErrPanic ''index out of range'')"
| "set_nested m [key] v =
     (case map_get m key of
        Some (VMap _) \<Rightarrow>
          Inl (Errorf ''cannot set scalar value at %q, key already contains a nested map'' [VStr key])
      | _ \<Rightarrow> map_store m key v)"
| "set_nested m (key # k # ks) v =
     (case map_get m key of
        Some (VMap nested) \<Rightarrow>
          bind_res (set_nested nested (k # ks) v) (\<lambda>n. map_store m key (VMap (Some n)))
      | Some existing \<Rightarrow>
          Inl (Errorf ''cannot create nested structure at %q, key already contains a scalar value: %T''
                 [VStr key, VStr (type_name existing)])
      | None \<Rightarrow>
          bind_res (map_store m key (VMap (Some fmempty))) (\<lambda>m1.
          bind_res (set_nested (Some fmempty) (k # ks) v) (\<lambda>n.
          map_store (Some m1) key (VMap (Some n)))))"

fun unflatten_loop ::
  "(string, gval) fmap \<Rightarrow> (string, gval) fmap \<Rightarrow> string list \<Rightarrow> gerror + (string, gval) fmap" where
  "unflatten_loop m result [] = Inr result"
| "unflatten_loop m result (k # ks) =
     (case fmlookup m k of
        None \<Rightarrow> unflatten_loop m result ks
      | Some v \<Rightarrow>
          (case set_nested (Some result) (str_split k ''.'') v of
             Inl err \<Rightarrow> Inl (wrap_err ''unflatten conflict at key %q: %w'' [VStr k] err)
           | Inr result' \<Rightarrow> unflatten_loop m result' ks))"

definition unflatten_map :: "gmap \<Rightarrow> gerror + (string, gval) fmap" where
  "unflatten_map m = unflatten_loop (map_make m) fmempty (sorted_keys (fmdom (map_make m)))"

definition unflatten_Configure :: "unit unmarshal \<Rightarrow> string \<Rightarrow> gerror + unit" where
  "unflatten_Configure unmarshal raw = (if length raw = 0 then Inr () else unmarshal raw)"

definition unflatten_Execute :: "item \<Rightarrow> gerror + item" where
  "unflatten_Execute = on_event ''unexpected payload type''
     (\<lambda>ev. case unflatten_map (Payload ev) of
             Inl err \<Rightarrow> Inl (wrap_err ''field.unflatten: %w'' [] err)
           | Inr m \<Rightarrow> Inr (IEvent (ev\<lparr>Payload := Some m\<rparr>)))"

section \<open>Registration\<close>

definition add_factory :: "add_config unmarshal \<Rightarrow> 's factory" where
  "add_factory um = pure_factory ''field.add'' (add_Configure um) add_Execute"

definition remove_factory :: "remove_config unmarshal \<Rightarrow> 's factory" where
  "remove_factory um = pure_factory ''field.remove'' (remove_Configure um) remove_Execute"

definition extract_factory :: "extract_config unmarshal \<Rightarrow> 's factory" where
  "extract_factory um = pure_factory ''field.extract'' (extract_Configure um) extract_Execute"

definition rename_factory :: "iter \<Rightarrow> rename_config unmarshal \<Rightarrow> 's factory" where
  "rename_factory ord um = pure_factory ''field.rename'' (rename_Configure um) (rename_Execute ord)"

definition flatten_factory :: "iter \<Rightarrow> unit unmarshal \<Rightarrow> 's factory" where
  "flatten_factory ord um = pure_factory ''field.flatten'' (flatten_Configure um) (\<lambda>_. flatten_Execute ord)"

definition unflatten_factory :: "unit unmarshal \<Rightarrow> 's factory" where
  "unflatten_factory um = pure_factory ''field.unflatten'' (unflatten_Configure um) (\<lambda>_. unflatten_Execute)"

section \<open>The envelope is kept\<close>

lemma remove_fields_envelope [simp]: "same_envelope (remove_fields fs a) b = same_envelope a b"
  by (induction fs arbitrary: a) (simp_all add: remove_fields_def)

lemma rename_step_envelope [simp]: "same_envelope (rename_step m a k) b = same_envelope a b"
  by (simp add: rename_step_def split: option.split)

lemma rename_steps_envelope [simp]: "same_envelope (foldl (rename_step m) a ks) b = same_envelope a b"
  by (induction ks arbitrary: a) simp_all

interpretation add_env: envelope_transform "add_Execute cfg" for cfg
  unfolding add_Execute_def by (rule on_event_envelope) auto

interpretation remove_env: envelope_transform "remove_Execute cfg" for cfg
  unfolding remove_Execute_def by (rule on_event_envelope) auto

interpretation extract_env: envelope_transform "extract_Execute cfg" for cfg
  unfolding extract_Execute_def
  by (rule on_event_envelope) (auto simp: extract_event_def split: option.splits if_splits)

interpretation rename_env: envelope_transform "rename_Execute ord cfg" for ord cfg
  unfolding rename_Execute_def
  by (rule on_event_envelope) (auto simp: rename_event_def Let_def split: option.splits)

interpretation flatten_env: envelope_transform "flatten_Execute ord" for ord
  unfolding flatten_Execute_def by (rule on_event_envelope) auto

interpretation unflatten_env: envelope_transform unflatten_Execute
  unfolding unflatten_Execute_def by (rule on_event_envelope) (auto split: sum.splits)

section \<open>Moves\<close>

text \<open>A sequence of moves of values between places, for any field store\<close>

definition moves :: "('e \<Rightarrow> 'p \<Rightarrow> 'v option) \<Rightarrow> ('e \<Rightarrow> 'p \<Rightarrow> 'v \<Rightarrow> 'e) \<Rightarrow> ('e \<Rightarrow> 'p \<Rightarrow> 'e) \<Rightarrow>
    'e \<Rightarrow> ('p \<times> 'p) list \<Rightarrow> 'e" where
  "moves get put remove =
     foldl (\<lambda>e (p, q). case get e p of None \<Rightarrow> e | Some v \<Rightarrow> remove (put e q v) p)"

text \<open>No source leads to another source, and no target to a source.\<close>

definition apart :: "('p \<Rightarrow> 'p \<Rightarrow> bool) \<Rightarrow> ('p \<times> 'p) list \<Rightarrow> bool" where
  "apart rel prs = (distinct (map fst prs) \<and>
     (\<forall>p q p' q'. (p, q) \<in> set prs \<longrightarrow> (p', q') \<in> set prs \<longrightarrow>
        \<not> rel q p' \<and> (p \<noteq> p' \<longrightarrow> \<not> rel p p')))"

lemma apart_Cons:
  "apart rel ((p, q) # prs) \<Longrightarrow> apart rel prs"
  "apart rel ((p, q) # prs) \<Longrightarrow> (p', q') \<in> set prs \<Longrightarrow>
     \<not> rel q p' \<and> \<not> rel p p' \<and> \<not> rel q' p \<and> \<not> rel p' p \<and> p \<noteq> p'"
proof -
  assume a: "apart rel ((p, q) # prs)"
  have d: "distinct (map fst prs)" "p \<notin> fst ` set prs" using a by (simp_all add: apart_def)
  have r: "\<And>p1 q1 p2 q2. (p1, q1) \<in> set ((p, q) # prs) \<Longrightarrow> (p2, q2) \<in> set ((p, q) # prs) \<Longrightarrow>
      \<not> rel q1 p2 \<and> (p1 \<noteq> p2 \<longrightarrow> \<not> rel p1 p2)"
    using a unfolding apart_def by blast
  show "apart rel prs"
    unfolding apart_def
  proof (intro conjI allI impI)
    fix p1 q1 p2 q2 assume "(p1, q1) \<in> set prs" "(p2, q2) \<in> set prs"
    with r [of p1 q1 p2 q2] show "\<not> rel q1 p2" and "p1 \<noteq> p2 \<Longrightarrow> \<not> rel p1 p2" by simp_all
  qed (fact d(1))
  assume m: "(p', q') \<in> set prs"
  then have "p \<noteq> p'" using d(2) by (auto simp: image_iff)
  with m r [of p q p' q'] r [of p' q' p q]
  show "\<not> rel q p' \<and> \<not> rel p p' \<and> \<not> rel q' p \<and> \<not> rel p' p \<and> p \<noteq> p'" by simp
qed

context field_store
begin

lemma moves_Nil [simp]: "moves get put remove e [] = e"
  by (simp add: moves_def)

lemma moves_Cons [simp]:
  "moves get put remove e ((p, q) # prs) =
     moves get put remove (case get e p of None \<Rightarrow> e | Some v \<Rightarrow> remove (put e q v) p) prs"
  by (simp add: moves_def)

lemma moves_frame:
  assumes "apart rel prs"
    and "\<forall>(p, q) \<in> set prs. get e p \<noteq> None \<longrightarrow> \<not> rel p r \<and> \<not> rel q r"
  shows "get (moves get put remove e prs) r = get e r"
  using assms
proof (induction prs arbitrary: e)
  case (Cons pq prs)
  obtain p q where pq: "pq = (p, q)" by fastforce
  let ?e = "case get e p of None \<Rightarrow> e | Some v \<Rightarrow> remove (put e q v) p"
  have others: "get ?e p' = get e p'" if "(p', q') \<in> set prs" for p' q'
    using apart_Cons(2) [OF Cons.prems(1) [unfolded pq] that]
    by (simp add: move_other split: option.split)
  have "get (moves get put remove ?e prs) r = get ?e r"
    using apart_Cons(1) [OF Cons.prems(1) [unfolded pq]] Cons.prems(2) others
    by (intro Cons.IH) auto
  also have "\<dots> = get e r"
    using Cons.prems(2) pq by (auto simp: move_other split: option.split)
  finally show ?case by (simp add: pq)
qed simp

lemma moves_target:
  assumes "apart rel prs" and "(p, q) \<in> set prs" and "get e p = Some v" and "valid q"
    and "\<And>p' q'. (p', q') \<in> set prs \<Longrightarrow> get e p' \<noteq> None \<Longrightarrow> p' \<noteq> p \<Longrightarrow> \<not> rel q' q"
  shows "get (moves get put remove e prs) q = Some v \<and> get (moves get put remove e prs) p = None"
  using assms
proof (induction prs arbitrary: e)
  case (Cons pq prs)
  obtain p0 q0 where pq: "pq = (p0, q0)" by fastforce
  let ?e = "case get e p0 of None \<Rightarrow> e | Some v \<Rightarrow> remove (put e q0 v) p0"
  note ap = apart_Cons [OF Cons.prems(1) [unfolded pq]]
  have others: "get ?e p' = get e p'" if "(p', q') \<in> set prs" for p' q'
    using ap(2) [OF that] by (simp add: move_other split: option.split)
  show ?case
  proof (cases "(p, q) \<in> set prs")
    case True
    have "get (moves get put remove ?e prs) q = Some v \<and> get (moves get put remove ?e prs) p = None"
    proof (rule Cons.IH [OF ap(1) True _ Cons.prems(4)])
      show "get ?e p = Some v" using others [OF True] Cons.prems(3) by simp
      show "\<not> rel q' q" if "(p', q') \<in> set prs" "get ?e p' \<noteq> None" "p' \<noteq> p" for p' q'
        using Cons.prems(5) [of p' q'] that others [OF that(1)] by simp
    qed
    then show ?thesis by (simp add: pq)
  next
    case False
    with Cons.prems(2) pq have eq: "p0 = p" "q0 = q" by auto
    have qp: "\<not> rel q p" using Cons.prems(1) pq eq unfolding apart_def by (metis list.set_intros(1))
    have e: "?e = remove (put e q v) p" using Cons.prems(3) eq by simp
    have "\<not> rel p q" using qp rel_sym by blast
    then have "get ?e q = Some v" and "get ?e p = None"
      using Cons.prems(4) by (simp_all add: e move_target get_remove)
    moreover have "get (moves get put remove ?e prs) q = get ?e q"
    proof (rule moves_frame [OF ap(1)], safe)
      fix p' q' y assume m: "(p', q') \<in> set prs" and y: "get ?e p' = Some y"
      have "p' \<noteq> p" using ap(2) [OF m] eq by blast
      moreover have "get e p' \<noteq> None" using others [OF m] y by (metis option.distinct(1))
      ultimately show "rel q' q \<Longrightarrow> False" using Cons.prems(5) [of p' q'] m by simp
      show "rel p' q \<Longrightarrow> False" using ap(2) [OF m] eq rel_sym by blast
    qed
    moreover have "get (moves get put remove ?e prs) p = get ?e p"
      by (rule moves_frame [OF ap(1)]) (use ap(2) eq in auto)
    ultimately show ?thesis by (simp add: pq)
  qed
qed simp

end

lemma rename_steps_moves:
  assumes "\<forall>k \<in> set ks. fmlookup m k \<noteq> None"
  shows "foldl (rename_step m) e ks = moves GetField SetField RemoveField e (map (\<lambda>k. (k, the (fmlookup m k))) ks)"
  using assms
proof (induction ks arbitrary: e)
  case (Cons k ks)
  then show ?case by (cases "fmlookup m k") (auto simp: rename_step_def)
qed simp

lemma rename_conflict_None:
  "rename_conflict ord m ev ts = None \<longleftrightarrow>
     (\<forall>t \<in> set ts. length (existing_sources ord m ev t) \<le> 1 \<and>
        (GetField ev t \<noteq> None \<longrightarrow> existing_sources ord m ev t = []))"
  by (induction ts) (auto simp: Let_def)

lemma existing_sources_unique:
  assumes "iter_ok ord" and "length (existing_sources ord m ev t) \<le> 1"
    and "fmlookup m p = Some t" "GetField ev p \<noteq> None" "p \<noteq> t"
    and "fmlookup m p' = Some t" "GetField ev p' \<noteq> None" "p' \<noteq> t"
  shows "p = p'"
proof -
  have "p \<in> set (existing_sources ord m ev t)" "p' \<in> set (existing_sources ord m ev t)"
    using assms by (auto simp: existing_sources_def sources_of_def iter_okD intro: fmdomI)
  with assms(2) show ?thesis
    by (cases "existing_sources ord m ev t") auto
qed

text \<open>The renames of a configuration whose places do not lead to each other\<close>

definition rename_pairs :: "(string, string) fmap \<Rightarrow> (string \<times> string) list" where
  "rename_pairs m = map (\<lambda>k. (k, the (fmlookup m k))) (sorted_keys (fmdom m))"

definition places_apart :: "(string, string) fmap \<Rightarrow> bool" where
  "places_apart m \<longleftrightarrow>
     (\<forall>a \<in> fset (fmdom m) \<union> fset (fmran m). \<forall>b \<in> fset (fmdom m) \<union> fset (fmran m). a \<noteq> b \<longrightarrow> \<not> related_paths a b) \<and>
     fset (fmdom m) \<inter> fset (fmran m) = {}"

lemma rename_pairs_iff: "(p, q) \<in> set (rename_pairs m) \<longleftrightarrow> fmlookup m p = Some q"
  by (auto simp: rename_pairs_def iter_okD(2) [OF iter_ok_sorted] fmlookup_dom_iff image_iff)

lemma rename_places: "fmlookup m p = Some q \<Longrightarrow> p \<in> fset (fmdom m) \<and> q \<in> fset (fmran m)"
  by (auto intro: fmdomI fmranI)

lemma places_apartD:
  assumes "places_apart m" and "fmlookup m p = Some q" and "fmlookup m p' = Some q'"
  shows "q \<noteq> p'" "\<not> related_paths q p'" "p \<noteq> p' \<Longrightarrow> \<not> related_paths p p'" "q \<noteq> q' \<Longrightarrow> \<not> related_paths q q'"
proof -
  let ?S = "fset (fmdom m) \<union> fset (fmran m)"
  have S: "p \<in> ?S" "q \<in> ?S" "p' \<in> ?S" "q' \<in> ?S"
    using rename_places [OF assms(2)] rename_places [OF assms(3)] by simp_all
  have apart: "\<And>a b. a \<in> ?S \<Longrightarrow> b \<in> ?S \<Longrightarrow> a \<noteq> b \<Longrightarrow> \<not> related_paths a b"
    using assms(1) by (simp add: places_apart_def)
  show ne: "q \<noteq> p'"
    using assms(1) rename_places [OF assms(2)] rename_places [OF assms(3)] by (auto simp: places_apart_def)
  show "\<not> related_paths q p'" using apart S ne by simp
  show "p \<noteq> p' \<Longrightarrow> \<not> related_paths p p'" using apart S by simp
  show "q \<noteq> q' \<Longrightarrow> \<not> related_paths q q'" using apart S by simp
qed

lemma rename_pairs_apart: "places_apart m \<Longrightarrow> apart related_paths (rename_pairs m)"
  unfolding apart_def using iter_okD(1) [OF iter_ok_sorted] places_apartD(2,3) [of m]
  by (auto simp: rename_pairs_iff) (simp add: rename_pairs_def comp_def)

abbreviation renamed :: "(string, string) fmap \<Rightarrow> event \<Rightarrow> event" where
  "renamed m ev \<equiv> moves GetField SetField RemoveField ev (rename_pairs m)"

lemma rename_Execute_moves:
  assumes "Mappings cfg = Some m" and "rename_Execute ord cfg (IEvent ev) = Inr out"
  shows "out = IEvent (renamed m ev) \<and> rename_conflict ord m ev (ord (fmran m)) = None"
  using assms rename_steps_moves [of "sorted_keys (fmdom m)" m ev]
  by (auto simp: rename_Execute_def rename_event_def mappings_of_def Let_def rename_pairs_def
      fmlookup_dom_iff iter_okD(2) [OF iter_ok_sorted] split: option.splits)

lemma rename_target:
  assumes "iter_ok ord" and "places_apart m" and "rename_conflict ord m ev (ord (fmran m)) = None"
    and pq: "fmlookup m p = Some q" "GetField ev p = Some v" "q \<noteq> []"
  shows "GetField (renamed m ev) q = Some v \<and> GetField (renamed m ev) p = None"
proof (rule es.moves_target [OF rename_pairs_apart [OF assms(2)]])
  show "(p, q) \<in> set (rename_pairs m)" using pq(1) by (simp add: rename_pairs_iff)
  fix p' q' assume "(p', q') \<in> set (rename_pairs m)" and p': "GetField ev p' \<noteq> None" "p' \<noteq> p"
  then have m': "fmlookup m p' = Some q'" by (simp add: rename_pairs_iff)
  have "length (existing_sources ord m ev q) \<le> 1"
    using assms(1,3) rename_places [OF pq(1)] by (auto simp: rename_conflict_None iter_okD)
  moreover have "p \<noteq> q" "p' \<noteq> q" using places_apartD(1) [OF assms(2) pq(1)] pq(1) m' by blast+
  ultimately have "q' \<noteq> q" using existing_sources_unique [OF assms(1) _ pq(1), of ev p'] pq(2) p' m' by auto
  then show "\<not> related_paths q' q" by (rule places_apartD(4) [OF assms(2) m' pq(1)])
qed (use pq in auto)

lemma rename_missing:
  assumes "places_apart m" and "fmlookup m p = Some q" and "GetField ev p = None"
  shows "GetField (renamed m ev) p = None"
proof -
  have "GetField (renamed m ev) p = GetField ev p"
  proof (rule es.moves_frame [OF rename_pairs_apart [OF assms(1)]], safe)
    fix p' q' y assume "(p', q') \<in> set (rename_pairs m)" "GetField ev p' = Some y"
    then have p': "fmlookup m p' = Some q'" "p' \<noteq> p" using assms(3) by (auto simp: rename_pairs_iff)
    show "related_paths p' p \<Longrightarrow> False" and "related_paths q' p \<Longrightarrow> False"
      using places_apartD [OF assms(1) p'(1) assms(2)] p'(2) by blast+
  qed
  with assms(3) show ?thesis by simp
qed

lemma rename_frame:
  assumes "places_apart m" and "\<forall>a \<in> fset (fmdom m) \<union> fset (fmran m). \<not> related_paths a q"
  shows "GetField (renamed m ev) q = GetField ev q"
proof (rule es.moves_frame [OF rename_pairs_apart [OF assms(1)]], safe)
  fix p' q' y assume "(p', q') \<in> set (rename_pairs m)"
  then have "fmlookup m p' = Some q'" by (simp add: rename_pairs_iff)
  from rename_places [OF this] assms(2)
  show "related_paths p' q \<Longrightarrow> False" and "related_paths q' q \<Longrightarrow> False" by blast+
qed

section \<open>Properties\<close>

text \<open>C12: a rename between places that do not lead to each other, to names that are not empty, moves every field that is there to
  its new name, leaves the old names empty, and changes nothing else; that it succeeds excludes two
  fields with the same new name and a new name in use.\<close>

theorem rename_moves:
  assumes "iter_ok ord" and "Mappings cfg = Some m" and "[] \<notin> fset (fmran m)"
    and "\<forall>a \<in> fset (fmdom m) \<union> fset (fmran m). \<forall>b \<in> fset (fmdom m) \<union> fset (fmran m).
           a \<noteq> b \<longrightarrow> \<not> related_paths a b"
    and "fset (fmdom m) \<inter> fset (fmran m) = {}"
    and "rename_Execute ord cfg (IEvent ev) = Inr out"
  shows "\<exists>ev'. out = IEvent ev' \<and>
    (\<forall>from to. fmlookup m from = Some to \<longrightarrow>
       GetField ev' from = None \<and> (\<forall>v. GetField ev from = Some v \<longrightarrow> GetField ev' to = Some v)) \<and>
    (\<forall>q. (\<forall>a \<in> fset (fmdom m) \<union> fset (fmran m). \<not> related_paths a q) \<longrightarrow>
       GetField ev' q = GetField ev q)"
proof -
  have apart: "places_apart m" using assms(4,5) by (simp add: places_apart_def)
  from rename_Execute_moves [OF assms(2,6)] have out: "out = IEvent (renamed m ev)"
    and conflict: "rename_conflict ord m ev (ord (fmran m)) = None" by blast+
  show ?thesis
  proof (intro exI [of _ "renamed m ev"] conjI allI impI)
    fix p q v assume pq: "fmlookup m p = Some q"
    then have "q \<noteq> []" using assms(3) rename_places by metis
    note target = rename_target [OF assms(1) apart conflict pq _ this]
    show "GetField (renamed m ev) p = None"
      using target rename_missing [OF apart pq] by (cases "GetField ev p") blast+
    show "GetField ev p = Some v \<Longrightarrow> GetField (renamed m ev) q = Some v" using target by blast
  qed (use out rename_frame [OF apart] in blast)+
qed

lemma fmran_single: "fmran (fmupd a b fmempty) = {|b|}"
  by (rule fset_eqI) (auto simp: fmlookup_ran_iff)

lemma iter_single:
  assumes "iter_ok ord"
  shows "ord {|x|} = [x]"
proof -
  have d: "distinct (ord {|x|})" and s: "set (ord {|x|}) = {x}"
    using iter_okD [OF assms, of "{|x|}"] by simp_all
  then have "length (ord {|x|}) = 1" using distinct_card [OF d] by simp
  with s show ?thesis by (cases "ord {|x|}") auto
qed

definition rename_ab :: rename_config where
  "rename_ab = \<lparr>Mappings = Some (fmupd ''a'' ''b'' fmempty)\<rparr>"

theorem rename_moves_witness:
  "\<exists>ev'. GetField ev' ''a'' = None \<and> GetField ev' ''b'' = Some VNil"
proof -
  let ?ev = "sample_event (fmupd ''a'' VNil fmempty)"
  have "rename_Execute sorted_keys rename_ab (IEvent ?ev) =
      Inr (IEvent (sample_event (fmupd ''b'' VNil fmempty)))"
    by code_simp
  moreover have "\<not> related_paths ''a'' ''b''" "\<not> related_paths ''b'' ''a''"
    by (simp_all add: related_paths_def str_split_char_single)
  then have "\<forall>x \<in> {''a'', ''b''}. \<forall>y \<in> {''a'', ''b''}. x \<noteq> y \<longrightarrow> \<not> related_paths x y" by simp
  ultimately obtain ev' where "\<forall>from to. fmlookup (fmupd ''a'' ''b'' fmempty) from = Some to \<longrightarrow>
      GetField ev' from = None \<and> (\<forall>v. GetField ?ev from = Some v \<longrightarrow> GetField ev' to = Some v)"
    using rename_moves [OF iter_ok_sorted, of rename_ab "fmupd ''a'' ''b'' fmempty" ?ev]
    by (auto simp: rename_ab_def fmran_single simp del: fmupd_lookup)
  from this [rule_format, of "''a''" "''b''"] show ?thesis
    by (auto simp: GetField_top sample_event_def)
qed

text \<open>A rename of a field to its own name, which the conflict check treats as doing nothing,
  deletes the field.\<close>

theorem rename_to_itself:
  assumes "iter_ok ord" and "GetField ev f = Some v"
  shows "rename_Execute ord \<lparr>Mappings = Some (fmupd f f fmempty)\<rparr> (IEvent ev) =
    Inr (IEvent (RemoveField ev f))"
  using assms
  by (simp add: rename_Execute_def rename_event_def mappings_of_def existing_sources_def sources_of_def
      rename_step_def es.put_get Let_def fmran_single iter_single)

theorem rename_to_itself_witness:
  "GetField (RemoveField (sample_event (fmupd ''a'' VNil fmempty)) ''a'') ''a'' = None \<and>
   rename_Execute sorted_keys \<lparr>Mappings = Some (fmupd ''a'' ''a'' fmempty)\<rparr>
     (IEvent (sample_event (fmupd ''a'' VNil fmempty))) =
   Inr (IEvent (RemoveField (sample_event (fmupd ''a'' VNil fmempty)) ''a''))"
  using rename_to_itself [OF iter_ok_sorted, of "sample_event (fmupd ''a'' VNil fmempty)" "''a''" VNil]
  by (simp add: es.get_remove GetField_top sample_event_def)

text \<open>C16: \<open>field.extract\<close> moves a value between unrelated paths and changes nothing else; without a
  source it gives the event back, and a target in use is an error unless overwriting is enabled. To a
  place below its own source the value is lost.\<close>

theorem extract_event_cases:
  assumes "Source cfg \<noteq> []" and "Target cfg \<noteq> []"
  shows "(GetField ev (Source cfg) = None \<longrightarrow> extract_Execute cfg (IEvent ev) = Inr (IEvent ev)) \<and>
    (GetField ev (Source cfg) \<noteq> None \<and> GetField ev (Target cfg) \<noteq> None \<and> \<not> Overwrite cfg \<longrightarrow>
       isl (extract_Execute cfg (IEvent ev))) \<and>
    (\<forall>v. GetField ev (Source cfg) = Some v \<and> (Overwrite cfg \<or> GetField ev (Target cfg) = None) \<longrightarrow>
       (\<exists>ev'. extract_Execute cfg (IEvent ev) = Inr (IEvent ev') \<and>
          GetField ev' (Source cfg) = None \<and>
          (\<not> related_paths (Source cfg) (Target cfg) \<longrightarrow>
             GetField ev' (Target cfg) = Some v \<and>
             (\<forall>q. \<not> related_paths (Source cfg) q \<and> \<not> related_paths (Target cfg) q \<longrightarrow>
                GetField ev' q = GetField ev q)) \<and>
          (\<forall>k. Target cfg = Source cfg @ ''.'' @ k \<longrightarrow> GetField ev' (Target cfg) = None)))"
  using assms RemoveField_below [OF assms(1)]
  by (auto simp: extract_Execute_def extract_event_def es.move_target es.move_other es.get_remove)

theorem extract_event_cases_witness:
  "extract_Execute \<lparr>Source = ''a'', Target = ''b'', Overwrite = False\<rparr>
     (IEvent (sample_event (fmupd ''a'' VNil fmempty))) =
   Inr (IEvent (sample_event (fmupd ''b'' VNil fmempty))) \<and>
   extract_Execute \<lparr>Source = ''a'', Target = ''b'', Overwrite = False\<rparr>
     (IEvent (sample_event fmempty)) = Inr (IEvent (sample_event fmempty))"
proof -
  have "extract_Execute \<lparr>Source = ''a'', Target = ''b'', Overwrite = False\<rparr>
     (IEvent (sample_event (fmupd ''a'' VNil fmempty))) =
     Inr (IEvent (sample_event (fmupd ''b'' VNil fmempty)))" by code_simp
  moreover have "GetField (sample_event fmempty) ''a'' = None" by code_simp
  ultimately show ?thesis
    using extract_event_cases [of "\<lparr>Source = ''a'', Target = ''b'', Overwrite = False\<rparr>" "sample_event fmempty"]
    by simp
qed

end
