(* ===== verification/Filters.thy ===== *)
theory Filters
  imports Transform
begin

text \<open>
  \<open>internal/transform/filter\<close> and \<open>internal/transform/split\<close>: the condition filter, the routing of
  events to topics through a header, and the transforms that expand one event into many.
\<close>

text \<open>An assignment to a header, on a new map when there is none\<close>

definition set_header :: "event \<Rightarrow> string \<Rightarrow> string \<Rightarrow> event" where
  "set_header ev k v = ev\<lparr>Headers := Some (fmupd k v (case Headers ev of None \<Rightarrow> fmempty | Some h \<Rightarrow> h))\<rparr>"

definition get_header :: "event \<Rightarrow> string \<Rightarrow> string option" where
  "get_header ev k = (case Headers ev of None \<Rightarrow> None | Some h \<Rightarrow> fmlookup h k)"

lemma set_header_simps [simp]:
  "Payload (set_header ev k v) = Payload ev"
  "Metadata (set_header ev k v) = Metadata ev"
  "Timestamp (set_header ev k v) = Timestamp ev"
  "same_origin (set_header ev k v) a = same_origin ev a"
  "get_header (set_header ev k v) j = (if j = k then Some v else get_header ev j)"
  by (simp_all add: set_header_def get_header_def split: option.split)

lemma GetField_set_header [simp]: "GetField (set_header ev k v) p = GetField ev p"
  by (simp add: GetField_def)

section \<open>\<open>filter.condition\<close>\<close>

record condition_config =
  Expression :: string

definition condition_Configure ::
  "regexp_compile \<Rightarrow> condition_config unmarshal \<Rightarrow> string \<Rightarrow> gerror + cond" where
  "condition_Configure compile unmarshal raw =
     (if length raw = 0 then Inl (Errorf ''condition expression required'' [])
      else bind_res (unmarshal raw) (\<lambda>cfg.
        if Expression cfg = [] then Inl (Errorf ''expression cannot be empty'' [])
        else case Parse compile (Expression cfg) of
               Inl err \<Rightarrow> Inl (wrap_err ''invalid condition expression: %w'' [] err)
             | Inr c \<Rightarrow> Inr c))"

definition condition_Execute :: "go_env \<Rightarrow> cond \<Rightarrow> item \<Rightarrow> gerror + item" where
  "condition_Execute env c = on_event ''unexpected payload type''
     (\<lambda>ev. case Evaluate env ev c of
             Inl err \<Rightarrow> Inl (wrap_err ''condition evaluation failed: %w'' [] err)
           | Inr match \<Rightarrow> if \<not> match then Inl ErrDrop else Inr (IEvent ev))"

section \<open>\<open>filter.route\<close>\<close>

abbreviation maxTopicNameLength :: nat where "maxTopicNameLength \<equiv> 249"

text \<open>
  The forbidden runes are single ASCII bytes, which never occur inside the encoding of another rune:
  the position of the first such byte is the position of the first such rune.
\<close>

fun validateTopicCharacters :: "nat \<Rightarrow> string \<Rightarrow> gerror option" where
  "validateTopicCharacters idx [] = None"
| "validateTopicCharacters idx (c # cs) =
     (if byte c \<in> {0x00, 0x0A, 0x0D}
      then Some (Errorf ''topic name contains invalid character %q at position %d''
                   [VInt32 (of_nat (byte c)), VInt (of_nat idx)])
      else validateTopicCharacters (idx + 1) cs)"

record condition_route =
  RouteCondition :: string
  RouteTopic :: string

record route_config =
  Conditions :: "condition_route list"
  Default :: string

record compiled_route =
  route_cond :: cond
  route_topic :: string

definition dotted :: "string \<Rightarrow> bool" where
  "dotted t = (hd t = CHR ''.'' \<or> last t = CHR ''.'')"

definition check_default :: "string \<Rightarrow> gerror option" where
  "check_default t =
     (if t = [] then None
      else if length t > maxTopicNameLength then
        Some (Errorf ''default topic name too long (max %d characters)'' [VInt (of_nat maxTopicNameLength)])
      else if dotted t then Some (Errorf ''default topic name cannot start or end with a dot'' [])
      else case validateTopicCharacters 0 t of
             Some err \<Rightarrow> Some (wrap_err ''default topic: %w'' [] err)
           | None \<Rightarrow> None)"

definition compile_route :: "regexp_compile \<Rightarrow> nat \<Rightarrow> condition_route \<Rightarrow> gerror + compiled_route" where
  "compile_route compile i entry =
     (let n = VInt (of_nat i); t = RouteTopic entry
      in if RouteCondition entry = [] then Inl (Errorf ''condition %d: expression cannot be empty'' [n])
         else if t = [] then Inl (Errorf ''condition %d: topic cannot be empty'' [n])
         else if length t > maxTopicNameLength then
           Inl (Errorf ''condition %d: topic name too long (max %d characters)''
                  [n, VInt (of_nat maxTopicNameLength)])
         else if dotted t then
           Inl (Errorf ''condition %d: topic name cannot start or end with a dot'' [n])
         else case validateTopicCharacters 0 t of
           Some err \<Rightarrow> Inl (wrap_err ''condition %d: %w'' [n] err)
         | None \<Rightarrow>
             (case Parse compile (RouteCondition entry) of
                Inl err \<Rightarrow> Inl (wrap_err (''condition %d: invalid expression '' @ [squote] @ ''%s'' @ [squote] @ '': %w'') [n, VStr (RouteCondition entry)] err)
              | Inr c \<Rightarrow> Inr \<lparr>route_cond = c, route_topic = t\<rparr>))"

fun compile_routes :: "regexp_compile \<Rightarrow> nat \<Rightarrow> condition_route list \<Rightarrow> gerror + compiled_route list" where
  "compile_routes compile i [] = Inr []"
| "compile_routes compile i (e # es) =
     bind_res (compile_route compile i e) (\<lambda>r.
     bind_res (compile_routes compile (i + 1) es) (\<lambda>rs. Inr (r # rs)))"

record route_transform =
  rules :: "compiled_route list"
  default_topic :: string

definition route_Configure ::
  "regexp_compile \<Rightarrow> route_config unmarshal \<Rightarrow> string \<Rightarrow> gerror + route_transform" where
  "route_Configure compile unmarshal raw =
     (if length raw = 0 then Inl (Errorf ''route conditions required'' [])
      else bind_res (unmarshal raw) (\<lambda>cfg.
        if Conditions cfg = [] \<and> Default cfg = [] then
          Inl (Errorf ''at least one condition or a default topic is required'' [])
        else case check_default (Default cfg) of
          Some err \<Rightarrow> Inl err
        | None \<Rightarrow> bind_res (compile_routes compile 0 (Conditions cfg))
                    (\<lambda>rs. Inr \<lparr>rules = rs, default_topic = Default cfg\<rparr>)))"

fun route_loop :: "go_env \<Rightarrow> event \<Rightarrow> compiled_route list \<Rightarrow> string \<Rightarrow> gerror + item" where
  "route_loop env ev [] dflt =
     (if dflt \<noteq> [] then Inr (IEvent (set_header ev ''_route_target'' dflt))
      else Inl (Errorf ''no matching route found and no default topic specified'' []))"
| "route_loop env ev (r # rs) dflt =
     (case Evaluate env ev (route_cond r) of
        Inl err \<Rightarrow> Inl (wrap_err ''condition evaluation failed: %w'' [] err)
      | Inr match \<Rightarrow>
          if match then Inr (IEvent (set_header ev ''_route_target'' (route_topic r)))
          else route_loop env ev rs dflt)"

definition init_headers :: "event \<Rightarrow> event" where
  "init_headers ev = (case Headers ev of None \<Rightarrow> ev\<lparr>Headers := Some fmempty\<rparr> | Some _ \<Rightarrow> ev)"

definition route_Execute :: "go_env \<Rightarrow> route_transform \<Rightarrow> item \<Rightarrow> gerror + item" where
  "route_Execute env t = on_event ''unexpected payload type''
     (\<lambda>ev. route_loop env (init_headers ev) (rules t) (default_topic t))"

section \<open>\<open>filter.split\<close>\<close>

text \<open>The elements of a value of kind slice or array, as \<open>reflect\<close> gives them\<close>

definition slice_elems :: "gval \<Rightarrow> gval list option" where
  "slice_elems v =
     (case v of
        VList xs \<Rightarrow> Some (case xs of None \<Rightarrow> [] | Some ys \<Rightarrow> ys)
      | VTyped t xs \<Rightarrow> Some (case xs of None \<Rightarrow> [] | Some ys \<Rightarrow> ys)
      | _ \<Rightarrow> None)"

definition array_elems :: "gval \<Rightarrow> gval list option" where
  "array_elems v = (case v of VArray t xs \<Rightarrow> Some xs | _ \<Rightarrow> slice_elems v)"

record split_config =
  SplitField :: string
  SplitTarget :: string
  DropEmpty :: bool

definition split_Configure :: "split_config unmarshal \<Rightarrow> string \<Rightarrow> gerror + split_config" where
  "split_Configure unmarshal raw =
     (if length raw = 0 then Inl (Errorf ''split configuration required'' [])
      else case unmarshal raw of
        Inl err \<Rightarrow> Inl (wrap_err ''failed to decode split config: %w'' [] err)
      | Inr cfg \<Rightarrow> if SplitField cfg = [] then Inl (Errorf ''field path is required'' []) else Inr cfg)"

definition split_one :: "event \<Rightarrow> string \<Rightarrow> string \<Rightarrow> nat \<Rightarrow> gval \<Rightarrow> event" where
  "split_one ev field target i x =
     set_header (SetField (RemoveField ev field) target x) ''_split_index'' (nat_digits i)"

definition split_event :: "split_config \<Rightarrow> event \<Rightarrow> gerror + item" where
  "split_event cfg ev =
     (case GetField ev (SplitField cfg) of
        None \<Rightarrow> if DropEmpty cfg then Inl ErrDrop else Inr INil
      | Some value \<Rightarrow>
          if value = VNil then (if DropEmpty cfg then Inl ErrDrop else Inr INil)
          else case array_elems value of
            None \<Rightarrow> Inl (Errorf ''field %s is not an array (got %T)''
                           [VStr (SplitField cfg), VStr (type_name value)])
          | Some xs \<Rightarrow>
              if length xs = 0 then (if DropEmpty cfg then Inl ErrDrop else Inr (IEvents []))
              else let target = (if SplitTarget cfg = [] then SplitField cfg else SplitTarget cfg)
                   in Inr (IEvents (map (\<lambda>(i, x). split_one ev (SplitField cfg) target i x)
                                      (enumerate 0 xs))))"

definition split_Execute :: "split_config \<Rightarrow> item \<Rightarrow> gerror + item" where
  "split_Execute cfg = on_event ''unexpected payload type'' (split_event cfg)"

section \<open>\<open>split.array\<close> and \<open>split.regex\<close>\<close>

record array_config =
  ArrayField :: string
  ArrayKey :: string

definition array_Configure :: "array_config unmarshal \<Rightarrow> string \<Rightarrow> gerror + array_config" where
  "array_Configure unmarshal raw =
     (if length raw = 0 then Inl (Errorf ''split array configuration required'' [])
      else case unmarshal raw of
        Inl err \<Rightarrow> Inl (wrap_err ''failed to unmarshal split array config: %w'' [] err)
      | Inr cfg \<Rightarrow>
          if ArrayField cfg = [] then Inl (Errorf ''field path is required'' [])
          else Inr (if ArrayKey cfg = [] then cfg\<lparr>ArrayKey := ''value''\<rparr> else cfg))"

text \<open>The body of the loop both transforms end with\<close>

definition expand_one :: "event \<Rightarrow> string \<Rightarrow> string \<Rightarrow> gval \<Rightarrow> event" where
  "expand_one ev field key x = RemoveField (SetField (Clone ev) key x) field"

definition array_event :: "array_config \<Rightarrow> event \<Rightarrow> gerror + item" where
  "array_event cfg ev =
     (case GetField ev (ArrayField cfg) of
        None \<Rightarrow> Inl (Errorf ''failed to get field %s: field does not exist'' [VStr (ArrayField cfg)])
      | Some v \<Rightarrow>
          if v = VNil then Inr (IEvents [])
          else case slice_elems v of
            None \<Rightarrow> Inl (Errorf ''field %s is not an array (got %T)''
                           [VStr (ArrayField cfg), VStr (type_name v)])
          | Some xs \<Rightarrow> Inr (IEvents (map (expand_one ev (ArrayField cfg) (ArrayKey cfg)) xs)))"

definition array_Execute :: "array_config \<Rightarrow> item \<Rightarrow> gerror + item" where
  "array_Execute cfg = on_event ''unexpected payload type'' (array_event cfg)"

record split_regex_config =
  RegexField :: string
  RegexPattern :: string
  RegexKey :: string

record split_regex_transform =
  rcfg :: split_regex_config
  rregex :: regex

definition split_regex_Configure ::
  "regexp_compile \<Rightarrow> split_regex_config unmarshal \<Rightarrow> string \<Rightarrow> gerror + split_regex_transform" where
  "split_regex_Configure compile unmarshal raw =
     (if length raw = 0 then Inl (Errorf ''split regex configuration required'' [])
      else case unmarshal raw of
        Inl err \<Rightarrow> Inl (wrap_err ''failed to unmarshal split regex config: %w'' [] err)
      | Inr cfg \<Rightarrow>
          if RegexField cfg = [] then Inl (Errorf ''field path is required'' [])
          else if RegexPattern cfg = [] then Inl (Errorf ''pattern is required'' [])
          else let cfg = (if RegexKey cfg = [] then cfg\<lparr>RegexKey := ''value''\<rparr> else cfg)
               in case compile (RegexPattern cfg) of
                    Inl err \<Rightarrow> Inl (wrap_err ''invalid regex pattern: %w'' [] err)
                  | Inr re \<Rightarrow> Inr \<lparr>rcfg = cfg, rregex = re\<rparr>)"

definition split_regex_event :: "split_regex_transform \<Rightarrow> event \<Rightarrow> gerror + item" where
  "split_regex_event t ev =
     (let cfg = rcfg t
      in case GetField ev (RegexField cfg) of
        None \<Rightarrow> Inl (Errorf ''failed to get field %s: field does not exist'' [VStr (RegexField cfg)])
      | Some VNil \<Rightarrow> Inr (IEvents [])
      | Some (VStr str) \<Rightarrow>
          Inr (IEvents (map (\<lambda>m. expand_one ev (RegexField cfg) (RegexKey cfg) (VStr m))
                          (FindAllString (rregex t) str)))
      | Some v \<Rightarrow> Inl (Errorf ''field %s is not a string (got %T)''
                       [VStr (RegexField cfg), VStr (type_name v)]))"

definition split_regex_Execute :: "split_regex_transform \<Rightarrow> item \<Rightarrow> gerror + item" where
  "split_regex_Execute t = on_event ''unexpected payload type'' (split_regex_event t)"

section \<open>Registration\<close>

definition condition_factory :: "go_env \<Rightarrow> condition_config unmarshal \<Rightarrow> 's factory" where
  "condition_factory env um =
     pure_factory ''filter.condition'' (condition_Configure (env_compile env) um) (condition_Execute env)"

definition route_factory :: "go_env \<Rightarrow> route_config unmarshal \<Rightarrow> 's factory" where
  "route_factory env um =
     pure_factory ''filter.route'' (route_Configure (env_compile env) um) (route_Execute env)"

definition split_factory :: "split_config unmarshal \<Rightarrow> 's factory" where
  "split_factory um = pure_factory ''filter.split'' (split_Configure um) split_Execute"

definition array_factory :: "array_config unmarshal \<Rightarrow> 's factory" where
  "array_factory um = pure_factory ''split.array'' (array_Configure um) array_Execute"

definition split_regex_factory :: "regexp_compile \<Rightarrow> split_regex_config unmarshal \<Rightarrow> 's factory" where
  "split_regex_factory compile um =
     pure_factory ''split.regex'' (split_regex_Configure compile um) split_regex_Execute"

section \<open>The contract of transforms\<close>

interpretation condition_tr: envelope_transform "condition_Execute env c" for env c
  unfolding condition_Execute_def by (rule on_event_envelope) (auto split: sum.splits if_splits)

lemma expand_one_envelope [simp]: "same_envelope (expand_one ev f k x) a = same_envelope ev a"
  by (simp add: expand_one_def)

interpretation array_tr: envelope_transform "array_Execute cfg" for cfg
  unfolding array_Execute_def
  by (rule on_event_envelope) (auto simp: array_event_def split: option.splits if_splits)

interpretation split_regex_tr: envelope_transform "split_regex_Execute t" for t
  unfolding split_regex_Execute_def
  by (rule on_event_envelope)
     (auto simp: split_regex_event_def Let_def split: option.splits gval.splits)

lemma init_headers_origin [simp]:
  "same_origin (init_headers ev) a = same_origin ev a"
  "same_origin a (init_headers ev) = same_origin a ev"
  by (simp_all add: init_headers_def same_origin_def split: option.split)

lemma route_loop_origin:
  "route_loop env ev rs d = Inr out \<Longrightarrow> ev' \<in> set (item_events out) \<Longrightarrow> same_origin ev' ev"
  by (induction rs) (auto split: sum.splits if_splits)

interpretation route_tr: event_transform "route_Execute env t" for env t
  unfolding route_Execute_def
  by (rule on_event_transform) (auto dest!: route_loop_origin)

lemma split_one_origin [simp]: "same_origin (split_one ev f t i x) a = same_origin ev a"
  by (simp add: split_one_def)

interpretation split_tr: event_transform "split_Execute cfg" for cfg
  unfolding split_Execute_def
  by (rule on_event_transform)
     (auto simp: split_event_def in_set_enumerate_eq Let_def split: option.splits if_splits)

section \<open>Routing\<close>

text \<open>A condition sees the payload only.\<close>

lemma Evaluate_payload:
  "Payload e = Payload e' \<Longrightarrow> Evaluate env e c = Evaluate env e' c"
  "Payload e = Payload e' \<Longrightarrow> evaluate_and env e cs = evaluate_and env e' cs"
  "Payload e = Payload e' \<Longrightarrow> evaluate_or env e cs = evaluate_or env e' cs"
proof (induction env e c and env e cs and env e cs rule: Evaluate_evaluate_and_evaluate_or.induct)
  case (5 env e f op t rx)
  then have "GetField e f = GetField e' f" by (simp add: GetField_def)
  then show ?case by (simp add: eval_comparison_def)
next
  case (7 env e c cs)
  then show ?case by (cases "Evaluate env e' c") auto
next
  case (9 env e c cs)
  then show ?case by (cases "Evaluate env e' c") auto
qed simp_all

lemma init_headers_payload [simp]: "Payload (init_headers ev) = Payload ev"
  by (simp add: init_headers_def split: option.split)

lemma Evaluate_init_headers: "Evaluate env (init_headers ev) c = Evaluate env ev c"
  by (rule Evaluate_payload(1)) simp

lemma get_header_init [simp]: "get_header (init_headers ev) k = get_header ev k"
  by (simp add: init_headers_def get_header_def split: option.split)

lemma route_loop_iff:
  "route_loop env ev rs d = Inr out \<longleftrightarrow>
     (\<exists>i < length rs. (\<forall>j < i. Evaluate env ev (route_cond (rs ! j)) = Inr False) \<and>
        Evaluate env ev (route_cond (rs ! i)) = Inr True \<and>
        out = IEvent (set_header ev ''_route_target'' (route_topic (rs ! i)))) \<or>
     (\<forall>r \<in> set rs. Evaluate env ev (route_cond r) = Inr False) \<and> d \<noteq> [] \<and>
        out = IEvent (set_header ev ''_route_target'' d)"
proof (induction rs)
  case (Cons r rs)
  show ?case
  proof (cases "Evaluate env ev (route_cond r) = Inr False")
    case True
    then show ?thesis using Cons by (simp add: Ex_less_Suc2 All_less_Suc2)
  next
    case False
    then show ?thesis
      by (cases "Evaluate env ev (route_cond r)") (auto simp: Ex_less_Suc2 All_less_Suc2)
  qed
qed auto

definition valid_topic :: "string \<Rightarrow> bool" where
  "valid_topic t \<longleftrightarrow> t \<noteq> [] \<and> length t \<le> 249 \<and> hd t \<noteq> CHR ''.'' \<and> last t \<noteq> CHR ''.'' \<and>
     (\<forall>c \<in> set t. byte c \<notin> {0x00, 0x0A, 0x0D})"

lemma validateTopicCharacters_None:
  "validateTopicCharacters i t = None \<longleftrightarrow> (\<forall>c \<in> set t. byte c \<notin> {0x00, 0x0A, 0x0D})"
  by (induction t arbitrary: i) auto

lemma check_default_None: "check_default t = None \<longleftrightarrow> t = [] \<or> valid_topic t"
  using validateTopicCharacters_None [of 0 t]
  by (cases "validateTopicCharacters 0 t")
     (auto simp: check_default_def valid_topic_def dotted_def not_less)

lemma compile_route_Inr:
  "compile_route compile i e = Inr r \<longleftrightarrow>
     RouteCondition e \<noteq> [] \<and> valid_topic (RouteTopic e) \<and> route_topic r = RouteTopic e \<and>
     Parse compile (RouteCondition e) = Inr (route_cond r)"
  using validateTopicCharacters_None [of 0 "RouteTopic e"]
  by (cases r; cases "validateTopicCharacters 0 (RouteTopic e)"; cases "Parse compile (RouteCondition e)")
     (auto simp: compile_route_def valid_topic_def dotted_def not_less Let_def)

lemma compile_routes_Inr:
  "compile_routes compile i es = Inr rs \<longleftrightarrow>
     list_all2 (\<lambda>e r. RouteCondition e \<noteq> [] \<and> valid_topic (RouteTopic e) \<and> route_topic r = RouteTopic e \<and>
       Parse compile (RouteCondition e) = Inr (route_cond r)) es rs"
  by (induction es arbitrary: i rs) (auto simp: bind_res_Inr_iff compile_route_Inr list_all2_Cons1)

section \<open>Properties\<close>

text \<open>C26: an event is routed to the topic of the first rule whose condition holds, all earlier ones
  being false, or to the default topic when all are false; nothing else of the event changes, and
  otherwise routing fails.\<close>

theorem route_first_match:
  "route_Execute env t (IEvent ev) = Inr out \<longleftrightarrow>
     (\<exists>ev' target. out = IEvent ev' \<and> Payload ev' = Payload ev \<and> Metadata ev' = Metadata ev \<and>
        Timestamp ev' = Timestamp ev \<and> ev' = set_header (init_headers ev) ''_route_target'' target \<and>
        ((\<exists>i < length (rules t).
            (\<forall>j < i. Evaluate env ev (route_cond (rules t ! j)) = Inr False) \<and>
            Evaluate env ev (route_cond (rules t ! i)) = Inr True \<and> target = route_topic (rules t ! i)) \<or>
         (\<forall>r \<in> set (rules t). Evaluate env ev (route_cond r) = Inr False) \<and>
            target \<noteq> [] \<and> target = default_topic t))"
proof -
  have [simp]: "Metadata (init_headers ev) = Metadata ev" "Timestamp (init_headers ev) = Timestamp ev"
    by (simp_all add: init_headers_def split: option.split)
  let ?first = "\<lambda>target. (\<exists>i < length (rules t).
      (\<forall>j < i. Evaluate env ev (route_cond (rules t ! j)) = Inr False) \<and>
      Evaluate env ev (route_cond (rules t ! i)) = Inr True \<and> target = route_topic (rules t ! i)) \<or>
    (\<forall>r \<in> set (rules t). Evaluate env ev (route_cond r) = Inr False) \<and> target \<noteq> [] \<and> target = default_topic t"
  have iff: "route_Execute env t (IEvent ev) = Inr out \<longleftrightarrow>
      (\<exists>target. ?first target \<and> out = IEvent (set_header (init_headers ev) ''_route_target'' target))"
    unfolding route_Execute_def on_event_simps(1) route_loop_iff Evaluate_init_headers by blast
  show ?thesis (is "?run \<longleftrightarrow> ?routed")
  proof
    assume ?run
    then obtain target where "?first target"
      and "out = IEvent (set_header (init_headers ev) ''_route_target'' target)" using iff by blast
    then show ?routed
      by (intro exI [of _ "set_header (init_headers ev) ''_route_target'' target"] exI [of _ target] conjI)
         simp_all
  next
    assume ?routed
    then obtain target where "?first target"
      and "out = IEvent (set_header (init_headers ev) ''_route_target'' target)" by metis
    then show ?run using iff by blast
  qed
qed

theorem route_first_match_witness:
  "route_Execute plain_env
     \<lparr>rules = [\<lparr>route_cond = ComparisonCondition ''a'' ''eq'' ''x'' None, route_topic = ''u''\<rparr>,
               \<lparr>route_cond = ComparisonCondition ''a'' ''ne'' ''x'' None, route_topic = ''v''\<rparr>], default_topic = []\<rparr>
     (IEvent (sample_event fmempty)) =
   Inr (IEvent (set_header (init_headers (sample_event fmempty)) ''_route_target'' ''v''))"
proof -
  let ?t = "\<lparr>rules = [\<lparr>route_cond = ComparisonCondition ''a'' ''eq'' ''x'' None, route_topic = ''u''\<rparr>,
               \<lparr>route_cond = ComparisonCondition ''a'' ''ne'' ''x'' None, route_topic = ''v''\<rparr>], default_topic = []\<rparr>"
  have "Evaluate plain_env (sample_event fmempty) (ComparisonCondition ''a'' ''eq'' ''x'' None) = Inr False"
    "Evaluate plain_env (sample_event fmempty) (ComparisonCondition ''a'' ''ne'' ''x'' None) = Inr True"
    by code_simp+
  then have "\<exists>i < length (rules ?t).
      (\<forall>j < i. Evaluate plain_env (sample_event fmempty) (route_cond (rules ?t ! j)) = Inr False) \<and>
      Evaluate plain_env (sample_event fmempty) (route_cond (rules ?t ! i)) = Inr True \<and> ''v'' = route_topic (rules ?t ! i)"
    by (intro exI [of _ 1]) simp
  moreover have "Metadata (init_headers ev) = Metadata ev" "Timestamp (init_headers ev) = Timestamp ev" for ev
    by (simp_all add: init_headers_def split: option.split)
  ultimately show ?thesis
    by (intro iffD2 [OF route_first_match] exI [of _ "set_header (init_headers (sample_event fmempty)) ''_route_target'' ''v''"]
        exI [of _ "''v''"] conjI disjI1) simp_all
qed

text \<open>A configured router sends events to valid topic names only (not empty, at most 249 bytes, no
  dot at the ends, no NUL, line feed or carriage return), and its rules are the configured ones in
  their order, each with a well-formed condition.\<close>

theorem route_Configure_valid:
  assumes "route_Configure compile unmarshal raw = Inr t"
  shows "(default_topic t = [] \<or> valid_topic (default_topic t)) \<and>
    (\<forall>r \<in> set (rules t). valid_topic (route_topic r) \<and> cond_ok compile (route_cond r)) \<and>
    (\<exists>cfg. unmarshal raw = Inr cfg \<and> map route_topic (rules t) = map RouteTopic (Conditions cfg)) \<and>
    (rules t \<noteq> [] \<or> default_topic t \<noteq> [])"
proof -
  obtain cfg where u: "unmarshal raw = Inr cfg" and ne: "\<not> (Conditions cfg = [] \<and> Default cfg = [])"
    and d: "check_default (Default cfg) = None"
    and c: "compile_routes compile 0 (Conditions cfg) = Inr (rules t)" and t: "default_topic t = Default cfg"
    using assms by (cases t) (auto simp: route_Configure_def bind_res_Inr_iff split: if_splits option.splits)
  note c2 = c [unfolded compile_routes_Inr]
  have "valid_topic (route_topic r) \<and> cond_ok compile (route_cond r)" if "r \<in> set (rules t)" for r
    using c2 that by (auto simp: list_all2_conv_all_nth in_set_conv_nth Parse_ok)
  moreover have "map route_topic (rules t) = map RouteTopic (Conditions cfg)"
    using c2 by (auto simp: list_all2_conv_all_nth intro!: nth_equalityI)
  moreover have "rules t \<noteq> [] \<or> default_topic t \<noteq> []" using ne c2 t by auto
  ultimately show ?thesis using u d t by (auto simp: check_default_None)
qed

theorem route_Configure_valid_witness:
  "valid_topic ''big'' \<and> valid_topic ''rest''"
proof -
  let ?um = "\<lambda>_. Inr \<lparr>Conditions = [\<lparr>RouteCondition = ''a > 3'', RouteTopic = ''big''\<rparr>], Default = ''rest''\<rparr>"
  let ?t = "\<lparr>rules = [\<lparr>route_cond = ComparisonCondition ''a'' ''gt'' ''3'' None, route_topic = ''big''\<rparr>],
             default_topic = ''rest''\<rparr>"
  have "route_Configure any_pattern ?um ''x'' = Inr ?t" by code_simp
  from route_Configure_valid [OF this] show ?thesis by simp
qed

text \<open>C11: \<open>split.array\<close> makes one event for each element, in order, without the array and otherwise
  with the envelope and the unrelated fields of the given event; the element is at the key unless
  the key is the field itself, where it is lost.\<close>

theorem array_expands:
  assumes "GetField ev (ArrayField cfg) = Some v" and "slice_elems v = Some xs" and "ArrayKey cfg \<noteq> []"
  shows "\<exists>evs. array_Execute cfg (IEvent ev) = Inr (IEvents evs) \<and> length evs = length xs \<and>
    (\<forall>i < length xs. same_envelope (evs ! i) ev \<and> GetField (evs ! i) (ArrayField cfg) = None \<and>
       (\<not> related_paths (ArrayField cfg) (ArrayKey cfg) \<longrightarrow> GetField (evs ! i) (ArrayKey cfg) = Some (xs ! i)) \<and>
       (ArrayKey cfg = ArrayField cfg \<longrightarrow> GetField (evs ! i) (ArrayKey cfg) = None) \<and>
       (\<forall>q. \<not> related_paths (ArrayField cfg) q \<and> \<not> related_paths (ArrayKey cfg) q \<longrightarrow>
          GetField (evs ! i) q = GetField ev q))"
proof -
  have "v \<noteq> VNil" using assms(2) by (auto simp: slice_elems_def)
  then show ?thesis
    using assms by (simp add: array_Execute_def array_event_def expand_one_def es.get_remove
        es.move_target es.move_other)
qed

theorem array_expands_witness:
  "\<exists>evs. array_Execute \<lparr>ArrayField = ''xs'', ArrayKey = ''x''\<rparr>
     (IEvent (sample_event (fmupd ''xs'' (VList (Some [VBool True, VNil])) fmempty))) = Inr (IEvents evs) \<and>
   length evs = 2"
  using array_expands [of "sample_event (fmupd ''xs'' (VList (Some [VBool True, VNil])) fmempty)"
      "\<lparr>ArrayField = ''xs'', ArrayKey = ''x''\<rparr>" "VList (Some [VBool True, VNil])" "[VBool True, VNil]"]
  by (auto simp: GetField_top sample_event_def slice_elems_def)

text \<open>C21: \<open>filter.split\<close> makes one event for each element, in order, numbered in a header, with the
  element at the target, also when the target is the array field itself.\<close>

theorem split_expands:
  assumes "GetField ev (SplitField cfg) = Some v" and "array_elems v = Some xs" and "xs \<noteq> []"
  shows "\<exists>evs. split_Execute cfg (IEvent ev) = Inr (IEvents evs) \<and> length evs = length xs \<and>
    (\<forall>i < length xs. let target = (if SplitTarget cfg = [] then SplitField cfg else SplitTarget cfg)
       in GetField (evs ! i) target = Some (xs ! i) \<and>
          get_header (evs ! i) ''_split_index'' = Some (nat_digits i) \<and> same_origin (evs ! i) ev \<and>
          (\<forall>q. \<not> related_paths (SplitField cfg) q \<and> \<not> related_paths target q \<longrightarrow>
             GetField (evs ! i) q = GetField ev q))"
proof -
  have "v \<noteq> VNil" using assms(2) by (auto simp: array_elems_def slice_elems_def)
  moreover have "SplitField cfg \<noteq> []" using assms(1) by (auto simp: GetField_def)
  ultimately show ?thesis
    using assms by (simp add: split_Execute_def split_event_def split_one_def Let_def nth_enumerate_eq
        es.get_put es.get_put_other es.get_remove_other)
qed

theorem split_expands_witness:
  "\<exists>evs. split_Execute \<lparr>SplitField = ''xs'', SplitTarget = [], DropEmpty = False\<rparr>
     (IEvent (sample_event (fmupd ''xs'' (VList (Some [VBool True])) fmempty))) = Inr (IEvents evs) \<and>
   length evs = 1"
  using split_expands [of "sample_event (fmupd ''xs'' (VList (Some [VBool True])) fmempty)"
      "\<lparr>SplitField = ''xs'', SplitTarget = [], DropEmpty = False\<rparr>" "VList (Some [VBool True])" "[VBool True]"]
  by (auto simp: GetField_top sample_event_def array_elems_def slice_elems_def)

end
