(* ===== verification/Validate.thy ===== *)
theory Validate
  imports Filters
begin

text \<open>
  \<open>internal/transform/validate\<close>: required fields, rule expressions and JSON schemas, with the three
  reactions \<open>drop\<close>, \<open>dlq\<close> and \<open>fail\<close>. The schema library is an argument: a compiled schema is the
  function from a payload to the texts of its violations.
\<close>

section \<open>\<open>validate.required\<close>\<close>

record required_config =
  RequiredFields :: "string list"
  RequiredOnError :: string

definition valid_on_error :: "string \<Rightarrow> bool" where
  "valid_on_error s = (s = ''drop'' \<or> s = ''dlq'' \<or> s = ''fail'')"

definition on_error_or_drop :: "string \<Rightarrow> string" where
  "on_error_or_drop s = (if s = [] then ''drop'' else s)"

definition bad_on_error :: gerror where
  "bad_on_error = Errorf (''on_error must be '' @ [squote] @ ''drop'' @ [squote] @ '', '' @ [squote] @
     ''dlq'' @ [squote] @ '', or '' @ [squote] @ ''fail'' @ [squote]) []"

definition required_Configure :: "required_config unmarshal \<Rightarrow> string \<Rightarrow> gerror + required_config" where
  "required_Configure unmarshal raw =
     (if length raw = 0 then Inl (Errorf ''required fields configuration required'' [])
      else bind_res (unmarshal raw) (\<lambda>cfg.
        if RequiredFields cfg = [] then
          Inl (Errorf ''at least one required field must be specified'' [])
        else let cfg = cfg\<lparr>RequiredOnError := on_error_or_drop (RequiredOnError cfg)\<rparr>
             in if \<not> valid_on_error (RequiredOnError cfg) then Inl bad_on_error else Inr cfg))"

definition mark_dlq :: "event \<Rightarrow> string \<Rightarrow> string \<Rightarrow> event" where
  "mark_dlq ev reason name =
     set_header (set_header (init_headers ev) ''_dlq_reason'' reason) ''_dlq_transform'' name"

definition missing_fields :: "event \<Rightarrow> string list \<Rightarrow> string list" where
  "missing_fields ev fs = filter (\<lambda>f. GetField ev f = None) fs"

definition required_event :: "required_config \<Rightarrow> event \<Rightarrow> gerror + item" where
  "required_event cfg ev =
     (let missing = missing_fields ev (RequiredFields cfg)
      in if length missing > 0 then
           (let errMsg = ''required fields missing: '' @ fmt_strings missing; r = RequiredOnError cfg
            in if r = ''drop'' then Inl ErrDrop
               else if r = ''dlq'' then Inr (IEvent (mark_dlq ev errMsg ''validate.required''))
               else if r = ''fail'' then Inl (Errorf ''%s'' [VStr errMsg])
               else Inl (Errorf ''invalid on_error value: %s'' [VStr r]))
         else Inr (IEvent ev))"

definition required_Execute :: "required_config \<Rightarrow> item \<Rightarrow> gerror + item" where
  "required_Execute cfg = on_event ''unexpected payload type'' (required_event cfg)"

section \<open>\<open>validate.rules\<close>\<close>

record rules_config =
  RuleExprs :: "(string, string) fmap option"
  RulesOnError :: string

record rules_transform =
  rule_conds :: "(string, cond) fmap"
  rules_on_error :: string

fun compile_rules ::
  "regexp_compile \<Rightarrow> (string, string) fmap \<Rightarrow> string list \<Rightarrow> (string, cond) fmap \<Rightarrow>
   gerror + (string, cond) fmap" where
  "compile_rules compile m [] rs = Inr rs"
| "compile_rules compile m (name # names) rs =
     (case fmlookup m name of
        None \<Rightarrow> compile_rules compile m names rs
      | Some expr \<Rightarrow>
          (case Parse compile expr of
             Inl err \<Rightarrow> Inl (wrap_err (''invalid rule '' @ [squote] @ ''%s'' @ [squote] @ '': %w'') [VStr name] err)
           | Inr c \<Rightarrow> compile_rules compile m names (fmupd name c rs)))"

definition rules_Configure ::
  "iter \<Rightarrow> regexp_compile \<Rightarrow> rules_config unmarshal \<Rightarrow> string \<Rightarrow> gerror + rules_transform" where
  "rules_Configure ord compile unmarshal raw =
     (if length raw = 0 then Inl (Errorf ''rules validation configuration required'' [])
      else bind_res (unmarshal raw) (\<lambda>cfg.
        let m = (case RuleExprs cfg of None \<Rightarrow> fmempty | Some m \<Rightarrow> m)
        in if fmdom m = {||} then Inl (Errorf ''at least one rule must be specified'' [])
           else let oe = on_error_or_drop (RulesOnError cfg)
                in if \<not> valid_on_error oe then Inl bad_on_error
                   else bind_res (compile_rules compile m (ord (fmdom m)) fmempty)
                          (\<lambda>rs. Inr \<lparr>rule_conds = rs, rules_on_error = oe\<rparr>)))"

definition rule_eval_msg :: string where
  "rule_eval_msg = ''rule evaluation failed for '' @ [squote] @ ''%s'' @ [squote] @ '': %w''"

fun eval_rules ::
  "go_env \<Rightarrow> event \<Rightarrow> (string, cond) fmap \<Rightarrow> string list \<Rightarrow> string list \<Rightarrow> gerror + string list" where
  "eval_rules env ev rs [] failed = Inr failed"
| "eval_rules env ev rs (name # names) failed =
     (case fmlookup rs name of
        None \<Rightarrow> eval_rules env ev rs names failed
      | Some c \<Rightarrow>
          (case Evaluate env ev c of
             Inl err \<Rightarrow>
               Inl (wrap_err rule_eval_msg
                      [VStr name] err)
           | Inr match \<Rightarrow>
               if \<not> match then eval_rules env ev rs names (failed @ [name])
               else eval_rules env ev rs names failed))"

definition rules_outcome :: "rules_transform \<Rightarrow> event \<Rightarrow> string list \<Rightarrow> gerror + item" where
  "rules_outcome t ev failedRules =
     (if length failedRules > 0 then
        (let errMsg = ''validation rules failed: '' @ fmt_strings (sort failedRules); r = rules_on_error t
         in if r = ''drop'' then Inl ErrDrop
            else if r = ''dlq'' then Inr (IEvent (mark_dlq ev errMsg ''validate.rules''))
            else if r = ''fail'' then Inl (Errorf errMsg [])
            else Inr (IEvent ev))
      else Inr (IEvent ev))"

definition rules_Execute :: "iter \<Rightarrow> go_env \<Rightarrow> rules_transform \<Rightarrow> item \<Rightarrow> gerror + item" where
  "rules_Execute ord env t = on_event ''unexpected payload type''
     (\<lambda>ev. bind_res (eval_rules env ev (rule_conds t) (ord (fmdom (rule_conds t))) [])
             (rules_outcome t ev))"

section \<open>\<open>validate.schema\<close>\<close>

record schema_config =
  SchemaFile :: string
  SchemaOnError :: string

type_synonym schema = "gmap \<Rightarrow> gerror + string list"

record schema_transform =
  schema_fn :: schema
  schema_on_error :: string

definition schema_Configure ::
  "(string \<Rightarrow> gerror + string) \<Rightarrow> (string \<Rightarrow> gerror + gval) \<Rightarrow> (gval \<Rightarrow> gerror + schema) \<Rightarrow>
   schema_config unmarshal \<Rightarrow> string \<Rightarrow> gerror + schema_transform" where
  "schema_Configure read_file json_parse new_schema unmarshal raw =
     (if length raw = 0 then Inl (Errorf ''schema validation configuration required'' [])
      else bind_res (unmarshal raw) (\<lambda>cfg.
        if SchemaFile cfg = [] then Inl (Errorf ''schema_file is required'' [])
        else let oe = on_error_or_drop (SchemaOnError cfg)
          in if \<not> valid_on_error oe then Inl bad_on_error
             else case read_file (SchemaFile cfg) of
               Inl err \<Rightarrow> Inl (wrap_err ''failed to read schema file: %w'' [] err)
             | Inr data \<Rightarrow>
                 (case json_parse data of
                    Inl err \<Rightarrow> Inl (wrap_err ''failed to parse schema JSON: %w'' [] err)
                  | Inr j \<Rightarrow>
                      (case new_schema j of
                         Inl err \<Rightarrow> Inl (wrap_err ''invalid JSON schema: %w'' [] err)
                       | Inr sc \<Rightarrow> Inr \<lparr>schema_fn = sc, schema_on_error = oe\<rparr>))))"

definition schema_event :: "schema_transform \<Rightarrow> event \<Rightarrow> gerror + item" where
  "schema_event t ev =
     (case schema_fn t (Payload ev) of
        Inl err \<Rightarrow> Inl (wrap_err ''schema validation error: %w'' [] err)
      | Inr errors \<Rightarrow>
          (if errors \<noteq> [] then
             (let errMessages = concat (map (\<lambda>e. e @ ''; '') errors); r = schema_on_error t
              in if r = ''drop'' then Inl ErrDrop
                 else if r = ''dlq'' then Inr (IEvent (mark_dlq ev errMessages ''validate.schema''))
                 else if r = ''fail'' then Inl (Errorf ''schema validation failed: %s'' [VStr errMessages])
                 else Inl (Errorf ''invalid on_error value: %s'' [VStr r]))
           else Inr (IEvent ev)))"

definition schema_Execute :: "schema_transform \<Rightarrow> item \<Rightarrow> gerror + item" where
  "schema_Execute t = on_event ''unexpected payload type'' (schema_event t)"

section \<open>Registration\<close>

definition required_factory :: "required_config unmarshal \<Rightarrow> 's factory" where
  "required_factory um = pure_factory ''validate.required'' (required_Configure um) required_Execute"

definition rules_factory :: "iter \<Rightarrow> go_env \<Rightarrow> rules_config unmarshal \<Rightarrow> 's factory" where
  "rules_factory ord env um =
     pure_factory ''validate.rules'' (rules_Configure ord (env_compile env) um) (rules_Execute ord env)"

definition schema_factory ::
  "(string \<Rightarrow> gerror + string) \<Rightarrow> (string \<Rightarrow> gerror + gval) \<Rightarrow> (gval \<Rightarrow> gerror + schema) \<Rightarrow>
   schema_config unmarshal \<Rightarrow> 's factory" where
  "schema_factory read_file json_parse new_schema um =
     pure_factory ''validate.schema'' (schema_Configure read_file json_parse new_schema um) schema_Execute"

section \<open>The contract of transforms\<close>

lemma mark_dlq_origin [simp]: "same_origin (mark_dlq ev r n) a = same_origin ev a"
  by (simp add: mark_dlq_def)

lemma mark_dlq_payload [simp]: "Payload (mark_dlq ev r n) = Payload ev"
  by (simp add: mark_dlq_def)

lemma mark_dlq_headers [simp]:
  "get_header (mark_dlq ev r n) k =
     (if k = ''_dlq_transform'' then Some n else if k = ''_dlq_reason'' then Some r else get_header ev k)"
  by (simp add: mark_dlq_def)

interpretation required_tr: event_transform "required_Execute cfg" for cfg
  unfolding required_Execute_def
  by (rule on_event_transform) (auto simp: required_event_def Let_def split: if_splits)

interpretation rules_tr: event_transform "rules_Execute ord env t" for ord env t
  unfolding rules_Execute_def
  by (rule on_event_transform)
     (auto simp: rules_outcome_def bind_res_Inr_iff Let_def split: if_splits)

interpretation schema_tr: event_transform "schema_Execute t" for t
  unfolding schema_Execute_def
  by (rule on_event_transform) (auto simp: schema_event_def Let_def split: if_splits sum.splits)

section \<open>Rules\<close>

definition rule_fails :: "go_env \<Rightarrow> event \<Rightarrow> (string, cond) fmap \<Rightarrow> string \<Rightarrow> bool" where
  "rule_fails env ev rs name = (\<exists>c. fmlookup rs name = Some c \<and> Evaluate env ev c = Inr False)"

definition rule_error :: "go_env \<Rightarrow> event \<Rightarrow> (string, cond) fmap \<Rightarrow> string \<Rightarrow> gerror \<Rightarrow> bool" where
  "rule_error env ev rs name err = (\<exists>c. fmlookup rs name = Some c \<and> Evaluate env ev c = Inl err)"

lemma eval_rules_ok:
  "(\<And>n e. n \<in> set names \<Longrightarrow> \<not> rule_error env ev rs n e) \<Longrightarrow>
   eval_rules env ev rs names failed = Inr (failed @ filter (rule_fails env ev rs) names)"
proof (induction names arbitrary: failed)
  case (Cons n names)
  show ?case
  proof (cases "fmlookup rs n")
    case (Some c)
    have "\<not> rule_error env ev rs n e" for e using Cons.prems by simp
    with Some obtain b where "Evaluate env ev c = Inr b"
      by (cases "Evaluate env ev c") (auto simp: rule_error_def)
    with Some Cons show ?thesis by (cases b) (simp_all add: rule_fails_def)
  qed (use Cons in \<open>simp add: rule_fails_def\<close>)
qed simp

lemma eval_rules_err:
  "n \<in> set names \<Longrightarrow> rule_error env ev rs n e \<Longrightarrow>
   \<exists>n' e'. n' \<in> set names \<and> rule_error env ev rs n' e' \<and> eval_rules env ev rs names failed =
     Inl (wrap_err rule_eval_msg [VStr n'] e')"
proof (induction names arbitrary: failed)
  case (Cons m names)
  show ?case
  proof (cases "\<exists>e'. rule_error env ev rs m e'")
    case True
    then show ?thesis by (auto simp: rule_error_def intro!: exI [of _ m])
  next
    case False
    with Cons.prems have "n \<in> set names" by auto
    with Cons obtain n' e' where "n' \<in> set names" "rule_error env ev rs n' e'"
      and ev: "\<And>failed. \<exists>n' e'. n' \<in> set names \<and> rule_error env ev rs n' e' \<and>
        eval_rules env ev rs names failed =
          Inl (wrap_err rule_eval_msg [VStr n'] e')"
      by blast
    from False show ?thesis
    proof (cases "fmlookup rs m")
      case (Some c)
      with False obtain b where "Evaluate env ev c = Inr b"
        by (cases "Evaluate env ev c") (auto simp: rule_error_def)
      with Some ev [of failed] ev [of "failed @ [m]"] show ?thesis by (cases b) auto
    qed (use ev [of failed] in auto)
  qed
qed simp

lemma sort_filter_iter:
  "iter_ok ord \<Longrightarrow> sort (filter P (ord S)) = filter P (sorted_keys S)"
  by (rule sorted_distinct_set_unique)
     (auto simp: iter_okD sorted_list_of_fset.rep_eq sorted_wrt_filter)

section \<open>Properties\<close>

text \<open>Required fields let an event with all of them through unchanged; an event without some is
  dropped, or marked for the dead letter queue with the missing names and the payload unchanged, or
  refused, as the configuration says.\<close>

theorem required_outcome:
  assumes "required_Configure unmarshal raw = Inr cfg"
  shows "required_Execute cfg (IEvent ev) =
     (if \<forall>f \<in> set (RequiredFields cfg). GetField ev f \<noteq> None then Inr (IEvent ev)
      else let reason = ''required fields missing: '' @
                 fmt_strings (filter (\<lambda>f. GetField ev f = None) (RequiredFields cfg))
           in if RequiredOnError cfg = ''drop'' then Inl ErrDrop
              else if RequiredOnError cfg = ''dlq'' then Inr (IEvent (mark_dlq ev reason ''validate.required''))
              else Inl (Errorf ''%s'' [VStr reason])) \<and>
    RequiredOnError cfg \<in> {''drop'', ''dlq'', ''fail''} \<and> RequiredFields cfg \<noteq> []"
proof -
  have "valid_on_error (RequiredOnError cfg)" and "RequiredFields cfg \<noteq> []"
    using assms by (auto simp: required_Configure_def bind_res_Inr_iff Let_def split: if_splits)
  then show ?thesis
    by (auto simp: required_Execute_def required_event_def missing_fields_def valid_on_error_def Let_def
        filter_empty_conv)
qed

theorem required_outcome_witness:
  "required_Execute \<lparr>RequiredFields = [''a''], RequiredOnError = ''drop''\<rparr> (IEvent (sample_event fmempty)) =
   Inl ErrDrop"
  using required_outcome [of "\<lambda>_. Inr \<lparr>RequiredFields = [''a''], RequiredOnError = []\<rparr>" "''x''"
      "\<lparr>RequiredFields = [''a''], RequiredOnError = ''drop''\<rparr>" "sample_event fmempty"]
  by (simp add: required_Configure_def on_error_or_drop_def valid_on_error_def GetField_top sample_event_def)

text \<open>C27: Whatever the order in which the rules are visited, the outcome is an error of one of the rules
  when one has an error, and otherwise depends only on the set of failed rules, which are reported in
  sorted order.\<close>

theorem rules_outcome_order:
  assumes "iter_ok ord"
  shows "if \<exists>n e. rule_error env ev (rule_conds t) n e
    then \<exists>n e. rule_error env ev (rule_conds t) n e \<and> rules_Execute ord env t (IEvent ev) =
      Inl (wrap_err rule_eval_msg [VStr n] e)
    else rules_Execute ord env t (IEvent ev) =
      rules_outcome t ev (filter (rule_fails env ev (rule_conds t)) (sorted_keys (fmdom (rule_conds t))))"
proof -
  let ?rs = "rule_conds t" and ?names = "ord (fmdom (rule_conds t))"
  have mem: "rule_error env ev ?rs n e \<Longrightarrow> n \<in> set ?names" for n e
    using iter_okD(2) [OF assms] by (auto simp: rule_error_def intro: fmdomI)
  have "rules_outcome t ev (filter P ?names) = rules_outcome t ev (sort (filter P ?names))" for P
    by (simp add: rules_outcome_def sorted_sort_id)
  then have sorted: "rules_outcome t ev (filter P ?names) =
      rules_outcome t ev (filter P (sorted_keys (fmdom ?rs)))" for P
    by (simp add: sort_filter_iter [OF assms])
  show ?thesis
  proof (cases "\<exists>n e. rule_error env ev ?rs n e")
    case True
    then obtain n e where "rule_error env ev ?rs n e" by blast
    from eval_rules_err [OF mem [OF this] this, of "[]"] obtain n' e' where
      "rule_error env ev ?rs n' e'"
      "eval_rules env ev ?rs ?names [] = Inl (wrap_err rule_eval_msg [VStr n'] e')" by blast
    then have "rules_Execute ord env t (IEvent ev) = Inl (wrap_err rule_eval_msg [VStr n'] e')"
      by (simp add: rules_Execute_def)
    with \<open>rule_error env ev ?rs n' e'\<close> show ?thesis by auto
  next
    case False
    then have "eval_rules env ev ?rs ?names [] = Inr (filter (rule_fails env ev ?rs) ?names)"
      using eval_rules_ok [of ?names env ev ?rs "[]"] by simp
    with False sorted show ?thesis by (simp add: rules_Execute_def)
  qed
qed

theorem rules_outcome_order_witness:
  "rules_Execute (\<lambda>S. rev (sorted_keys S)) plain_env
     \<lparr>rule_conds = fmupd ''r'' (ComparisonCondition ''a'' ''eq'' ''1'' None)
        (fmupd ''q'' (ComparisonCondition ''b'' ''eq'' ''1'' None) fmempty), rules_on_error = ''fail''\<rparr>
     (IEvent (sample_event fmempty)) = Inl (Errorf ''validation rules failed: [q r]'' [])"
proof -
  let ?t = "\<lparr>rule_conds = fmupd ''r'' (ComparisonCondition ''a'' ''eq'' ''1'' None)
        (fmupd ''q'' (ComparisonCondition ''b'' ''eq'' ''1'' None) fmempty), rules_on_error = ''fail''\<rparr>"
  have ok: "iter_ok (\<lambda>S. rev (sorted_keys S))"
    using iter_ok_sorted by (simp add: iter_ok_def)
  have false: "eval_comparison plain_env (sample_event fmempty) ''a'' ''eq'' ''1'' None = Inr False"
    "eval_comparison plain_env (sample_event fmempty) ''b'' ''eq'' ''1'' None = Inr False" by code_simp+
  have none: "\<not> (\<exists>n e. rule_error plain_env (sample_event fmempty) (rule_conds ?t) n e)"
    by (auto simp: rule_error_def false)
  have "rules_outcome ?t (sample_event fmempty) (filter (rule_fails plain_env (sample_event fmempty) (rule_conds ?t))
      [''q'', ''r'']) = Inl (Errorf ''validation rules failed: [q r]'' [])"
  proof -
    have f: "filter (rule_fails plain_env (sample_event fmempty) (rule_conds ?t)) [''q'', ''r''] = [''q'', ''r'']"
      by (simp add: rule_fails_def false)
    have m: "sort [''q'', ''r''] = [''q'', ''r'']" "fmt_strings [''q'', ''r''] = ''[q r]''" by code_simp+
    show ?thesis unfolding f by (simp only: rules_outcome_def m Let_def) simp
  qed
  moreover have "sorted_keys (fmdom (rule_conds ?t)) = [''q'', ''r'']" by code_simp
  ultimately show ?thesis
    using rules_outcome_order [OF ok, of plain_env "sample_event fmempty" ?t] none by (simp only: if_False)
qed

end
