(* ===== verification/Go_Encode.thy ===== *)
theory Go_Encode
  imports Go_Utf8
begin

text \<open>
  The encodings of byte strings the sources call, with their decoders: \<open>encoding/hex\<close>, the standard
  alphabet of \<open>encoding/base64\<close>, and \<open>url.QueryEscape\<close>. A decoder returns \<open>None\<close> for its error.
\<close>

definition nibble :: "string \<Rightarrow> nat \<Rightarrow> char" where
  "nibble digits n = digits ! n"

abbreviation hex_lower :: string where "hex_lower \<equiv> ''0123456789abcdef''"
abbreviation hex_upper :: string where "hex_upper \<equiv> ''0123456789ABCDEF''"

lemma byte_less [simp]: "byte c < 256"
  by (simp add: byte_def)

lemma char_of_byte [simp]: "char_of (byte c) = c"
  by (simp add: byte_def)

lemma byte_char_of: "n < 256 \<Longrightarrow> byte (char_of n) = n"
  by (simp add: byte_def)

section \<open>Hexadecimal\<close>

definition is_hex :: "char \<Rightarrow> bool" where
  "is_hex c = (is_digit c \<or> is_hex_letter c)"

definition hex_byte :: "string \<Rightarrow> char \<Rightarrow> string" where
  "hex_byte digits c = [nibble digits (byte c div 16), nibble digits (byte c mod 16)]"

definition hex_encode :: "string \<Rightarrow> string" where
  "hex_encode s = concat (map (hex_byte hex_lower) s)"

definition hex_pair :: "char \<Rightarrow> char \<Rightarrow> char option" where
  "hex_pair a b = (if is_hex a \<and> is_hex b then Some (char_of (16 * hex_val a + hex_val b)) else None)"

fun hex_decode :: "string \<Rightarrow> string option" where
  "hex_decode [] = Some []"
| "hex_decode [a] = None"
| "hex_decode (a # b # s) =
     (case hex_pair a b of
        None \<Rightarrow> None
      | Some c \<Rightarrow> map_option (Cons c) (hex_decode s))"

lemma nibble_lower: "n < 16 \<Longrightarrow> is_hex (nibble hex_lower n) \<and> hex_val (nibble hex_lower n) = n"
proof -
  have "list_all (\<lambda>n. is_hex (nibble hex_lower n) \<and> hex_val (nibble hex_lower n) = n) [0..<16]"
    by code_simp
  then show "n < 16 \<Longrightarrow> ?thesis" by (auto simp: list_all_iff)
qed

lemma nibble_upper: "n < 16 \<Longrightarrow> is_hex (nibble hex_upper n) \<and> hex_val (nibble hex_upper n) = n"
proof -
  have "list_all (\<lambda>n. is_hex (nibble hex_upper n) \<and> hex_val (nibble hex_upper n) = n) [0..<16]"
    by code_simp
  then show "n < 16 \<Longrightarrow> ?thesis" by (auto simp: list_all_iff)
qed

lemma hex_pair_nibbles:
  "hex_pair (nibble hex_lower (byte c div 16)) (nibble hex_lower (byte c mod 16)) = Some c"
  "hex_pair (nibble hex_upper (byte c div 16)) (nibble hex_upper (byte c mod 16)) = Some c"
proof -
  have "byte c div 16 < 16" "byte c mod 16 < 16" using byte_less [of c] by (simp_all add: div_less_iff_less_mult del: byte_less)
  then show "hex_pair (nibble hex_lower (byte c div 16)) (nibble hex_lower (byte c mod 16)) = Some c"
    "hex_pair (nibble hex_upper (byte c div 16)) (nibble hex_upper (byte c mod 16)) = Some c"
    by (simp_all add: hex_pair_def nibble_lower nibble_upper)
qed

lemma hex_decode_encode: "hex_decode (hex_encode s) = Some s"
  by (induction s) (simp_all add: hex_encode_def hex_byte_def hex_pair_nibbles)

lemma hex_encode_length: "length (hex_encode s) = 2 * length s"
  by (induction s) (simp_all add: hex_encode_def hex_byte_def)

section \<open>Base 64\<close>

text \<open>The alphabet: the capitals, the small letters, the digits, plus and slash\<close>

definition b64_char :: "nat \<Rightarrow> char" where
  "b64_char k =
     (let n = k mod 64
      in char_of (if n < 26 then 0x41 + n else if n < 52 then 0x61 + (n - 26)
                  else if n < 62 then 0x30 + (n - 52) else if n = 62 then 0x2B else 0x2F))"

definition b64_val :: "char \<Rightarrow> nat option" where
  "b64_val c =
     (let n = byte c
      in if 0x41 \<le> n \<and> n \<le> 0x5A then Some (n - 0x41)
         else if 0x61 \<le> n \<and> n \<le> 0x7A then Some (n - 0x61 + 26)
         else if 0x30 \<le> n \<and> n \<le> 0x39 then Some (n - 0x30 + 52)
         else if n = 0x2B then Some 62 else if n = 0x2F then Some 63 else None)"

abbreviation b64_pad :: char where "b64_pad \<equiv> CHR ''=''"

fun base64_encode :: "string \<Rightarrow> string" where
  "base64_encode [] = []"
| "base64_encode [a] = [b64_char (byte a div 4), b64_char (byte a mod 4 * 16), b64_pad, b64_pad]"
| "base64_encode [a, b] =
     [b64_char (byte a div 4), b64_char (byte a mod 4 * 16 + byte b div 16), b64_char (byte b mod 16 * 4), b64_pad]"
| "base64_encode (a # b # c # s) =
     b64_char (byte a div 4) # b64_char (byte a mod 4 * 16 + byte b div 16) #
     b64_char (byte b mod 16 * 4 + byte c div 64) # b64_char (byte c mod 64) # base64_encode s"

text \<open>
  The decoder skips line ends wherever they are. Four characters are three bytes; padding ends the
  input, and the bits under it are not looked at.
\<close>

fun b64_quanta :: "string \<Rightarrow> string option" where
  "b64_quanta [] = Some []"
| "b64_quanta (a # b # c # d # s) =
     (case (b64_val a, b64_val b) of
        (Some w, Some x) \<Rightarrow>
          (case b64_val c of
             None \<Rightarrow> if c = b64_pad \<and> d = b64_pad \<and> s = [] then Some [char_of (w * 4 + x div 16)] else None
           | Some y \<Rightarrow>
               (case b64_val d of
                  None \<Rightarrow>
                    if d = b64_pad \<and> s = []
                    then Some [char_of (w * 4 + x div 16), char_of (x mod 16 * 16 + y div 4)] else None
                | Some z \<Rightarrow>
                    map_option (\<lambda>r. char_of (w * 4 + x div 16) # char_of (x mod 16 * 16 + y div 4) #
                      char_of (y mod 4 * 64 + z) # r) (b64_quanta s)))
      | _ \<Rightarrow> None)"
| "b64_quanta _ = None"

definition is_line_end :: "char \<Rightarrow> bool" where
  "is_line_end c = (byte c = 0x0A \<or> byte c = 0x0D)"

definition base64_decode :: "string \<Rightarrow> string option" where
  "base64_decode s = b64_quanta (filter (\<lambda>c. \<not> is_line_end c) s)"

lemma b64_val_char [simp]: "b64_val (b64_char n) = Some (n mod 64)"
proof -
  define k where "k = n mod 64"
  have "k < 64" by (simp add: k_def)
  then show ?thesis by (auto simp: b64_char_def b64_val_def Let_def byte_char_of simp flip: k_def)
qed

lemma b64_val_pad [simp]: "b64_val b64_pad = None"
  by code_simp

lemma b64_val_line_end: "is_line_end c \<Longrightarrow> b64_val c = None"
  by (auto simp: is_line_end_def b64_val_def)

lemma b64_char_not_line_end [simp]: "\<not> is_line_end (b64_char n)"
  using b64_val_line_end [of "b64_char n"] by auto

lemma b64_pad_not_line_end [simp]: "\<not> is_line_end b64_pad"
  by code_simp

lemma base64_encode_clean: "filter (\<lambda>c. \<not> is_line_end c) (base64_encode s) = base64_encode s"
  by (induction s rule: base64_encode.induct) auto

lemma split_bits: "y < k \<Longrightarrow> (x * k + y) div k = (x :: nat)" "y < k \<Longrightarrow> (x * k + y) mod k = (y :: nat)"
  by simp_all

lemma base64_bits:
  fixes a b c :: nat
  assumes "a < 256" and "b < 256" and "c < 256"
  shows "a div 4 mod 64 = a div 4"
    and "(a mod 4 * 16 + b div 16) mod 64 div 16 = a mod 4"
    and "(a mod 4 * 16 + b div 16) mod 64 mod 16 = b div 16"
    and "(b mod 16 * 4 + c div 64) mod 64 div 4 = b mod 16"
    and "(b mod 16 * 4 + c div 64) mod 64 mod 4 = c div 64"
proof -
  have "a mod 4 * 16 + b div 16 < 64" "b mod 16 * 4 + c div 64 < 64" "b div 16 < 16" "c div 64 < 4"
    using assms by simp_all
  then show "(a mod 4 * 16 + b div 16) mod 64 div 16 = a mod 4"
    "(a mod 4 * 16 + b div 16) mod 64 mod 16 = b div 16"
    "(b mod 16 * 4 + c div 64) mod 64 div 4 = b mod 16"
    "(b mod 16 * 4 + c div 64) mod 64 mod 4 = c div 64"
    by (simp_all only: mod_less split_bits)
qed (use assms in simp)

lemma byte_again: "char_of (byte a div 4 * 4 + byte a mod 4) = a" "char_of (byte a div 16 * 16 + byte a mod 16) = a"
    "char_of (byte a div 64 * 64 + byte a mod 64) = a"
  by simp_all

lemma b64_quanta_chars:
  "b64_quanta (b64_char w # b64_char x # b64_char y # b64_char z # s) =
     map_option (\<lambda>r. char_of (w mod 64 * 4 + x mod 64 div 16) # char_of (x mod 64 mod 16 * 16 + y mod 64 div 4) #
       char_of (y mod 64 mod 4 * 64 + z mod 64) # r) (b64_quanta s)"
  by (simp only: b64_quanta.simps b64_val_char prod.case option.case)

lemma b64_quanta_encode: "b64_quanta (base64_encode s) = Some s"
proof (induction s rule: base64_encode.induct)
  case (2 a)
  from base64_bits [OF byte_less [of a], of 0 0] show ?case
    by (simp del: div_mult_self1 div_mult_self2 mod_mult_self1 mod_mult_self2)
next
  case (3 a b)
  have "(byte b mod 16 * 4) mod 64 div 4 = byte b mod 16"
    using base64_bits(4) [of 0 "byte b" 0] by simp
  then show ?case using base64_bits [of "byte a" "byte b" 0] by (simp del: div_mult_self1 div_mult_self2 mod_mult_self1 mod_mult_self2)
next
  case (4 a b c s)
  note bits = base64_bits [of "byte a" "byte b" "byte c", OF byte_less byte_less byte_less]
  have "byte c mod 64 mod 64 = byte c mod 64" by (rule mod_mod_trivial)
  then show ?case
    by (simp only: base64_encode.simps b64_quanta_chars bits 4 byte_again option.map)
qed simp

lemma base64_decode_encode: "base64_decode (base64_encode s) = Some s"
  by (simp add: base64_decode_def base64_encode_clean b64_quanta_encode)

lemma base64_encode_length: "length (base64_encode s) = 4 * ((length s + 2) div 3)"
proof (induction s rule: base64_encode.induct)
  case (4 a b c s)
  have "(5 + length s) div 3 = (2 + length s) div 3 + 1" by simp
  with 4 show ?case by simp
qed simp_all

section \<open>URL query escaping\<close>

definition url_unreserved :: "char \<Rightarrow> bool" where
  "url_unreserved c = (is_digit c \<or> is_upper c \<or> is_lower c \<or> c \<in> {CHR ''-'', CHR ''_'', CHR ''.'', CHR ''~''})"

definition escape_byte :: "char \<Rightarrow> string" where
  "escape_byte c =
     (if c = CHR '' '' then ''+''
      else if url_unreserved c then [c] else CHR ''%'' # hex_byte hex_upper c)"

definition query_escape :: "string \<Rightarrow> string" where
  "query_escape s = concat (map escape_byte s)"

fun query_unescape :: "string \<Rightarrow> string option" where
  "query_unescape [] = Some []"
| "query_unescape (c # s) =
     (if c = CHR ''%'' then
        (case s of
           a # b # r \<Rightarrow>
             (case hex_pair a b of
                None \<Rightarrow> None
              | Some x \<Rightarrow> map_option (Cons x) (query_unescape r))
         | _ \<Rightarrow> None)
      else map_option (Cons (if c = CHR ''+'' then CHR '' '' else c)) (query_unescape s))"

lemma unreserved_not_special: "url_unreserved c \<Longrightarrow> c \<noteq> CHR ''%'' \<and> c \<noteq> CHR ''+''"
  by (auto simp: url_unreserved_def is_digit_def is_upper_def is_lower_def less_eq_char_def)

lemma query_unescape_byte: "query_unescape (escape_byte c @ s) = map_option (Cons c) (query_unescape s)"
  using unreserved_not_special [of c] by (auto simp: escape_byte_def hex_byte_def hex_pair_nibbles)

lemma query_unescape_escape: "query_unescape (query_escape s) = Some s"
  by (induction s) (simp_all add: query_escape_def query_unescape_byte)

end
