(* ===== verification/Go_Runes.thy ===== *)
theory Go_Runes
  imports Go_Encode
begin

text \<open>
  Writing runes and reading them back: \<open>[]rune(string(rs))\<close> is \<open>rs\<close> for valid code points, and every
  rune of a string is one.
\<close>

definition valid_rune :: "nat \<Rightarrow> bool" where
  "valid_rune r = (r \<le> 0x10FFFF \<and> \<not> (0xD800 \<le> r \<and> r \<le> 0xDFFF))"

lemma valid_rune_error [simp]: "valid_rune rune_error"
  by (simp add: valid_rune_def rune_error_def)

text \<open>The four lengths of an encoding\<close>

lemma encode_rune_cases:
  assumes "valid_rune r"
  obtains (one) "r < 0x80" and "map byte (encode_rune r) = [r]"
  | (two) "0x80 \<le> r" and "r < 0x800" and "map byte (encode_rune r) = [0xC0 + r div 0x40, 0x80 + r mod 0x40]"
  | (three) "0x800 \<le> r" and "r < 0x10000"
      and "map byte (encode_rune r) = [0xE0 + r div 0x1000, 0x80 + r div 0x40 mod 0x40, 0x80 + r mod 0x40]"
  | (four) "0x10000 \<le> r" and "r < 0x110000"
      and "map byte (encode_rune r) = [0xF0 + r div 0x40000, 0x80 + r div 0x1000 mod 0x40,
             0x80 + r div 0x40 mod 0x40, 0x80 + r mod 0x40]"
proof -
  have v: "\<not> (r > 0x10FFFF \<or> 0xD800 \<le> r \<and> r \<le> 0xDFFF)" using assms by (auto simp: valid_rune_def)
  have d: "r < k * 2 ^ n \<Longrightarrow> r div 2 ^ n < k" for k n by (simp add: div_less_iff_less_mult)
  have b: "r div 0x40 < 0x20" if "r < 0x800" using that d [of "0x20" 6] by simp
  have c: "r div 0x1000 < 0x10" if "r < 0x10000" using that d [of "0x10" 12] by simp
  have e: "r div 0x40000 < 0x8" if "r < 0x110000" using that d [of "0x8" 18] by simp
  have m: "0x80 + x mod 0x40 < 256" for x :: nat
    using pos_mod_bound [of "0x40" x] mod_less_divisor [of "0x40" x] by simp
  consider "r < 0x80" | "0x80 \<le> r" "r < 0x800" | "0x800 \<le> r" "r < 0x10000" | "0x10000 \<le> r" "r < 0x110000"
    using v by linarith
  then show ?thesis
  proof cases
    case 1
    then show ?thesis using v by (intro one) (auto simp: encode_rune_def byte_char_of)
  next
    case 2
    then show ?thesis using v b m by (intro two) (auto simp: encode_rune_def byte_char_of)
  next
    case 3
    then show ?thesis using v c m by (intro three) (auto simp: encode_rune_def byte_char_of)
  next
    case 4
    then show ?thesis using v e m by (intro four) (auto simp: encode_rune_def byte_char_of)
  qed
qed

lemma digits_2: "(r :: nat) div 0x40 * 0x40 + r mod 0x40 = r"
  by simp

lemma digits_3: "(r :: nat) div 0x1000 * 0x1000 + r div 0x40 mod 0x40 * 0x40 + r mod 0x40 = r"
proof -
  have "r div 0x1000 = r div 0x40 div 0x40" by (simp add: div_mult2_eq [symmetric])
  then show ?thesis using digits_2 [of "r div 0x40"] digits_2 [of r] by linarith
qed

lemma digits_4:
  "(r :: nat) div 0x40000 * 0x40000 + r div 0x1000 mod 0x40 * 0x1000 + r div 0x40 mod 0x40 * 0x40 + r mod 0x40 = r"
proof -
  have "r div 0x40000 = r div 0x1000 div 0x40" by (simp add: div_mult2_eq [symmetric])
  then show ?thesis using digits_2 [of "r div 0x1000"] digits_3 [of r] by linarith
qed

lemma tag_mod: "x < m \<Longrightarrow> k mod m = 0 \<Longrightarrow> (k + x) mod m = (x :: nat)"
  by (metis add_0 mod_add_left_eq mod_less)

lemma three_bytesI:
  assumes "x < 16" and "x = 0 \<Longrightarrow> 32 \<le> y" and "x = 13 \<Longrightarrow> y < 32" and "y < 64" and "z < 64"
    and "b ! 0 = 0xE0 + x" and "b ! 1 = 0x80 + y" and "b ! 2 = 0x80 + z" and "3 \<le> length b"
  shows "three_bytes b"
  unfolding three_bytes_def assms(6-8) cont_byte_def using assms(1-5,9) by auto

lemma four_bytesI:
  assumes "x \<le> 4" and "x = 0 \<Longrightarrow> 16 \<le> y" and "x = 4 \<Longrightarrow> y < 16" and "y < 64" and "z < 64" and "w < 64"
    and "b ! 0 = 0xF0 + x" and "b ! 1 = 0x80 + y" and "b ! 2 = 0x80 + z" and "b ! 3 = 0x80 + w"
    and "4 \<le> length b"
  shows "four_bytes b"
  unfolding four_bytes_def assms(7-10) cont_byte_def using assms(1-6,11) by auto

lemma decode_encode_rune:
  assumes "valid_rune r"
  shows "decode_rune (encode_rune r @ s) = (r, length (encode_rune r))"
proof -
  have len: "length (encode_rune r) = length (map byte (encode_rune r))" by simp
  have app: "map byte (take 4 (encode_rune r @ s)) = take 4 (map byte (encode_rune r) @ map byte s)"
    by (simp add: take_map)
  have d: "k \<le> r div 2 ^ n \<longleftrightarrow> k * 2 ^ n \<le> r" for k n by (simp add: less_eq_div_iff_mult_less_eq)
  have u: "r div 2 ^ n < k \<longleftrightarrow> r < k * 2 ^ n" for k n by (simp add: div_less_iff_less_mult)
  show ?thesis
    using assms
  proof (cases rule: encode_rune_cases)
    case one
    then show ?thesis by (simp add: decode_rune_def app len)
  next
    case two
    then have "2 \<le> r div 0x40" "r div 0x40 < 32" using d [of 2 6] u [of 6 32] by simp_all
    note hi = this
    let ?b = "map byte (take 4 (encode_rune r @ s))"
    have b: "?b ! 0 = 0xC0 + r div 0x40" "?b ! 1 = 0x80 + r mod 0x40" "2 \<le> length ?b"
      unfolding app using two by (simp_all add: take_Cons')
    have t: "two_bytes ?b"
      unfolding two_bytes_def b cont_byte_def using b(3) hi
      by (simp add: less_Suc_eq_le)
    from t show ?thesis using hi digits_2 [of r] two(3)
      by (simp only: decode_rune_def Let_def b) (simp add: len tag_mod)
  next
    case three
    have hi: "r div 0x1000 < 16" using three u [of 12 16] by simp
    have zero: "r div 0x1000 = 0 \<Longrightarrow> 32 \<le> r div 0x40 mod 0x40"
    proof -
      assume "r div 0x1000 = 0"
      then have "r div 0x40 < 0x40" using u [of 12 1] u [of 6 "0x40"] by simp
      moreover have "32 \<le> r div 0x40" using three d [of 32 6] by simp
      ultimately show ?thesis by simp
    qed
    have sur: "r div 0x1000 = 13 \<Longrightarrow> r div 0x40 mod 0x40 < 32"
    proof -
      assume r: "r div 0x1000 = 13"
      then have "r < 0xD800" using assms u [of 12 14] by (auto simp: valid_rune_def)
      then have "r div 0x40 < 864" using u [of 6 864] by simp
      moreover have "832 \<le> r div 0x40" using r d [of 13 12] d [of 832 6] by simp
      ultimately show ?thesis using tag_mod [of "r div 0x40 - 832" "0x40" 832] by simp
    qed
    let ?b = "map byte (take 4 (encode_rune r @ s))"
    have b: "?b ! 0 = 0xE0 + r div 0x1000" "?b ! 1 = 0x80 + r div 0x40 mod 0x40" "?b ! 2 = 0x80 + r mod 0x40"
        "3 \<le> length ?b"
      unfolding app using three by (simp_all add: take_Cons')
    have t: "three_bytes ?b"
      by (rule three_bytesI [OF hi zero sur _ _ b]) simp_all
    have nt: "\<not> two_bytes ?b" unfolding two_bytes_def b cont_byte_def by simp
    from t nt show ?thesis using hi digits_3 [of r] three(3)
      by (simp only: decode_rune_def Let_def b) (simp add: len tag_mod)
  next
    case four
    have hi: "r div 0x40000 < 8" "r div 0x40000 \<le> 4" using four u [of 18 8] u [of 18 5] by simp_all
    have zero: "r div 0x40000 = 0 \<Longrightarrow> 16 \<le> r div 0x1000 mod 0x40"
    proof -
      assume "r div 0x40000 = 0"
      then have "r div 0x1000 < 0x40" using u [of 18 1] u [of 12 "0x40"] by simp
      moreover have "16 \<le> r div 0x1000" using four d [of 16 12] by simp
      ultimately show ?thesis by simp
    qed
    have top: "r div 0x40000 = 4 \<Longrightarrow> r div 0x1000 mod 0x40 < 16"
    proof -
      assume r: "r div 0x40000 = 4"
      have "r div 0x1000 < 272" using four u [of 12 272] by simp
      moreover have "256 \<le> r div 0x1000" using r d [of 4 18] d [of 256 12] by simp
      ultimately show ?thesis using tag_mod [of "r div 0x1000 - 256" "0x40" 256] by simp
    qed
    let ?b = "map byte (take 4 (encode_rune r @ s))"
    have b: "?b ! 0 = 0xF0 + r div 0x40000" "?b ! 1 = 0x80 + r div 0x1000 mod 0x40"
        "?b ! 2 = 0x80 + r div 0x40 mod 0x40" "?b ! 3 = 0x80 + r mod 0x40" "4 \<le> length ?b"
      unfolding app using four by (simp_all add: take_Cons')
    have t: "four_bytes ?b"
      by (rule four_bytesI [OF hi(2) zero top _ _ _ b]) simp_all
    have nt: "\<not> two_bytes ?b" "\<not> three_bytes ?b"
      unfolding two_bytes_def three_bytes_def b cont_byte_def by simp_all
    from t nt show ?thesis using hi digits_4 [of r] four(3)
      by (simp only: decode_rune_def Let_def b) (simp add: len tag_mod)
  qed
qed

lemma encode_rune_nonempty: "valid_rune r \<Longrightarrow> encode_rune r \<noteq> []"
  by (erule encode_rune_cases) (metis list.map_disc_iff list.distinct(1))+

lemma runes_encode: "valid_rune r \<Longrightarrow> runes (encode_rune r @ s) = r # runes s"
  by (subst runes.simps) (simp add: decode_encode_rune encode_rune_nonempty)

lemma runes_Nil [simp]: "runes [] = []"
  by (subst runes.simps) simp

lemma runes_string_append:
  "list_all valid_rune rs \<Longrightarrow> runes (string_of_runes rs @ s) = rs @ runes s"
  by (induction rs) (simp_all add: string_of_runes_def runes_encode)

lemma runes_string_of_runes: "list_all valid_rune rs \<Longrightarrow> runes (string_of_runes rs) = rs"
  using runes_string_append [of rs "[]"] by simp

lemma string_of_runes_append: "string_of_runes (rs @ ss) = string_of_runes rs @ string_of_runes ss"
  by (simp add: string_of_runes_def)

text \<open>Every decoded rune is a valid code point.\<close>

lemma surrogate_free:
  fixes x y z :: nat
  assumes "x < 16" and "y < 64" and "z < 64" and "x = 13 \<longrightarrow> y < 32"
  shows "valid_rune (x * 0x1000 + y * 0x40 + z)"
proof -
  consider "x < 13" | "x = 13" | "13 < x" by linarith
  then show ?thesis using assms by cases (auto simp: valid_rune_def)
qed

lemma supplementary:
  fixes x y z w :: nat
  assumes "x \<le> 4" and "x = 4 \<Longrightarrow> y < 16" and "x = 0 \<Longrightarrow> 16 \<le> y" and "y < 64" and "z < 64" and "w < 64"
  shows "valid_rune (x * 0x40000 + y * 0x1000 + z * 0x40 + w)"
proof -
  consider "x = 4" | "x = 0" | "1 \<le> x" "x \<le> 3" using assms(1) by linarith
  then have "x * 0x40000 + y * 0x1000 + z * 0x40 + w \<le> 0x10FFFF \<and> 0xDFFF < x * 0x40000 + y * 0x1000 + z * 0x40 + w"
    by cases (use assms in simp_all)
  then show ?thesis by (simp add: valid_rune_def)
qed

lemma decode_rune_valid: "valid_rune (fst (decode_rune s))"
proof -
  define b where "b = map byte (take 4 s)"
  have m: "n mod 64 < (64 :: nat)" "n mod 16 < (16 :: nat)" "n mod 32 < (32 :: nat)" for n by simp_all
  have "valid_rune (b ! 0)" if "b ! 0 < 0x80" using that by (auto simp: valid_rune_def)
  moreover have "valid_rune (b ! 0 mod 0x20 * 0x40 + b ! 1 mod 0x40)"
    using m(3) [of "b ! 0"] m(1) [of "b ! 1"] unfolding valid_rune_def by linarith
  moreover have "valid_rune (b ! 0 mod 0x10 * 0x1000 + b ! 1 mod 0x40 * 0x40 + b ! 2 mod 0x40)"
    if "three_bytes b"
  proof (rule surrogate_free)
    define x y where "x = b ! 0 - 0xE0" and "y = b ! 1 - 0x80"
    have "0xE0 \<le> b ! 0 \<and> b ! 0 \<le> 0xEF \<and> 0x80 \<le> b ! 1"
      using that by (auto simp: three_bytes_def cont_byte_def split: if_splits)
    then have x: "b ! 0 = 0xE0 + x" "x < 16" and y: "b ! 1 = 0x80 + y" by (auto simp: x_def y_def)
    have "x = 13 \<Longrightarrow> y < 32" "y < 64"
      using that x y by (auto simp: three_bytes_def cont_byte_def split: if_splits)
    note y = y this
    show "b ! 0 mod 16 = 13 \<longrightarrow> b ! 1 mod 64 < 32"
      using x y by (simp add: tag_mod)
  qed simp_all
  moreover have "valid_rune (b ! 0 mod 0x08 * 0x40000 + b ! 1 mod 0x40 * 0x1000 + b ! 2 mod 0x40 * 0x40 + b ! 3 mod 0x40)"
    if "four_bytes b"
  proof -
    define x y where "x = b ! 0 - 0xF0" and "y = b ! 1 - 0x80"
    have "0xF0 \<le> b ! 0 \<and> b ! 0 \<le> 0xF4 \<and> 0x80 \<le> b ! 1"
      using that by (auto simp: four_bytes_def cont_byte_def split: if_splits)
    then have x: "b ! 0 = 0xF0 + x" "x \<le> 4" and y: "b ! 1 = 0x80 + y" by (auto simp: x_def y_def)
    have "x = 4 \<Longrightarrow> y < 16" "x = 0 \<Longrightarrow> 16 \<le> y" "y < 64"
      using that unfolding four_bytes_def cont_byte_def x y by (simp_all split: if_splits)
    note y1 = this
    have "b ! 0 mod 8 = x" "b ! 1 mod 64 = y" using x y y1 by (simp_all add: tag_mod)
    then show ?thesis using supplementary [OF x(2) y1 m(1) m(1)] by simp
  qed
  ultimately show ?thesis by (simp add: decode_rune_def Let_def flip: b_def)
qed

lemma runes_valid: "list_all valid_rune (runes s)"
proof (induction s rule: runes.induct)
  case (1 s)
  show ?case
  proof (cases "s = []")
    case False
    obtain r w where d: "decode_rune s = (r, w)" by fastforce
    with 1 [OF False d [symmetric]] decode_rune_valid [of s] show ?thesis
      by (subst runes.simps) simp
  qed simp
qed

end
