(* ===== verification/Data.thy ===== *)
theory Data
  imports Validate Go_Runes Go_Sha256
begin

text \<open>
  \<open>internal/transform/data\<close>: the transforms that rewrite one field. Arguments: the JSON decoder, the
  Unicode tables and \<open>cases.Title\<close> for \<open>data.case\<close>, \<open>time.Parse\<close> and \<open>time.Format\<close> for \<open>data.convert\<close>,
  \<open>fmt.Sprintf\<close> with a configured format for \<open>data.format\<close>, and \<open>bcrypt\<close> for \<open>data.hash\<close>.
\<close>

section \<open>Common parts\<close>

text \<open>\<open>%T\<close> of what \<open>Execute\<close> was given, and the guard with the message that prints it\<close>

definition item_type :: "item \<Rightarrow> string" where
  "item_type x = (case x of INil \<Rightarrow> ''<nil>'' | IEvent _ \<Rightarrow> ''event.Event'' | IEvents _ \<Rightarrow> ''[]event.Event''
                  | IValue v \<Rightarrow> type_name v)"

definition expect_event :: "(event \<Rightarrow> gerror + item) \<Rightarrow> item \<Rightarrow> gerror + item" where
  "expect_event f x =
     (case x of
        IEvent ev \<Rightarrow> f ev
      | _ \<Rightarrow> Inl (Errorf ''expected event.Event, got %T'' [VStr (item_type x)]))"

lemma expect_event_simps [simp]: "expect_event f (IEvent ev) = f ev"
  by (simp add: expect_event_def)

lemma expect_event_envelope:
  assumes "\<And>ev out ev'. f ev = Inr out \<Longrightarrow> ev' \<in> set (item_events out) \<Longrightarrow> same_envelope ev' ev"
  shows "envelope_transform (expect_event f)"
  by unfold_locales
     (auto simp: expect_event_def same_envelope_def dest!: assms split: item.splits)

definition default_target :: "string \<Rightarrow> string \<Rightarrow> string" where
  "default_target target source = (if target = [] then source else target)"

text \<open>Read a string field, compute, store the result: four transforms have this shape.\<close>

definition map_string :: "string \<Rightarrow> string \<Rightarrow> (string \<Rightarrow> gerror + string) \<Rightarrow> event \<Rightarrow> gerror + item" where
  "map_string source target f ev =
     (case GetField ev source of
        None \<Rightarrow> Inl (Errorf ''field %s does not exist'' [VStr source])
      | Some v \<Rightarrow>
          (case v of
             VStr str \<Rightarrow> bind_res (f str) (\<lambda>r. Inr (IEvent (SetField ev target (VStr r))))
           | _ \<Rightarrow> Inl (Errorf ''field %s must be a string, got %T'' [VStr source, VStr (type_name v)])))"

lemma map_string_result:
  "map_string source target f ev = Inr out \<longleftrightarrow>
     (\<exists>str r. GetField ev source = Some (VStr str) \<and> f str = Inr r \<and> out = IEvent (SetField ev target (VStr r)))"
  by (auto simp: map_string_def bind_res_Inr_iff split: option.split gval.split)

lemma map_string_envelope: "envelope_transform (expect_event (map_string source target f))"
  by (rule expect_event_envelope) (auto simp: map_string_result)

section \<open>\<open>data.case\<close>\<close>

text \<open>
  \<open>strings.ToUpper\<close> and \<open>strings.ToLower\<close> map the runes; the tables give the mapping of the runes
  outside ASCII.
\<close>

record case_lib =
  upper_table :: "nat \<Rightarrow> nat"
  lower_table :: "nat \<Rightarrow> nat"
  title_english :: "string \<Rightarrow> string"

definition to_upper_rune :: "(nat \<Rightarrow> nat) \<Rightarrow> nat \<Rightarrow> nat" where
  "to_upper_rune tab r = (if r < 0x80 then if 0x61 \<le> r \<and> r \<le> 0x7A then r - 0x20 else r else tab r)"

definition to_lower_rune :: "(nat \<Rightarrow> nat) \<Rightarrow> nat \<Rightarrow> nat" where
  "to_lower_rune tab r = (if r < 0x80 then if 0x41 \<le> r \<and> r \<le> 0x5A then r + 0x20 else r else tab r)"

definition ToUpper :: "case_lib \<Rightarrow> string \<Rightarrow> string" where
  "ToUpper lib s = string_of_runes (map (to_upper_rune (upper_table lib)) (runes s))"

definition ToLower :: "case_lib \<Rightarrow> string \<Rightarrow> string" where
  "ToLower lib s = string_of_runes (map (to_lower_rune (lower_table lib)) (runes s))"

record case_config =
  CaseField :: string
  CaseCase :: string

definition case_Configure :: "case_config unmarshal \<Rightarrow> string \<Rightarrow> gerror + case_config" where
  "case_Configure unmarshal raw =
     (if length raw = 0 then Inl (Errorf ''config required'' [])
      else bind_res (unmarshal raw) (\<lambda>cfg.
        if CaseCase cfg = ''upper'' \<or> CaseCase cfg = ''lower'' \<or> CaseCase cfg = ''title'' then Inr cfg
        else Inl (Errorf ''unsupported case: %s'' [VStr (CaseCase cfg)])))"

definition case_event :: "case_lib \<Rightarrow> case_config \<Rightarrow> event \<Rightarrow> gerror + item" where
  "case_event lib cfg ev =
     (case GetField ev (CaseField cfg) of
        None \<Rightarrow> Inr (IEvent ev)
      | Some (VStr str) \<Rightarrow>
          (let set = (\<lambda>t. Inr (IEvent (SetField ev (CaseField cfg) (VStr t))))
           in if CaseCase cfg = ''upper'' then set (ToUpper lib str)
              else if CaseCase cfg = ''lower'' then set (ToLower lib str)
              else if CaseCase cfg = ''title'' then set (title_english lib str)
              else Inl (Errorf ''unsupported case: %s'' [VStr (CaseCase cfg)]))
      | Some _ \<Rightarrow> Inl (Errorf ''field %s is not a string'' [VStr (CaseField cfg)]))"

definition case_Execute :: "case_lib \<Rightarrow> case_config \<Rightarrow> item \<Rightarrow> gerror + item" where
  "case_Execute lib cfg = on_event ''unexpected payload type'' (case_event lib cfg)"

section \<open>\<open>data.convert\<close>\<close>

record convert_config =
  ConvField :: string
  ConvTo :: string
  ConvFormat :: string

record time_lib =
  time_parse :: "string \<Rightarrow> string \<Rightarrow> gerror + gtime"
  time_format :: "string \<Rightarrow> gtime \<Rightarrow> string"

definition convert_Configure :: "convert_config unmarshal \<Rightarrow> string \<Rightarrow> gerror + convert_config" where
  "convert_Configure unmarshal raw =
     (if length raw = 0 then Inl (Errorf ''config required'' []) else unmarshal raw)"

abbreviation RFC3339 :: string where "RFC3339 \<equiv> ''2006-01-02T15:04:05Z07:00''"

fun toString :: "renderer \<Rightarrow> time_lib \<Rightarrow> convert_config \<Rightarrow> gval \<Rightarrow> string" where
  "toString r lib cfg (VStr v) = v"
| "toString r lib cfg (VBool v) = (if v then ''true'' else ''false'')"
| "toString r lib cfg (VTime v) =
     (if ConvFormat cfg \<noteq> [] then time_format lib (ConvFormat cfg) v else time_format lib RFC3339 v)"
| "toString r lib cfg v = fmt_v r v"

definition parse_error :: "string \<Rightarrow> 'a option \<Rightarrow> gerror + 'a" where
  "parse_error fn x = (case x of None \<Rightarrow> Inl (ErrLib fn) | Some y \<Rightarrow> Inr y)"

fun toInt :: "gval \<Rightarrow> gerror + 64 word" where
  "toInt (VInt v) = Inr v"
| "toInt (VInt8 v) = Inr (scast v)"
| "toInt (VInt16 v) = Inr (scast v)"
| "toInt (VInt32 v) = Inr (scast v)"
| "toInt (VInt64 v) = Inr v"
| "toInt (VUint v) =
     (if uint v > 2 ^ 63 - 1 then Inl (Errorf ''uint value %d overflows int64'' [VUint v]) else Inr v)"
| "toInt (VUint8 v) = Inr (ucast v)"
| "toInt (VUint16 v) = Inr (ucast v)"
| "toInt (VUint32 v) = Inr (ucast v)"
| "toInt (VUint64 v) =
     (if uint v > 2 ^ 63 - 1 then Inl (Errorf ''uint64 value %d overflows int64'' [VUint64 v]) else Inr v)"
| "toInt (VFloat32 v) = Inr (f64_to_int64 v)"
| "toInt (VFloat64 v) = Inr (f64_to_int64 v)"
| "toInt (VBool v) = Inr (if v then 1 else 0)"
| "toInt (VStr v) = bind_res (parse_error ''strconv.ParseInt'' (parse_int64 v)) (\<lambda>n. Inr (word_of_int n))"
| "toInt v = Inl (Errorf ''cannot convert %T to int'' [VStr (type_name v)])"

fun toFloat :: "gval \<Rightarrow> gerror + f64" where
  "toFloat (VFloat32 v) = Inr v"
| "toFloat (VFloat64 v) = Inr v"
| "toFloat (VInt v) = Inr (f64_of_int (sint v))"
| "toFloat (VInt8 v) = Inr (f64_of_int (sint v))"
| "toFloat (VInt16 v) = Inr (f64_of_int (sint v))"
| "toFloat (VInt32 v) = Inr (f64_of_int (sint v))"
| "toFloat (VInt64 v) = Inr (f64_of_int (sint v))"
| "toFloat (VUint v) = Inr (f64_of_int (uint v))"
| "toFloat (VUint8 v) = Inr (f64_of_int (uint v))"
| "toFloat (VUint16 v) = Inr (f64_of_int (uint v))"
| "toFloat (VUint32 v) = Inr (f64_of_int (uint v))"
| "toFloat (VUint64 v) = Inr (f64_of_int (uint v))"
| "toFloat (VStr v) = parse_error ''strconv.ParseFloat'' (parse_float v)"
| "toFloat (VBool v) = Inr (f64_of_int (if v then 1 else 0))"
| "toFloat v = Inl (Errorf ''cannot convert %T to float'' [VStr (type_name v)])"

fun toBool :: "gval \<Rightarrow> gerror + bool" where
  "toBool (VBool v) = Inr v"
| "toBool (VInt v) = Inr (v \<noteq> 0)"
| "toBool (VInt8 v) = Inr (v \<noteq> 0)"
| "toBool (VInt16 v) = Inr (v \<noteq> 0)"
| "toBool (VInt32 v) = Inr (v \<noteq> 0)"
| "toBool (VInt64 v) = Inr (v \<noteq> 0)"
| "toBool (VUint v) = Inr (v \<noteq> 0)"
| "toBool (VUint8 v) = Inr (v \<noteq> 0)"
| "toBool (VUint16 v) = Inr (v \<noteq> 0)"
| "toBool (VUint32 v) = Inr (v \<noteq> 0)"
| "toBool (VUint64 v) = Inr (v \<noteq> 0)"
| "toBool (VFloat32 v) = Inr (\<not> f64_eq v f64_zero)"
| "toBool (VFloat64 v) = Inr (\<not> f64_eq v f64_zero)"
| "toBool (VStr v) = parse_error ''strconv.ParseBool'' (parse_bool (ascii_lower v))"
| "toBool v = Inl (Errorf ''cannot convert %T to bool'' [VStr (type_name v)])"

text \<open>
  \<open>time.Unix\<close>: the nanoseconds are normalised, and the seconds are kept from year 1 in an \<open>int64\<close>
  that wraps around.
\<close>

definition time_unix :: "64 word \<Rightarrow> 64 word \<Rightarrow> gtime" where
  "time_unix sec nsec =
     (let s = sec + word_of_int (sint nsec div 10 ^ 9)
      in (sint (s + 62135596800) - 62135596800) * 10 ^ 9 + sint nsec mod 10 ^ 9)"

definition common_formats :: "string list" where
  "common_formats =
     [RFC3339, ''2006-01-02T15:04:05.999999999Z07:00'', ''2006-01-02T15:04:05'', ''2006-01-02'',
      ''3:04PM'', ''Jan _2 15:04:05'']"

fun first_parse :: "time_lib \<Rightarrow> string \<Rightarrow> string list \<Rightarrow> gtime option" where
  "first_parse lib v [] = None"
| "first_parse lib v (f # fs) =
     (case time_parse lib f v of Inr t \<Rightarrow> Some t | Inl _ \<Rightarrow> first_parse lib v fs)"

fun toTimestamp :: "time_lib \<Rightarrow> convert_config \<Rightarrow> gval \<Rightarrow> gerror + gtime" where
  "toTimestamp lib cfg (VTime v) = Inr v"
| "toTimestamp lib cfg (VStr v) =
     (if ConvFormat cfg \<noteq> [] then time_parse lib (ConvFormat cfg) v
      else case first_parse lib v common_formats of
             Some t \<Rightarrow> Inr t
           | None \<Rightarrow> Inl (Errorf ''cannot parse timestamp: %s'' [VStr v]))"
| "toTimestamp lib cfg (VInt64 v) = Inr (time_unix v 0)"
| "toTimestamp lib cfg (VFloat64 v) =
     (let sec = f64_to_int64 v;
          nsec = f64_to_int64 (f64_mul (f64_sub v (f64_of_int (sint sec))) (f64_of_int (10 ^ 9)))
      in Inr (time_unix sec nsec))"
| "toTimestamp lib cfg v = Inl (Errorf ''cannot convert %T to timestamp'' [VStr (type_name v)])"

definition convertValue :: "renderer \<Rightarrow> time_lib \<Rightarrow> convert_config \<Rightarrow> gval \<Rightarrow> gerror + gval" where
  "convertValue r lib cfg v =
     (if ConvTo cfg = ''string'' then Inr (VStr (toString r lib cfg v))
      else if ConvTo cfg = ''int'' then map_sum id VInt64 (toInt v)
      else if ConvTo cfg = ''float'' then map_sum id VFloat64 (toFloat v)
      else if ConvTo cfg = ''bool'' then map_sum id VBool (toBool v)
      else if ConvTo cfg = ''timestamp'' then map_sum id VTime (toTimestamp lib cfg v)
      else Inl (Errorf ''unsupported target type: %s'' [VStr (ConvTo cfg)]))"

definition convert_event :: "renderer \<Rightarrow> time_lib \<Rightarrow> convert_config \<Rightarrow> event \<Rightarrow> gerror + item" where
  "convert_event r lib cfg ev =
     (case GetField ev (ConvField cfg) of
        None \<Rightarrow> Inr (IEvent ev)
      | Some v \<Rightarrow>
          (case convertValue r lib cfg v of
             Inl err \<Rightarrow> Inl (wrap_err ''failed to convert field %s: %w'' [VStr (ConvField cfg)] err)
           | Inr converted \<Rightarrow> Inr (IEvent (SetField ev (ConvField cfg) converted))))"

definition convert_Execute :: "renderer \<Rightarrow> time_lib \<Rightarrow> convert_config \<Rightarrow> item \<Rightarrow> gerror + item" where
  "convert_Execute r lib cfg = on_event ''unexpected payload type'' (convert_event r lib cfg)"

section \<open>\<open>data.encode\<close>\<close>

record encode_config =
  EncSource :: string
  EncTarget :: string
  EncOperation :: string
  EncFormat :: string

definition encode_Configure :: "encode_config unmarshal \<Rightarrow> string \<Rightarrow> gerror + encode_config" where
  "encode_Configure unmarshal raw = bind_res (unmarshal raw) (\<lambda>cfg.
     if EncSource cfg = [] then Inl (Errorf ''source_field is required'' [])
     else if EncOperation cfg = [] then Inl (Errorf ''operation is required'' [])
     else if EncOperation cfg \<noteq> ''encode'' \<and> EncOperation cfg \<noteq> ''decode'' then
       Inl (Errorf (''operation must be '' @ [squote] @ ''encode'' @ [squote] @ '' or '' @ [squote] @
         ''decode'' @ [squote] @ '', got %s'') [VStr (EncOperation cfg)])
     else if EncFormat cfg = [] then Inl (Errorf ''format is required'' [])
     else if EncFormat cfg \<noteq> ''base64'' \<and> EncFormat cfg \<noteq> ''url'' \<and> EncFormat cfg \<noteq> ''hex'' then
       Inl (Errorf (''format must be '' @ [squote] @ ''base64'' @ [squote] @ '', '' @ [squote] @ ''url'' @
         [squote] @ '', or '' @ [squote] @ ''hex'' @ [squote] @ '', got %s'') [VStr (EncFormat cfg)])
     else Inr (cfg\<lparr>EncTarget := default_target (EncTarget cfg) (EncSource cfg)\<rparr>))"

definition decode_with :: "string \<Rightarrow> string \<Rightarrow> string option \<Rightarrow> gerror + string" where
  "decode_with msg fn x =
     (case parse_error fn x of Inl err \<Rightarrow> Inl (wrap_err msg [] err) | Inr s \<Rightarrow> Inr s)"

definition encode_string :: "encode_config \<Rightarrow> string \<Rightarrow> gerror + string" where
  "encode_string t str =
     (if EncFormat t = ''base64'' then
        (if EncOperation t = ''encode'' then Inr (base64_encode str)
         else decode_with ''failed to decode base64: %w'' ''base64.DecodeString'' (base64_decode str))
      else if EncFormat t = ''url'' then
        (if EncOperation t = ''encode'' then Inr (query_escape str)
         else decode_with ''failed to decode URL: %w'' ''url.QueryUnescape'' (query_unescape str))
      else if EncFormat t = ''hex'' then
        (if EncOperation t = ''encode'' then Inr (hex_encode str)
         else decode_with ''failed to decode hex: %w'' ''hex.DecodeString'' (hex_decode str))
      else Inr [])"

definition encode_Execute :: "encode_config \<Rightarrow> item \<Rightarrow> gerror + item" where
  "encode_Execute t = expect_event (map_string (EncSource t) (EncTarget t) (encode_string t))"

section \<open>\<open>data.format\<close>\<close>

record format_config =
  FormatField :: string
  FormatFormat :: string
  FormatArgs :: "string list"

definition format_Configure :: "format_config unmarshal \<Rightarrow> string \<Rightarrow> gerror + format_config" where
  "format_Configure unmarshal raw =
     (if length raw = 0 then Inl (Errorf ''config required'' [])
      else bind_res (unmarshal raw) (\<lambda>cfg.
        if FormatField cfg = [] then Inl (Errorf ''field name is required'' [])
        else if FormatFormat cfg = [] then Inl (Errorf ''format string is required'' [])
        else if length (FormatArgs cfg) = 0 then Inl (Errorf ''at least one argument field is required'' [])
        else Inr cfg))"

fun collect_args :: "event \<Rightarrow> string list \<Rightarrow> gerror + gval list" where
  "collect_args ev [] = Inr []"
| "collect_args ev (f # fs) =
     (case GetField ev f of
        None \<Rightarrow> Inl (Errorf ''field %s not found'' [VStr f])
      | Some v \<Rightarrow> bind_res (collect_args ev fs) (\<lambda>vs. Inr (v # vs)))"

definition format_Execute :: "(string \<Rightarrow> gval list \<Rightarrow> string) \<Rightarrow> format_config \<Rightarrow> item \<Rightarrow> gerror + item" where
  "format_Execute sprintf cfg = on_event ''unexpected payload type''
     (\<lambda>ev. bind_res (collect_args ev (FormatArgs cfg))
       (\<lambda>args. Inr (IEvent (SetField ev (FormatField cfg) (VStr (sprintf (FormatFormat cfg) args))))))"

section \<open>\<open>data.hash\<close>\<close>

record hash_config =
  HashSource :: string
  HashTarget :: string
  HashAlgorithm :: string

definition hash_Configure :: "hash_config unmarshal \<Rightarrow> string \<Rightarrow> gerror + hash_config" where
  "hash_Configure unmarshal raw = bind_res (unmarshal raw) (\<lambda>cfg.
     if HashSource cfg = [] then Inl (Errorf ''source_field is required'' [])
     else if HashAlgorithm cfg = [] then Inl (Errorf ''algorithm is required'' [])
     else if HashAlgorithm cfg \<noteq> ''sha256'' \<and> HashAlgorithm cfg \<noteq> ''bcrypt'' then
       Inl (Errorf (''algorithm must be '' @ [squote] @ ''sha256'' @ [squote] @ '' or '' @ [squote] @
         ''bcrypt'' @ [squote] @ '', got %s'') [VStr (HashAlgorithm cfg)])
     else Inr (cfg\<lparr>HashTarget := default_target (HashTarget cfg) (HashSource cfg)\<rparr>))"

definition hash_string :: "(string \<Rightarrow> gerror + string) \<Rightarrow> hash_config \<Rightarrow> string \<Rightarrow> gerror + string" where
  "hash_string bcrypt t str =
     (if HashAlgorithm t = ''sha256'' then Inr (hex_encode (sha256_sum str))
      else if HashAlgorithm t = ''bcrypt'' then
        (if length str > 72 then
           Inl (Errorf ''bcrypt input exceeds 72 bytes (got %d bytes); longer inputs are truncated''
                  [VInt (of_nat (length str))])
         else case bcrypt str of
                Inl err \<Rightarrow> Inl (wrap_err ''failed to generate bcrypt hash: %w'' [] err)
              | Inr hash \<Rightarrow> Inr hash)
      else Inr [])"

definition hash_Execute :: "(string \<Rightarrow> gerror + string) \<Rightarrow> hash_config \<Rightarrow> item \<Rightarrow> gerror + item" where
  "hash_Execute bcrypt t = expect_event (map_string (HashSource t) (HashTarget t) (hash_string bcrypt t))"

section \<open>\<open>data.join\<close> and \<open>data.split\<close>\<close>

record join_config =
  JoinSource :: string
  JoinTarget :: string
  JoinSeparator :: string

definition join_Configure :: "join_config unmarshal \<Rightarrow> string \<Rightarrow> gerror + join_config" where
  "join_Configure unmarshal raw = bind_res (unmarshal raw) (\<lambda>cfg.
     if JoinSource cfg = [] then Inl (Errorf ''source_field is required'' [])
     else Inr (cfg\<lparr>JoinTarget := default_target (JoinTarget cfg) (JoinSource cfg),
                   JoinSeparator := (if JoinSeparator cfg = [] then '','' else JoinSeparator cfg)\<rparr>))"

text \<open>The strings of a \<open>[]string\<close>, or what \<open>%v\<close> makes of the items of a \<open>[]interface{}\<close>\<close>

fun join_items :: "renderer \<Rightarrow> gval \<Rightarrow> string list option" where
  "join_items r (VTyped t xs) =
     (if t = ''[]string'' then Some (case xs of None \<Rightarrow> [] | Some ys \<Rightarrow> map (fmt_v r) ys) else None)"
| "join_items r (VList xs) = Some (case xs of None \<Rightarrow> [] | Some ys \<Rightarrow> map (fmt_v r) ys)"
| "join_items r _ = None"

definition join_event :: "renderer \<Rightarrow> join_config \<Rightarrow> event \<Rightarrow> gerror + item" where
  "join_event r t ev =
     (case GetField ev (JoinSource t) of
        None \<Rightarrow> Inl (Errorf ''field %s does not exist'' [VStr (JoinSource t)])
      | Some v \<Rightarrow>
          (case join_items r v of
             None \<Rightarrow> Inl (Errorf ''field %s must be an array, got %T'' [VStr (JoinSource t), VStr (type_name v)])
           | Some ss \<Rightarrow> Inr (IEvent (SetField ev (JoinTarget t) (VStr (str_join ss (JoinSeparator t)))))))"

definition join_Execute :: "renderer \<Rightarrow> join_config \<Rightarrow> item \<Rightarrow> gerror + item" where
  "join_Execute r t = expect_event (join_event r t)"

record str_split_config =
  StrSplitField :: string
  StrSplitSeparator :: string
  StrSplitTarget :: string

definition str_split_Configure :: "str_split_config unmarshal \<Rightarrow> string \<Rightarrow> gerror + str_split_config" where
  "str_split_Configure unmarshal raw =
     (if length raw = 0 then Inl (Errorf ''config required'' [])
      else bind_res (unmarshal raw) (\<lambda>cfg.
        if StrSplitField cfg = [] then Inl (Errorf ''field is required'' [])
        else if StrSplitSeparator cfg = [] then Inl (Errorf ''separator is required'' [])
        else Inr cfg))"

definition str_split_event :: "str_split_config \<Rightarrow> event \<Rightarrow> gerror + item" where
  "str_split_event cfg ev =
     (case GetField ev (StrSplitField cfg) of
        None \<Rightarrow> Inr (IEvent ev)
      | Some (VStr str) \<Rightarrow>
          (let parts = str_split str (StrSplitSeparator cfg);
               target = default_target (StrSplitTarget cfg) (StrSplitField cfg)
           in Inr (IEvent (SetField ev target (VTyped ''[]string'' (Some (map VStr parts))))))
      | Some _ \<Rightarrow> Inl (Errorf ''field %s is not a string'' [VStr (StrSplitField cfg)]))"

definition str_split_Execute :: "str_split_config \<Rightarrow> item \<Rightarrow> gerror + item" where
  "str_split_Execute cfg = on_event ''unexpected payload type'' (str_split_event cfg)"

section \<open>\<open>data.mask\<close>\<close>

record mask_config =
  MaskSource :: string
  MaskTarget :: string
  MaskPattern :: string
  MaskKeepPrefix :: "64 word"
  MaskChar :: string

record mask_transform =
  mask_source :: string
  mask_target :: string
  mask_pattern :: "regex option"
  keepPrefix :: "64 word"
  maskChar :: string

definition mask_Configure ::
  "regexp_compile \<Rightarrow> mask_config unmarshal \<Rightarrow> string \<Rightarrow> gerror + mask_transform" where
  "mask_Configure compile unmarshal raw = bind_res (unmarshal raw) (\<lambda>cfg.
     if MaskSource cfg = [] then Inl (Errorf ''source_field is required'' [])
     else if MaskPattern cfg = [] \<and> MaskKeepPrefix cfg = 0 then
       Inl (Errorf ''either pattern or keep_prefix must be specified'' [])
     else let char = (if MaskChar cfg = [] then ''*'' else MaskChar cfg)
          in if rune_count char \<noteq> 1 then Inl (Errorf ''mask_char must be a single character'' [])
             else let t = \<lparr>mask_source = MaskSource cfg,
                           mask_target = default_target (MaskTarget cfg) (MaskSource cfg),
                           mask_pattern = None, keepPrefix = MaskKeepPrefix cfg, maskChar = char\<rparr>
                  in if MaskPattern cfg \<noteq> [] then
                       (case compile (MaskPattern cfg) of
                          Inl err \<Rightarrow> Inl (wrap_err ''invalid regex pattern: %w'' [] err)
                        | Inr re \<Rightarrow> Inr (t\<lparr>mask_pattern := Some re\<rparr>))
                     else Inr t)"

text \<open>
  \<open>maskString\<close>. Cutting the runes at a negative number panics; \<open>mask_runes\<close> is the result when the
  number is not negative.
\<close>

definition mask_runes :: "nat \<Rightarrow> string \<Rightarrow> string \<Rightarrow> string" where
  "mask_runes k char s =
     (let rs = runes s
      in if length rs \<le> k then s
         else string_of_runes (take k rs) @ str_repeat char (length rs - k))"

abbreviation bounds_panic :: gerror where
  "bounds_panic \<equiv> ErrPanic ''slice bounds out of range''"

text \<open>
  \<open>ReplaceAllStringFunc\<close> always calls its argument on the leftmost match, so that with a negative
  number to keep it panics exactly when there is a match.
\<close>

definition mask_string :: "mask_transform \<Rightarrow> string \<Rightarrow> gerror + string" where
  "mask_string t str =
     (let keep = sint (keepPrefix t)
      in case mask_pattern t of
           Some re \<Rightarrow>
             if keep < 0 \<and> MatchString re str then Inl bounds_panic
             else Inr (ReplaceAllStringFunc re str (mask_runes (nat keep) (maskChar t)))
         | None \<Rightarrow>
             if keep < 0 then Inl bounds_panic else Inr (mask_runes (nat keep) (maskChar t) str))"

definition mask_Execute :: "mask_transform \<Rightarrow> item \<Rightarrow> gerror + item" where
  "mask_Execute t = expect_event (map_string (mask_source t) (mask_target t) (mask_string t))"

section \<open>\<open>data.regex\<close>\<close>

record regex_config =
  ReSource :: string
  ReTarget :: string
  RePattern :: string
  ReReplacement :: string

record regex_transform =
  re_source :: string
  re_target :: string
  re_pattern :: regex
  re_replacement :: string

definition regex_Configure ::
  "regexp_compile \<Rightarrow> regex_config unmarshal \<Rightarrow> string \<Rightarrow> gerror + regex_transform" where
  "regex_Configure compile unmarshal raw = bind_res (unmarshal raw) (\<lambda>cfg.
     if ReSource cfg = [] then Inl (Errorf ''source_field is required'' [])
     else if RePattern cfg = [] then Inl (Errorf ''pattern is required'' [])
     else case compile (RePattern cfg) of
            Inl err \<Rightarrow> Inl (wrap_err ''invalid regex pattern: %w'' [] err)
          | Inr re \<Rightarrow> Inr \<lparr>re_source = ReSource cfg, re_target = default_target (ReTarget cfg) (ReSource cfg),
                           re_pattern = re, re_replacement = ReReplacement cfg\<rparr>)"

definition regex_Execute :: "regex_transform \<Rightarrow> item \<Rightarrow> gerror + item" where
  "regex_Execute t = expect_event (map_string (re_source t) (re_target t)
     (\<lambda>str. Inr (ReplaceAllString (re_pattern t) str (re_replacement t))))"

section \<open>Registration\<close>

definition case_factory :: "case_lib \<Rightarrow> case_config unmarshal \<Rightarrow> 's factory" where
  "case_factory lib um = pure_factory ''data.case'' (case_Configure um) (case_Execute lib)"

definition convert_factory :: "renderer \<Rightarrow> time_lib \<Rightarrow> convert_config unmarshal \<Rightarrow> 's factory" where
  "convert_factory r lib um = pure_factory ''data.convert'' (convert_Configure um) (convert_Execute r lib)"

definition encode_factory :: "encode_config unmarshal \<Rightarrow> 's factory" where
  "encode_factory um = pure_factory ''data.encode'' (encode_Configure um) encode_Execute"

definition format_factory :: "(string \<Rightarrow> gval list \<Rightarrow> string) \<Rightarrow> format_config unmarshal \<Rightarrow> 's factory" where
  "format_factory sprintf um = pure_factory ''data.format'' (format_Configure um) (format_Execute sprintf)"

definition hash_factory :: "(string \<Rightarrow> gerror + string) \<Rightarrow> hash_config unmarshal \<Rightarrow> 's factory" where
  "hash_factory bcrypt um = pure_factory ''data.hash'' (hash_Configure um) (hash_Execute bcrypt)"

definition join_factory :: "renderer \<Rightarrow> join_config unmarshal \<Rightarrow> 's factory" where
  "join_factory r um = pure_factory ''data.join'' (join_Configure um) (join_Execute r)"

definition mask_factory :: "regexp_compile \<Rightarrow> mask_config unmarshal \<Rightarrow> 's factory" where
  "mask_factory compile um = pure_factory ''data.mask'' (mask_Configure compile um) mask_Execute"

definition regex_factory :: "regexp_compile \<Rightarrow> regex_config unmarshal \<Rightarrow> 's factory" where
  "regex_factory compile um = pure_factory ''data.regex'' (regex_Configure compile um) regex_Execute"

definition str_split_factory :: "str_split_config unmarshal \<Rightarrow> 's factory" where
  "str_split_factory um = pure_factory ''data.split'' (str_split_Configure um) str_split_Execute"

section \<open>The contract of transforms\<close>

interpretation case_tr: envelope_transform "case_Execute lib cfg" for lib cfg
  unfolding case_Execute_def
  by (rule on_event_envelope)
     (auto simp: case_event_def Let_def split: option.splits gval.splits if_splits)

interpretation convert_tr: envelope_transform "convert_Execute r lib cfg" for r lib cfg
  unfolding convert_Execute_def
  by (rule on_event_envelope) (auto simp: convert_event_def split: option.splits sum.splits)

interpretation encode_tr: envelope_transform "encode_Execute t" for t
  unfolding encode_Execute_def by (rule map_string_envelope)

interpretation format_tr: envelope_transform "format_Execute sprintf cfg" for sprintf cfg
  unfolding format_Execute_def by (rule on_event_envelope) (auto simp: bind_res_Inr_iff)

interpretation hash_tr: envelope_transform "hash_Execute bcrypt t" for bcrypt t
  unfolding hash_Execute_def by (rule map_string_envelope)

interpretation join_tr: envelope_transform "join_Execute r t" for r t
  unfolding join_Execute_def
  by (rule expect_event_envelope) (auto simp: join_event_def split: option.splits)

interpretation mask_tr: envelope_transform "mask_Execute t" for t
  unfolding mask_Execute_def by (rule map_string_envelope)

interpretation regex_tr: envelope_transform "regex_Execute t" for t
  unfolding regex_Execute_def by (rule map_string_envelope)

interpretation str_split_tr: envelope_transform "str_split_Execute cfg" for cfg
  unfolding str_split_Execute_def
  by (rule on_event_envelope) (auto simp: str_split_event_def Let_def split: option.splits gval.splits)

section \<open>Facts\<close>

lemma decode_encode_string:
  assumes "EncOperation e = ''encode''" and "EncOperation d = ''decode''" and "EncFormat d = EncFormat e"
    and "EncFormat e \<in> {''base64'', ''url'', ''hex''}"
  shows "\<exists>mid. encode_string e s = Inr mid \<and> encode_string d mid = Inr s"
  using assms
  by (auto simp: encode_string_def decode_with_def parse_error_def base64_decode_encode
      query_unescape_escape hex_decode_encode)

lemma encode_Configure_ok:
  "encode_Configure um raw = Inr t \<Longrightarrow>
     EncSource t \<noteq> [] \<and> EncTarget t \<noteq> [] \<and> EncOperation t \<in> {''encode'', ''decode''} \<and>
     EncFormat t \<in> {''base64'', ''url'', ''hex''}"
  by (auto simp: encode_Configure_def bind_res_Inr_iff default_target_def split: if_splits)

text \<open>The integer a value of an integer kind holds\<close>

fun int_of_value :: "gval \<Rightarrow> int option" where
  "int_of_value (VInt w) = Some (sint w)"
| "int_of_value (VInt8 w) = Some (sint w)"
| "int_of_value (VInt16 w) = Some (sint w)"
| "int_of_value (VInt32 w) = Some (sint w)"
| "int_of_value (VInt64 w) = Some (sint w)"
| "int_of_value (VUint w) = Some (uint w)"
| "int_of_value (VUint8 w) = Some (uint w)"
| "int_of_value (VUint16 w) = Some (uint w)"
| "int_of_value (VUint32 w) = Some (uint w)"
| "int_of_value (VUint64 w) = Some (uint w)"
| "int_of_value _ = None"

lemma word64_of_int: "- (2 ^ 63) \<le> n \<Longrightarrow> n < 2 ^ 63 \<Longrightarrow> sint (word_of_int n :: 64 word) = n"
  by (subst signed_of_int) (simp add: signed_take_bit_int_eq_self)

lemma sint_64: 
  assumes "LENGTH('a::len) \<le> 64"
  shows "- (2 ^ 63) \<le> sint (w :: 'a word)" and "sint w < 2 ^ 63"
proof -
  have "(2 :: int) ^ (LENGTH('a) - 1) \<le> 2 ^ 63" using assms by (intro power_increasing) auto
  with sint_ge [of w] sint_lt [of w] show "- (2 ^ 63) \<le> sint w" and "sint w < 2 ^ 63" by linarith+
qed

lemma uint_64: "0 \<le> uint (w :: 'a::len word)" "LENGTH('a) \<le> 64 \<Longrightarrow> uint w < 2 ^ 64"
    "LENGTH('a) \<le> 32 \<Longrightarrow> uint w < 2 ^ 63"
proof -
  have "LENGTH('a) \<le> k \<Longrightarrow> uint w < 2 ^ k" for k
    using uint_lt2p [of w] power_increasing [of "LENGTH('a)" k "2 :: int"] by linarith
  from this [of 64] this [of 63]
  show "LENGTH('a) \<le> 64 \<Longrightarrow> uint w < 2 ^ 64" "LENGTH('a) \<le> 32 \<Longrightarrow> uint w < 2 ^ 63" by simp_all
qed simp

lemma word_of_sint: "word_of_int (sint w) = (w :: 64 word)"
  by (rule signed_word_eqI) (simp add: word64_of_int sint_64)

lemma toInt_signed:
  assumes "int_of_value v = Some n" and "\<forall>w. v \<noteq> VUint w \<and> v \<noteq> VUint64 w"
  shows "- (2 ^ 63) \<le> n \<and> n < 2 ^ 63 \<and> toInt v = Inr (word_of_int n)"
proof (cases v)
  case (VInt w) with assms sint_64 [of w] show ?thesis by (auto simp: word_of_sint)
next
  case (VInt8 w) with assms sint_64 [of w] show ?thesis by (simp add: scast_eq)
next
  case (VInt16 w) with assms sint_64 [of w] show ?thesis by (simp add: scast_eq)
next
  case (VInt32 w) with assms sint_64 [of w] show ?thesis by (simp add: scast_eq)
next
  case (VInt64 w) with assms sint_64 [of w] show ?thesis by (auto simp: word_of_sint)
next
  case (VUint8 w) with assms uint_64 [of w] show ?thesis by (auto simp: of_int_uint)
next
  case (VUint16 w) with assms uint_64 [of w] show ?thesis by (auto simp: of_int_uint)
next
  case (VUint32 w) with assms uint_64 [of w] show ?thesis by (auto simp: of_int_uint)
qed (use assms in simp_all)

lemma toInt_unsigned:
  assumes "v = VUint w \<or> v = VUint64 w"
  shows "int_of_value v = Some (uint w) \<and> 0 \<le> uint w \<and>
    (if uint w < 2 ^ 63 then toInt v = Inr (word_of_int (uint w)) else \<exists>msg. toInt v = Inl (Errorf msg [v]))"
  using assms uint_64(1) [of w] by auto

lemma toInt_exact:
  assumes "int_of_value v = Some n"
  shows "- (2 ^ 63) \<le> n \<and>
    (if n < 2 ^ 63 then toInt v = Inr (word_of_int n) else \<exists>msg. toInt v = Inl (Errorf msg [v]))"
proof (cases "\<exists>w. v = VUint w \<or> v = VUint64 w")
  case True
  then obtain w where "v = VUint w \<or> v = VUint64 w" by blast
  note w = toInt_unsigned [OF this]
  have "- (2 ^ 63) \<le> uint w" by (rule order_trans [OF _ uint_64(1)]) simp
  with w assms show ?thesis by auto
next
  case False
  with toInt_signed [OF assms] show ?thesis by simp
qed

lemma toString_int: "int_of_value v = Some n \<Longrightarrow> toString r lib cfg v = int_digits n"
  by (cases v) auto

lemma runes_repeat: "valid_rune m \<Longrightarrow> runes (str_repeat (encode_rune m) n) = replicate n m"
  by (induction n) (simp_all add: str_repeat_def runes_encode)

lemma list_all_take: "list_all P xs \<Longrightarrow> list_all P (take n xs)"
  by (auto simp: list_all_iff dest: in_set_takeD)

lemma runes_mask:
  assumes "valid_rune m"
  shows "runes (mask_runes k (encode_rune m) s) = take k (runes s) @ replicate (length (runes s) - k) m"
  by (simp add: mask_runes_def Let_def runes_string_append list_all_take runes_valid runes_repeat assms)

lemma str_index_first: "str_index sub s = Some i \<Longrightarrow> j < i \<Longrightarrow> \<not> prefix sub (drop j s)"
proof (induction s arbitrary: i j)
  case (Cons c s)
  then show ?case by (cases j) (auto split: if_splits)
qed (auto split: if_splits)

lemma str_split_part: "sep \<noteq> [] \<Longrightarrow> p \<in> set (str_split s sep) \<Longrightarrow> \<not> sublist sep p"
proof (induction s sep rule: str_split.induct)
  case (1 s sep)
  show ?case
  proof (cases "str_index sep s")
    case None
    with 1 show ?thesis by (simp add: str_split.simps [of s] str_index_None_iff)
  next
    case (Some i)
    have "\<not> sublist sep (take i s)"
    proof
      assume "sublist sep (take i s)"
      then obtain a b where ab: "take i s = a @ sep @ b" by (auto simp: sublist_def)
      then have "length a < i" using 1(2) by (metis append_take_drop_id length_append length_take
            length_greater_0_conv less_add_same_cancel1 min_less_iff_conj trans_less_add1 add.assoc)
      moreover have "s = a @ sep @ b @ drop i s" using ab append_take_drop_id [of i s] by simp
      then have "prefix sep (drop (length a) s)" by (metis append_eq_conv_conj prefixI)
      ultimately show False using str_index_first [OF Some] by blast
    qed
    with 1 Some show ?thesis by (auto simp: str_split.simps [of s])
  qed
qed

lemma join_split_items: "join_items r (VTyped ''[]string'' (Some (map VStr ss))) = Some ss"
  by (simp add: o_def)

section \<open>Properties\<close>

text \<open>C28: decoding undoes encoding, for all three formats and every byte string: a configured encoder
  followed by a configured decoder of its target puts the original text at the decoder's target, and
  leaves the envelope and every field unrelated to the two targets alone.\<close>

theorem encode_decode_roundtrip:
  assumes "encode_Configure um raw = Inr e" and "EncOperation e = ''encode''"
    and "encode_Configure um' raw' = Inr d" and "EncOperation d = ''decode''"
    and "EncFormat d = EncFormat e" and "EncSource d = EncTarget e"
    and "GetField ev (EncSource e) = Some (VStr str)"
  shows "\<exists>ev1 ev2. encode_Execute e (IEvent ev) = Inr (IEvent ev1) \<and>
    encode_Execute d (IEvent ev1) = Inr (IEvent ev2) \<and> GetField ev2 (EncTarget d) = Some (VStr str) \<and>
    same_envelope ev2 ev \<and>
    (\<forall>q. \<not> related_paths (EncTarget e) q \<and> \<not> related_paths (EncTarget d) q \<longrightarrow> GetField ev2 q = GetField ev q)"
proof -
  note e = encode_Configure_ok [OF assms(1)] and d = encode_Configure_ok [OF assms(3)]
  obtain mid where mid: "encode_string e str = Inr mid" "encode_string d mid = Inr str"
    using decode_encode_string [OF assms(2,4,5)] e by blast
  let ?ev1 = "SetField ev (EncTarget e) (VStr mid)"
  have "encode_Execute e (IEvent ev) = Inr (IEvent ?ev1)"
    using assms(7) mid by (simp add: encode_Execute_def map_string_result)
  moreover have "GetField ?ev1 (EncSource d) = Some (VStr mid)"
    using e assms(6) by (simp add: es.get_put)
  then have "encode_Execute d (IEvent ?ev1) = Inr (IEvent (SetField ?ev1 (EncTarget d) (VStr str)))"
    using mid by (simp add: encode_Execute_def map_string_result)
  ultimately show ?thesis using d
    by (intro exI [of _ ?ev1] exI [of _ "SetField ?ev1 (EncTarget d) (VStr str)"] conjI)
       (simp_all add: es.get_put es.get_put_other)
qed

theorem encode_decode_roundtrip_witness:
  "\<exists>ev1 ev2. encode_Execute \<lparr>EncSource = ''a'', EncTarget = ''b'', EncOperation = ''encode'', EncFormat = ''hex''\<rparr>
     (IEvent (sample_event (fmupd ''a'' (VStr ''go'') fmempty))) = Inr (IEvent ev1) \<and>
   encode_Execute \<lparr>EncSource = ''b'', EncTarget = ''c'', EncOperation = ''decode'', EncFormat = ''hex''\<rparr>
     (IEvent ev1) = Inr (IEvent ev2) \<and> GetField ev2 ''c'' = Some (VStr ''go'')"
proof -
  let ?e = "\<lparr>EncSource = ''a'', EncTarget = ''b'', EncOperation = ''encode'', EncFormat = ''hex''\<rparr>"
  let ?d = "\<lparr>EncSource = ''b'', EncTarget = ''c'', EncOperation = ''decode'', EncFormat = ''hex''\<rparr>"
  have "encode_Configure (\<lambda>_. Inr ?e) [] = Inr ?e" "encode_Configure (\<lambda>_. Inr ?d) [] = Inr ?d"
    by (simp_all add: encode_Configure_def default_target_def)
  from encode_decode_roundtrip [OF this(1) _ this(2), of "sample_event (fmupd ''a'' (VStr ''go'') fmempty)" "''go''"]
  show ?thesis by (auto simp: GetField_top sample_event_def)
qed

text \<open>Converting a field a second time changes nothing, whatever the target type: the first result
  already has the target type and is converted to itself.\<close>

theorem convert_idempotent:
  assumes "convert_Execute r lib cfg (IEvent ev) = Inr (IEvent ev')"
  shows "convert_Execute r lib cfg (IEvent ev') = Inr (IEvent ev')"
proof (cases "GetField ev (ConvField cfg)")
  case None
  with assms show ?thesis by (simp add: convert_Execute_def convert_event_def)
next
  case (Some v)
  with assms obtain w where w: "convertValue r lib cfg v = Inr w" and ev': "ev' = SetField ev (ConvField cfg) w"
    by (auto simp: convert_Execute_def convert_event_def split: sum.splits)
  have "ConvField cfg \<noteq> []" using Some by (auto simp: GetField_def)
  then have g: "GetField ev' (ConvField cfg) = Some w" by (simp add: ev' es.get_put)
  have "convertValue r lib cfg w = Inr w"
    using w by (cases "toInt v"; cases "toFloat v"; cases "toBool v"; cases "toTimestamp lib cfg v")
      (auto simp: convertValue_def split: if_splits)
  with g es.put_get [OF g] show ?thesis by (simp add: convert_Execute_def convert_event_def)
qed

theorem convert_idempotent_witness:
  "convert_Execute (\<lambda>v. []) \<lparr>time_parse = (\<lambda>f s. Inr 0), time_format = (\<lambda>f t. [])\<rparr>
     \<lparr>ConvField = ''a'', ConvTo = ''int'', ConvFormat = []\<rparr>
     (IEvent (SetField (sample_event (fmupd ''a'' (VStr ''42'') fmempty)) ''a'' (VInt64 42))) =
   Inr (IEvent (SetField (sample_event (fmupd ''a'' (VStr ''42'') fmempty)) ''a'' (VInt64 42)))"
proof (rule convert_idempotent)
  have "convertValue (\<lambda>v. []) \<lparr>time_parse = (\<lambda>f s. Inr 0), time_format = (\<lambda>f t. [])\<rparr>
      \<lparr>ConvField = ''a'', ConvTo = ''int'', ConvFormat = []\<rparr> (VStr ''42'') = Inr (VInt64 42)" by code_simp
  then show "convert_Execute (\<lambda>v. []) \<lparr>time_parse = (\<lambda>f s. Inr 0), time_format = (\<lambda>f t. [])\<rparr>
      \<lparr>ConvField = ''a'', ConvTo = ''int'', ConvFormat = []\<rparr>
      (IEvent (sample_event (fmupd ''a'' (VStr ''42'') fmempty))) =
    Inr (IEvent (SetField (sample_event (fmupd ''a'' (VStr ''42'') fmempty)) ''a'' (VInt64 42)))"
    by (simp add: convert_Execute_def convert_event_def GetField_top sample_event_def)
qed

text \<open>A value of any integer kind converts to the \<open>int64\<close> of the same integer when that is below
  \<open>2^63\<close>, directly and by way of its text, and is refused otherwise: nothing wraps around.\<close>

theorem convert_int_exact:
  assumes "int_of_value v = Some n"
  shows "if n < 2 ^ 63
    then \<exists>w. toInt v = Inr w \<and> sint w = n \<and> toInt (VStr (toString r lib cfg v)) = Inr w
    else (\<exists>msg. toInt v = Inl (Errorf msg [v])) \<and> (\<exists>err. toInt (VStr (toString r lib cfg v)) = Inl err)"
proof -
  note x = toInt_exact [OF assms] and t = toString_int [OF assms, of r lib cfg]
  show ?thesis
  proof (cases "n < 2 ^ 63")
    case True
    with x have "parse_int64 (int_digits n) = Some n" by (simp add: parse_int64_digits)
    with True x t word64_of_int [of n] show ?thesis by (simp add: parse_error_def)
  next
    case False
    then have "int_digits n = nat_digits (nat n)" by (simp add: int_digits_def)
    moreover have "parse_int64 (nat_digits (nat n)) = None"
      using False nat_digits_digits [of "nat n"]
      by (simp add: parse_int64_def split_sign_digits digits_nat_nat_digits)
    ultimately show ?thesis using False x t by (simp add: parse_error_def)
  qed
qed

theorem convert_int_exact_witness:
  "(\<exists>w. toInt (VUint64 5) = Inr w \<and> sint w = 5) \<and> (\<exists>msg. toInt (VUint64 (2 ^ 63)) = Inl (Errorf msg [VUint64 (2 ^ 63)]))"
  using convert_int_exact [of "VUint64 5" 5] convert_int_exact [of "VUint64 (2 ^ 63)" "2 ^ 63"] by simp

text \<open>A mask without a pattern keeps the first \<open>keep_prefix\<close> characters and writes the mask
  character for each of the others, so that the number of characters stays the same; a negative
  \<open>keep_prefix\<close>, which the configuration accepts, panics on every string.\<close>

theorem mask_prefix:
  assumes "mask_Configure compile um raw = Inr t" and "mask_pattern t = None"
    and "maskChar t = encode_rune m" and "valid_rune m"
    and "GetField ev (mask_source t) = Some (VStr s)"
  shows "if sint (keepPrefix t) < 0 then mask_Execute t (IEvent ev) = Inl bounds_panic
    else \<exists>ev' masked. mask_Execute t (IEvent ev) = Inr (IEvent ev') \<and>
      GetField ev' (mask_target t) = Some (VStr masked) \<and>
      runes masked = take (nat (sint (keepPrefix t))) (runes s) @
        replicate (length (runes s) - nat (sint (keepPrefix t))) m"
proof (cases "sint (keepPrefix t) < 0")
  case True
  with assms(2,5) show ?thesis by (simp add: mask_Execute_def map_string_def mask_string_def)
next
  case False
  have "mask_target t \<noteq> []"
    using assms(1)
    by (auto simp: mask_Configure_def bind_res_Inr_iff default_target_def Let_def split: if_splits sum.splits)
  with False assms(2-5) runes_mask [OF assms(4)] show ?thesis
    by (auto simp: mask_Execute_def map_string_result mask_string_def es.get_put)
qed

theorem mask_prefix_witness:
  "(\<exists>ev' masked. mask_Execute \<lparr>mask_source = ''a'', mask_target = ''a'', mask_pattern = None, keepPrefix = 2,
       maskChar = encode_rune 0x2A\<rparr> (IEvent (sample_event (fmupd ''a'' (VStr ''4111'') fmempty))) = Inr (IEvent ev') \<and>
     GetField ev' ''a'' = Some (VStr masked) \<and> runes masked = [0x34, 0x31, 0x2A, 0x2A]) \<and>
   mask_Execute \<lparr>mask_source = ''a'', mask_target = ''a'', mask_pattern = None, keepPrefix = -1,
       maskChar = encode_rune 0x2A\<rparr> (IEvent (sample_event (fmupd ''a'' (VStr ''4111'') fmempty))) = Inl bounds_panic"
proof -
  let ?ev = "sample_event (fmupd ''a'' (VStr ''4111'') fmempty)"
  have g: "GetField ?ev ''a'' = Some (VStr ''4111'')" by (simp add: GetField_top sample_event_def)
  have v: "valid_rune 0x2A" and r: "runes ''4111'' = [0x34, 0x31, 0x31, 0x31]" by code_simp+
  have c: "mask_Configure any_pattern (\<lambda>_. Inr \<lparr>MaskSource = ''a'', MaskTarget = [], MaskPattern = [],
      MaskKeepPrefix = k, MaskChar = ''*''\<rparr>) [] = Inr \<lparr>mask_source = ''a'', mask_target = ''a'', mask_pattern = None,
      keepPrefix = k, maskChar = encode_rune 0x2A\<rparr>" if "k \<noteq> 0" for k
  proof -
    have "encode_rune 0x2A = ''*''" "rune_count ''*'' = 1" by code_simp+
    with that show ?thesis by (simp add: mask_Configure_def default_target_def)
  qed
  show ?thesis
    using mask_prefix [OF c [of 2] _ _ v, of ?ev "''4111''"] mask_prefix [OF c [of "-1"] _ _ v, of ?ev "''4111''"]
    by (simp add: g r numeral_2_eq_2)
qed

text \<open>Joining undoes splitting: the parts \<open>data.split\<close> stores are joined to the original text by
  \<open>data.join\<close> with the same separator.\<close>

theorem split_join_roundtrip:
  assumes "str_split_Configure um raw = Inr s" and "join_Configure um' raw' = Inr j"
    and "JoinSeparator j = StrSplitSeparator s"
    and "JoinSource j = default_target (StrSplitTarget s) (StrSplitField s)"
    and "GetField ev (StrSplitField s) = Some (VStr str)"
  shows "\<exists>ev1 ev2 parts. str_split_Execute s (IEvent ev) = Inr (IEvent ev1) \<and>
    GetField ev1 (JoinSource j) = Some (VTyped ''[]string'' (Some (map VStr parts))) \<and>
    (\<forall>p \<in> set parts. \<not> sublist (StrSplitSeparator s) p) \<and>
    join_Execute r j (IEvent ev1) = Inr (IEvent ev2) \<and> GetField ev2 (JoinTarget j) = Some (VStr str)"
proof -
  let ?sep = "StrSplitSeparator s" and ?t = "default_target (StrSplitTarget s) (StrSplitField s)"
  let ?ev1 = "SetField ev ?t (VTyped ''[]string'' (Some (map VStr (str_split str ?sep))))"
  have sep: "?sep \<noteq> []" and t: "?t \<noteq> []"
    using assms(1) by (auto simp: str_split_Configure_def bind_res_Inr_iff default_target_def split: if_splits)
  have j: "JoinTarget j \<noteq> []"
    using assms(2) by (auto simp: join_Configure_def bind_res_Inr_iff default_target_def split: if_splits)
  have "str_split_Execute s (IEvent ev) = Inr (IEvent ?ev1)"
    using assms(5) by (simp add: str_split_Execute_def str_split_event_def Let_def)
  moreover have g: "GetField ?ev1 (JoinSource j) = Some (VTyped ''[]string'' (Some (map VStr (str_split str ?sep))))"
    using t assms(4) by (simp add: es.get_put)
  moreover have "join_Execute r j (IEvent ?ev1) = Inr (IEvent (SetField ?ev1 (JoinTarget j) (VStr str)))"
    using g assms(3) unfolding join_Execute_def join_event_def expect_event_simps
    by (simp add: join_split_items str_join_split del: join_items.simps)
  ultimately show ?thesis using sep j str_split_part
    by (intro exI [of _ ?ev1] exI [of _ "SetField ?ev1 (JoinTarget j) (VStr str)"]
        exI [of _ "str_split str ?sep"] conjI) (auto simp: es.get_put)
qed

theorem split_join_roundtrip_witness:
  "\<exists>ev1 ev2. str_split_Execute \<lparr>StrSplitField = ''a'', StrSplitSeparator = '','', StrSplitTarget = []\<rparr>
      (IEvent (sample_event (fmupd ''a'' (VStr ''x,y'') fmempty))) = Inr (IEvent ev1) \<and>
    join_Execute (\<lambda>v. []) \<lparr>JoinSource = ''a'', JoinTarget = ''b'', JoinSeparator = '',''\<rparr> (IEvent ev1) =
      Inr (IEvent ev2) \<and> GetField ev2 ''b'' = Some (VStr ''x,y'')"
proof -
  let ?s = "\<lparr>StrSplitField = ''a'', StrSplitSeparator = '','', StrSplitTarget = []\<rparr>"
  let ?j = "\<lparr>JoinSource = ''a'', JoinTarget = ''b'', JoinSeparator = '',''\<rparr>"
  have "str_split_Configure (\<lambda>_. Inr ?s) ''x'' = Inr ?s" "join_Configure (\<lambda>_. Inr ?j) ''x'' = Inr ?j"
    by (simp_all add: str_split_Configure_def join_Configure_def default_target_def)
  from split_join_roundtrip [OF this, of "sample_event (fmupd ''a'' (VStr ''x,y'') fmempty)" "''x,y''" "\<lambda>v. []"]
  show ?thesis by (auto simp: GetField_top sample_event_def default_target_def)
qed

end
