(* ===== verification/Runs.thy ===== *)
theory Runs
  imports Main
begin

text \<open>
  Runs of a component over a list of inputs, and the contract by which a detailed component
  implements an abstract one: the concrete state is a function of the abstract state, and every step
  of the one is the step of the other with the same output.
\<close>

fun run_steps :: "('c \<Rightarrow> 'i \<Rightarrow> 'c \<times> 'o) \<Rightarrow> 'c \<Rightarrow> 'i list \<Rightarrow> 'c \<times> 'o list" where
  "run_steps f s [] = (s, [])"
| "run_steps f s (i # is) =
     (case f s i of (s', out) \<Rightarrow> case run_steps f s' is of (s'', outs) \<Rightarrow> (s'', out # outs))"

lemma run_steps_append:
  "run_steps f s (is @ js) =
     (case run_steps f s is of (s', os) \<Rightarrow> case run_steps f s' js of (s'', os') \<Rightarrow> (s'', os @ os'))"
  by (induction "is" arbitrary: s) (simp_all split: prod.split)

lemma run_steps_length: "run_steps f s is = (s', outs) \<Longrightarrow> length outs = length is"
  by (induction "is" arbitrary: s outs) (auto split: prod.splits)

text \<open>What every step keeps, every run keeps; and what every step's output satisfies, every output of a run does.\<close>

lemma run_steps_invariant:
  assumes "\<And>s i s' out. P s \<Longrightarrow> i \<in> set is \<Longrightarrow> f s i = (s', out) \<Longrightarrow> P s' \<and> Q out"
    and "P s"
  shows "P (fst (run_steps f s is)) \<and> (\<forall>out \<in> set (snd (run_steps f s is)). Q out)"
  using assms
proof (induction "is" arbitrary: s)
  case (Cons i "is")
  obtain s' out where f: "f s i = (s', out)" by fastforce
  with Cons.prems have "P s' \<and> Q out" by (meson list.set_intros(1))
  moreover have "P (fst (run_steps f s' is)) \<and> (\<forall>out \<in> set (snd (run_steps f s' is)). Q out)"
    using Cons.IH [of s'] Cons.prems(1) \<open>P s' \<and> Q out\<close> by (meson list.set_intros(2))
  ultimately show ?case using f by (auto split: prod.split)
qed simp

locale simulation =
  fixes conc :: "'s \<Rightarrow> 'c"
    and inv :: "'s \<Rightarrow> bool"
    and spec_step :: "'s \<Rightarrow> 'i \<Rightarrow> 's \<times> 'o"
    and step :: "'c \<Rightarrow> 'i \<Rightarrow> 'c \<times> 'o"
  assumes refines: "inv S \<Longrightarrow> spec_step S i = (S', out) \<Longrightarrow> step (conc S) i = (conc S', out) \<and> inv S'"
begin

lemma run_refines:
  "inv S \<Longrightarrow> run_steps spec_step S is = (S', outs) \<Longrightarrow>
   run_steps step (conc S) is = (conc S', outs) \<and> inv S'"
proof (induction "is" arbitrary: S S' outs)
  case (Cons i "is")
  obtain S1 out where s: "spec_step S i = (S1, out)" by fastforce
  obtain S2 outs2 where t: "run_steps spec_step S1 is = (S2, outs2)" by fastforce
  from refines [OF Cons.prems(1) s] Cons.IH [OF _ t] Cons.prems(2) s t show ?case by auto
qed simp

lemma run_outputs:
  "inv S \<Longrightarrow> snd (run_steps step (conc S) is) = snd (run_steps spec_step S is)"
  using run_refines [of S "is"] by (cases "run_steps spec_step S is") auto

lemma run_state:
  "inv S \<Longrightarrow> \<exists>S'. inv S' \<and> fst (run_steps step (conc S) is) = conc S'"
  using run_refines [of S "is"] by (cases "run_steps spec_step S is") auto

end

end
