(* ===== verification/Agg_Count.thy ===== *)
theory Agg_Count
  imports Data Runs
begin

text \<open>
  \<open>internal/transform/aggregate/count.go\<close>: aggregates over windows of a fixed number of events with
  the same key. The windows of a transform are its state; the clock is an argument. The
  specification keeps the events of a window and aggregates them when it is full; the code keeps
  running aggregates and refines it.
\<close>

section \<open>Configuration\<close>

record aggregation =
  AggField :: string
  AggFunction :: string
  AggAs :: string

record count_config =
  CountKeyField :: string
  CountCount :: "64 word"
  CountAggregations :: "aggregation list"
  CountIdleTimeout :: "64 word"

definition valid_function :: "string \<Rightarrow> bool" where
  "valid_function f = (f \<in> set [''sum'', ''count'', ''avg'', ''min'', ''max''])"

text \<open>The normalised aggregations, and the arguments of the error for the invalid ones\<close>

definition normalize_agg :: "aggregation \<Rightarrow> aggregation" where
  "normalize_agg a = a\<lparr>AggFunction := ascii_lower (AggFunction a)\<rparr>"

definition invalid_functions :: "aggregation list \<Rightarrow> gval list" where
  "invalid_functions as =
     concat (map (\<lambda>a. [VStr (AggFunction a), VStr (AggAs a)])
       (filter (\<lambda>a. \<not> valid_function (AggFunction (normalize_agg a))) as))"

definition check_functions :: "aggregation list \<Rightarrow> gerror + aggregation list" where
  "check_functions as =
     (if length (invalid_functions as) > 0 then
        Inl (Errorf ''invalid aggregation function(s): %s; valid functions are: sum, count, avg, min, max''
               (invalid_functions as))
      else Inr (map normalize_agg as))"

definition time_hour :: "64 word" where
  "time_hour = 3600 * 10 ^ 9"

definition count_Configure :: "count_config unmarshal \<Rightarrow> string \<Rightarrow> gerror + count_config" where
  "count_Configure unmarshal raw =
     (if length raw = 0 then Inl (Errorf ''count aggregation configuration required'' [])
      else bind_res (unmarshal raw) (\<lambda>cfg.
        if CountKeyField cfg = [] then Inl (Errorf ''key_field is required'' [])
        else if sint (CountCount cfg) \<le> 0 then Inl (Errorf ''count must be positive'' [])
        else if length (CountAggregations cfg) = 0 then Inl (Errorf ''at least one aggregation is required'' [])
        else bind_res (check_functions (CountAggregations cfg)) (\<lambda>as.
          Inr (cfg\<lparr>CountAggregations := as,
                   CountIdleTimeout := (if CountIdleTimeout cfg = 0 then time_hour else CountIdleTimeout cfg)\<rparr>))))"

section \<open>Running aggregates\<close>

record agg_state =
  ASum :: f64
  ACount :: "64 word"
  AMin :: "f64 option"
  AMax :: "f64 option"

definition new_agg :: agg_state where
  "new_agg = \<lparr>ASum = f64_zero, ACount = 0, AMin = None, AMax = None\<rparr>"

record count_window =
  StartTime :: gtime
  EventCount :: "64 word"
  Aggregates :: "(string, agg_state) fmap"
  LastSeen :: gtime

type_synonym count_windows = "(string, count_window) fmap"

fun count_number :: "gval \<Rightarrow> f64 option" where
  "count_number (VInt v) = Some (f64_of_int (sint v))"
| "count_number (VInt32 v) = Some (f64_of_int (sint v))"
| "count_number (VInt64 v) = Some (f64_of_int (sint v))"
| "count_number (VFloat32 v) = Some v"
| "count_number (VFloat64 v) = Some v"
| "count_number _ = None"

definition update_min :: "f64 option \<Rightarrow> f64 \<Rightarrow> f64 option" where
  "update_min m x = (case m of None \<Rightarrow> Some x | Some y \<Rightarrow> if f64_lt x y then Some x else Some y)"

definition update_max :: "f64 option \<Rightarrow> f64 \<Rightarrow> f64 option" where
  "update_max m x = (case m of None \<Rightarrow> Some x | Some y \<Rightarrow> if f64_lt y x then Some x else Some y)"

definition update_count_agg :: "string \<Rightarrow> f64 \<Rightarrow> agg_state \<Rightarrow> agg_state" where
  "update_count_agg fn x a =
     (if fn = ''sum'' \<or> fn = ''avg'' then a\<lparr>ASum := f64_add (ASum a) x, ACount := ACount a + 1\<rparr>
      else if fn = ''count'' then a\<lparr>ACount := ACount a + 1\<rparr>
      else if fn = ''min'' then a\<lparr>AMin := update_min (AMin a) x\<rparr>
      else if fn = ''max'' then a\<lparr>AMax := update_max (AMax a) x\<rparr>
      else a)"

definition field_number :: "(gval \<Rightarrow> f64 option) \<Rightarrow> aggregation \<Rightarrow> event \<Rightarrow> f64 option" where
  "field_number num agg ev = (case GetField ev (AggField agg) of None \<Rightarrow> None | Some v \<Rightarrow> num v)"

abbreviation nil_panic :: gerror where
  "nil_panic \<equiv> ErrPanic ''invalid memory address or nil pointer dereference''"

fun update_incremental ::
  "aggregation list \<Rightarrow> event \<Rightarrow> (string, agg_state) fmap \<Rightarrow> gerror + (string, agg_state) fmap" where
  "update_incremental [] ev m = Inr m"
| "update_incremental (agg # aggs) ev m =
     (case field_number count_number agg ev of
        None \<Rightarrow> update_incremental aggs ev m
      | Some x \<Rightarrow>
          (case fmlookup m (AggAs agg) of
             None \<Rightarrow>
               if valid_function (AggFunction agg) then Inl nil_panic else update_incremental aggs ev m
           | Some a \<Rightarrow>
               update_incremental aggs ev (fmupd (AggAs agg) (update_count_agg (AggFunction agg) x a) m)))"

section \<open>Execute\<close>

definition count_value :: "string \<Rightarrow> agg_state \<Rightarrow> gval" where
  "count_value fn a =
     (if fn = ''sum'' then VFloat64 (ASum a)
      else if fn = ''count'' then VInt (ACount a)
      else if fn = ''avg'' then
        (if sint (ACount a) > 0 then VFloat64 (f64_div (ASum a) (f64_of_int (sint (ACount a))))
         else VFloat64 f64_zero)
      else if fn = ''min'' then (case AMin a of Some m \<Rightarrow> VFloat64 m | None \<Rightarrow> VNil)
      else if fn = ''max'' then (case AMax a of Some m \<Rightarrow> VFloat64 m | None \<Rightarrow> VNil)
      else VNil)"

definition zero_metadata :: metadata where
  "zero_metadata = \<lparr>Topic = [], Partition = 0, Offset = 0, Key = None\<rparr>"

definition new_event :: "gtime \<Rightarrow> event" where
  "new_event t = \<lparr>Payload = Some fmempty, Metadata = zero_metadata, Timestamp = t, Headers = None\<rparr>"

text \<open>The loop that adds the results; \<open>value\<close> is the result for an aggregation, when there is one.\<close>

definition add_results :: "(aggregation \<Rightarrow> gval option) \<Rightarrow> aggregation list \<Rightarrow> event \<Rightarrow> event" where
  "add_results value aggs ev =
     foldl (\<lambda>e agg. case value agg of None \<Rightarrow> e | Some v \<Rightarrow> SetField e (AggAs agg) v) ev aggs"

definition count_entry :: "(string, agg_state) fmap \<Rightarrow> aggregation \<Rightarrow> gval option" where
  "count_entry m agg =
     (case fmlookup m (AggAs agg) of
        None \<Rightarrow> None
      | Some a \<Rightarrow> (let v = count_value (AggFunction agg) a in if v \<noteq> VNil then Some v else None))"

definition count_result :: "count_config \<Rightarrow> string \<Rightarrow> event \<Rightarrow> count_window \<Rightarrow> event" where
  "count_result cfg key ev state =
     add_results (count_entry (Aggregates state)) (CountAggregations cfg)
       (SetField (SetField (SetField (new_event (Timestamp ev)) ''window_key'' (VStr key))
          ''window_start'' (VTime (StartTime state))) ''event_count'' (VInt (EventCount state)))"

definition new_count_window :: "count_config \<Rightarrow> event \<Rightarrow> count_window" where
  "new_count_window cfg ev =
     \<lparr>StartTime = Timestamp ev, EventCount = 0,
      Aggregates = foldl (\<lambda>m agg. fmupd (AggAs agg) new_agg m) fmempty (CountAggregations cfg), LastSeen = 0\<rparr>"

definition count_event ::
  "count_config \<Rightarrow> renderer \<Rightarrow> gtime \<Rightarrow> count_windows \<Rightarrow> event \<Rightarrow> count_windows \<times> (gerror + item)" where
  "count_event cfg r now ws ev =
     (case GetField ev (CountKeyField cfg) of
        None \<Rightarrow> (ws, Inl (Errorf ''key field %s not found in event'' [VStr (CountKeyField cfg)]))
      | Some keyValue \<Rightarrow>
          let key = fmt_v r keyValue;
              state = (case fmlookup ws key of None \<Rightarrow> new_count_window cfg ev | Some s \<Rightarrow> s);
              shouldEmit = (sint (CountCount cfg) \<le> sint (EventCount state + 1));
              state = state\<lparr>LastSeen := now, EventCount := EventCount state + 1\<rparr>
          in case update_incremental (CountAggregations cfg) ev (Aggregates state) of
               Inl err \<Rightarrow> (fmupd key state ws, Inl err)
             | Inr m \<Rightarrow>
                 let state = state\<lparr>Aggregates := m\<rparr>
                 in if \<not> shouldEmit then (fmupd key state ws, Inr INil)
                    else (fmdrop key ws, Inr (IEvent (count_result cfg key ev state))))"

definition count_Execute ::
  "count_config \<Rightarrow> renderer \<Rightarrow> gtime \<Rightarrow> count_windows \<Rightarrow> item \<Rightarrow> count_windows \<times> (gerror + item)" where
  "count_Execute cfg r now ws x =
     (case x of
        IEvent ev \<Rightarrow> count_event cfg r now ws ev
      | _ \<Rightarrow> (ws, Inl (Errorf ''unexpected payload type'' [])))"

section \<open>Eviction\<close>

text \<open>The period of the eviction loop; a ticker with a period that is not positive panics.\<close>

definition eviction_ticker :: "count_config \<Rightarrow> gerror + int" where
  "eviction_ticker cfg =
     (let d = sint (CountIdleTimeout cfg);
          period = (if d < 0 then - (- d div 4) else d div 4)
      in if period \<le> 0 then Inl (ErrPanic ''non-positive interval for NewTicker'') else Inr period)"

text \<open>\<open>t.Sub(u)\<close>, which saturates\<close>

definition time_sub :: "gtime \<Rightarrow> gtime \<Rightarrow> int" where
  "time_sub t u = max (- (2 ^ 63)) (min (2 ^ 63 - 1) (t - u))"

definition evict_idle :: "count_config \<Rightarrow> gtime \<Rightarrow> count_windows \<Rightarrow> count_windows" where
  "evict_idle cfg now ws =
     fmfilter (\<lambda>k. case fmlookup ws k of None \<Rightarrow> False
                   | Some w \<Rightarrow> \<not> (time_sub now (LastSeen w) > sint (CountIdleTimeout cfg))) ws"

text \<open>
  A transform with its own state in the state \<open>'s\<close> of the process: where it reads the clock, and
  where it keeps its windows.
\<close>

definition stateful_transform ::
  "string \<Rightarrow> ('s \<Rightarrow> gtime) \<Rightarrow> ('s \<Rightarrow> 'w) \<Rightarrow> ('w \<Rightarrow> 's \<Rightarrow> 's) \<Rightarrow>
   (gtime \<Rightarrow> 'w \<Rightarrow> item \<Rightarrow> 'w \<times> (gerror + item)) \<Rightarrow> 's transform" where
  "stateful_transform n clock get put exec =
     \<lparr>Name = n, Exec = (\<lambda>s x. case exec (clock s) (get s) x of (w, r) \<Rightarrow> (put w s, r))\<rparr>"

definition count_factory ::
  "count_config unmarshal \<Rightarrow> renderer \<Rightarrow> ('s \<Rightarrow> gtime) \<Rightarrow> ('s \<Rightarrow> count_windows) \<Rightarrow>
   (count_windows \<Rightarrow> 's \<Rightarrow> 's) \<Rightarrow> 's factory" where
  "count_factory um r clock get put raw = bind_res (count_Configure um raw)
     (\<lambda>cfg. Inr (stateful_transform ''aggregate.count'' clock get put (count_Execute cfg r)))"

section \<open>The specification: windows of events\<close>

text \<open>The numbers a window holds for an aggregation, in order, and what is made of them\<close>

definition agg_values :: "(gval \<Rightarrow> f64 option) \<Rightarrow> aggregation \<Rightarrow> event list \<Rightarrow> f64 list" where
  "agg_values num agg evs = List.map_filter (field_number num agg) evs"

definition f64_sum :: "f64 list \<Rightarrow> f64" where
  "f64_sum xs = foldl f64_add f64_zero xs"

definition f64_min :: "f64 list \<Rightarrow> f64 option" where
  "f64_min xs = foldl update_min None xs"

definition f64_max :: "f64 list \<Rightarrow> f64 option" where
  "f64_max xs = foldl update_max None xs"

definition spec_value :: "event list \<Rightarrow> aggregation \<Rightarrow> gval option" where
  "spec_value evs agg =
     (let xs = agg_values count_number agg evs; fn = AggFunction agg; n = int (length xs)
      in if fn = ''sum'' then Some (VFloat64 (f64_sum xs))
         else if fn = ''count'' then Some (VInt (word_of_int n))
         else if fn = ''avg'' then
           Some (VFloat64 (if xs = [] then f64_zero else f64_div (f64_sum xs) (f64_of_int n)))
         else if fn = ''min'' then map_option VFloat64 (f64_min xs)
         else map_option VFloat64 (f64_max xs))"

definition spec_result :: "count_config \<Rightarrow> string \<Rightarrow> event list \<Rightarrow> event" where
  "spec_result cfg key evs =
     add_results (spec_value evs) (CountAggregations cfg)
       (SetField (SetField (SetField (new_event (Timestamp (last evs))) ''window_key'' (VStr key))
          ''window_start'' (VTime (Timestamp (hd evs)))) ''event_count'' (VInt (word_of_int (int (length evs)))))"

type_synonym spec_windows = "(string, event list \<times> gtime) fmap"

definition spec_event ::
  "count_config \<Rightarrow> renderer \<Rightarrow> gtime \<Rightarrow> spec_windows \<Rightarrow> event \<Rightarrow> spec_windows \<times> (gerror + item)" where
  "spec_event cfg r now S ev =
     (case GetField ev (CountKeyField cfg) of
        None \<Rightarrow> (S, Inl (Errorf ''key field %s not found in event'' [VStr (CountKeyField cfg)]))
      | Some keyValue \<Rightarrow>
          let key = fmt_v r keyValue;
              evs = (case fmlookup S key of None \<Rightarrow> [] | Some w \<Rightarrow> fst w) @ [ev]
          in if int (length evs) < sint (CountCount cfg) then (fmupd key (evs, now) S, Inr INil)
             else (fmdrop key S, Inr (IEvent (spec_result cfg key evs))))"

definition spec_Execute ::
  "count_config \<Rightarrow> renderer \<Rightarrow> gtime \<Rightarrow> spec_windows \<Rightarrow> item \<Rightarrow> spec_windows \<times> (gerror + item)" where
  "spec_Execute cfg r now S x =
     (case x of
        IEvent ev \<Rightarrow> spec_event cfg r now S ev
      | _ \<Rightarrow> (S, Inl (Errorf ''unexpected payload type'' [])))"

definition spec_evict :: "count_config \<Rightarrow> gtime \<Rightarrow> spec_windows \<Rightarrow> spec_windows" where
  "spec_evict cfg now S =
     fmfilter (\<lambda>k. case fmlookup S k of None \<Rightarrow> False
                   | Some w \<Rightarrow> \<not> (time_sub now (snd w) > sint (CountIdleTimeout cfg))) S"

text \<open>A window is never empty and never full.\<close>

definition spec_ok :: "count_config \<Rightarrow> spec_windows \<Rightarrow> bool" where
  "spec_ok cfg S = (\<forall>k evs t. fmlookup S k = Some (evs, t) \<longrightarrow> evs \<noteq> [] \<and> int (length evs) < sint (CountCount cfg))"

section \<open>The code's state for a window of events\<close>

definition batch_agg :: "event list \<Rightarrow> aggregation \<Rightarrow> agg_state" where
  "batch_agg evs agg = foldl (\<lambda>a x. update_count_agg (AggFunction agg) x a) new_agg (agg_values count_number agg evs)"

definition agg_map :: "(aggregation \<Rightarrow> 'a) \<Rightarrow> aggregation list \<Rightarrow> (string, 'a) fmap" where
  "agg_map f aggs = foldl (\<lambda>m agg. fmupd (AggAs agg) (f agg) m) fmempty aggs"

definition conc_window :: "count_config \<Rightarrow> event list \<times> gtime \<Rightarrow> count_window" where
  "conc_window cfg w =
     \<lparr>StartTime = Timestamp (hd (fst w)), EventCount = word_of_int (int (length (fst w))),
      Aggregates = agg_map (batch_agg (fst w)) (CountAggregations cfg), LastSeen = snd w\<rparr>"

abbreviation conc :: "count_config \<Rightarrow> spec_windows \<Rightarrow> count_windows" where
  "conc cfg S \<equiv> fmmap (conc_window cfg) S"

definition agg_config_ok :: "count_config \<Rightarrow> bool" where
  "agg_config_ok cfg \<longleftrightarrow> 0 < sint (CountCount cfg) \<and> distinct (map AggAs (CountAggregations cfg)) \<and>
     (\<forall>agg \<in> set (CountAggregations cfg). valid_function (AggFunction agg))"

lemma fmdrop_fmmap: "fmdrop k (fmmap f m) = fmmap f (fmdrop k m)"
  by (rule fmap_ext) simp

lemma fmupd_fmmap: "fmupd k (f v) (fmmap f m) = fmmap f (fmupd k v m)"
  by (rule fmap_ext) simp

lemma fold_upd_other:
  "k \<notin> AggAs ` set aggs \<Longrightarrow> fmlookup (foldl (\<lambda>m agg. fmupd (AggAs agg) (f agg) m) m0 aggs) k = fmlookup m0 k"
  by (induction aggs arbitrary: m0) auto

lemma fold_upd_in:
  "distinct (map AggAs aggs) \<Longrightarrow> agg \<in> set aggs \<Longrightarrow>
   fmlookup (foldl (\<lambda>m agg. fmupd (AggAs agg) (f agg) m) m0 aggs) (AggAs agg) = Some (f agg)"
proof (induction aggs arbitrary: m0)
  case (Cons a aggs)
  show ?case
  proof (cases "agg = a")
    case True
    with Cons.prems have "AggAs agg \<notin> AggAs ` set aggs" by simp
    with True show ?thesis by (simp add: fold_upd_other)
  qed (use Cons in auto)
qed simp

lemma lookup_agg_map:
  assumes "distinct (map AggAs aggs)"
  shows "agg \<in> set aggs \<Longrightarrow> fmlookup (agg_map f aggs) (AggAs agg) = Some (f agg)"
    and "k \<notin> AggAs ` set aggs \<Longrightarrow> fmlookup (agg_map f aggs) k = None"
  using fold_upd_in [OF assms] by (simp_all add: agg_map_def fold_upd_other)

lemma agg_map_eqI:
  assumes "distinct (map AggAs aggs)" and "\<And>agg. agg \<in> set aggs \<Longrightarrow> fmlookup m (AggAs agg) = Some (f agg)"
    and "\<And>k. k \<notin> AggAs ` set aggs \<Longrightarrow> fmlookup m k = None"
  shows "m = agg_map f aggs"
proof (rule fmap_ext)
  fix k
  show "fmlookup m k = fmlookup (agg_map f aggs) k"
    by (cases "k \<in> AggAs ` set aggs") (auto simp: assms(2,3) lookup_agg_map [OF assms(1)])
qed

lemma agg_values_snoc:
  "agg_values num agg (evs @ [ev]) =
     agg_values num agg evs @ (case field_number num agg ev of None \<Rightarrow> [] | Some x \<Rightarrow> [x])"
  unfolding agg_values_def
  by (induction evs) (simp_all add: List.map_filter_simps split: option.split)

lemma batch_agg_snoc:
  "batch_agg (evs @ [ev]) agg =
     (case field_number count_number agg ev of
        None \<Rightarrow> batch_agg evs agg
      | Some x \<Rightarrow> update_count_agg (AggFunction agg) x (batch_agg evs agg))"
  by (simp add: batch_agg_def agg_values_snoc split: option.split)

text \<open>The loop over the aggregations updates every running aggregate by the event.\<close>

lemma update_incremental_lookup:
  assumes "distinct (map AggAs aggs)" and "\<And>agg. agg \<in> set aggs \<Longrightarrow> fmlookup m (AggAs agg) = Some (A agg)"
  shows "\<exists>m'. update_incremental aggs ev m = Inr m' \<and>
    (\<forall>agg \<in> set aggs. fmlookup m' (AggAs agg) =
       Some (case field_number count_number agg ev of None \<Rightarrow> A agg | Some x \<Rightarrow> update_count_agg (AggFunction agg) x (A agg))) \<and>
    (\<forall>k. k \<notin> AggAs ` set aggs \<longrightarrow> fmlookup m' k = fmlookup m k)"
  using assms
proof (induction aggs arbitrary: m)
  case (Cons a aggs)
  let ?m = "case field_number count_number a ev of None \<Rightarrow> m
            | Some x \<Rightarrow> fmupd (AggAs a) (update_count_agg (AggFunction a) x (A a)) m"
  have keep: "agg \<in> set aggs \<Longrightarrow> fmlookup ?m (AggAs agg) = Some (A agg)" for agg
    using Cons.prems by (force split: option.split)
  have step: "update_incremental (a # aggs) ev m = update_incremental aggs ev ?m"
    using Cons.prems(2) [of a] by (simp split: option.split)
  from Cons.IH [OF _ keep] Cons.prems(1) obtain m' where m': "update_incremental aggs ev ?m = Inr m'"
      "\<forall>agg \<in> set aggs. fmlookup m' (AggAs agg) = Some (case field_number count_number agg ev of
         None \<Rightarrow> A agg | Some x \<Rightarrow> update_count_agg (AggFunction agg) x (A agg))"
      "\<forall>k. k \<notin> AggAs ` set aggs \<longrightarrow> fmlookup m' k = fmlookup ?m k" by auto
  have "AggAs a \<notin> AggAs ` set aggs" using Cons.prems(1) by simp
  with m'(3) have "fmlookup m' (AggAs a) = fmlookup ?m (AggAs a)" by blast
  with m' step Cons.prems(2) [of a] show ?case
    by (intro exI [of _ m']) (auto split: option.splits)
qed simp

lemma update_incremental_batch:
  assumes "distinct (map AggAs aggs)"
  shows "update_incremental aggs ev (agg_map (batch_agg evs) aggs) = Inr (agg_map (batch_agg (evs @ [ev])) aggs)"
proof -
  obtain m' where m': "update_incremental aggs ev (agg_map (batch_agg evs) aggs) = Inr m'"
      "\<forall>agg \<in> set aggs. fmlookup m' (AggAs agg) = Some (batch_agg (evs @ [ev]) agg)"
      "\<forall>k. k \<notin> AggAs ` set aggs \<longrightarrow> fmlookup m' k = None"
    using update_incremental_lookup [OF assms, of "agg_map (batch_agg evs) aggs" "batch_agg evs" ev]
    by (auto simp: batch_agg_snoc lookup_agg_map [OF assms])
  then have "m' = agg_map (batch_agg (evs @ [ev])) aggs" by (intro agg_map_eqI [OF assms]) auto
  with m'(1) show ?thesis by simp
qed

section \<open>Refinement\<close>

lemma sint_of_nat64: "int n < 2 ^ 63 \<Longrightarrow> sint (word_of_nat n :: 64 word) = int n"
  using word64_of_int [of "int n"] by simp

lemma fold_count_agg:
  fixes xs :: "f64 list" and a :: agg_state
  defines "b \<equiv> \<lambda>fn. foldl (\<lambda>a x. update_count_agg fn x a) a xs"
  shows "fn \<in> {''sum'', ''avg''} \<Longrightarrow> ASum (b fn) = foldl f64_add (ASum a) xs"
    and "fn \<in> {''sum'', ''avg'', ''count''} \<Longrightarrow> ACount (b fn) = ACount a + word_of_int (int (length xs))"
    and "AMin (b ''min'') = foldl update_min (AMin a) xs"
    and "AMax (b ''max'') = foldl update_max (AMax a) xs"
  unfolding b_def
  by (induction xs arbitrary: a) (auto simp: update_count_agg_def)

lemma f64_min_None: "f64_min xs = None \<longleftrightarrow> xs = []" and f64_max_None: "f64_max xs = None \<longleftrightarrow> xs = []"
proof -
  have "foldl update_min (Some y) xs \<noteq> None" "foldl update_max (Some y) xs \<noteq> None" for y xs
    by (induction xs arbitrary: y) (simp_all add: update_min_def update_max_def)
  then show "f64_min xs = None \<longleftrightarrow> xs = []" "f64_max xs = None \<longleftrightarrow> xs = []"
    by (cases xs; simp add: f64_min_def f64_max_def update_min_def update_max_def)+
qed

lemma agg_values_length: "length (agg_values num agg evs) \<le> length evs"
  unfolding agg_values_def by (induction evs) (simp_all add: List.map_filter_simps split: option.split)

lemma count_value_batch:
  assumes "valid_function (AggFunction agg)" and "int (length evs) < 2 ^ 63"
  shows "spec_value evs agg =
    (let v = count_value (AggFunction agg) (batch_agg evs agg) in if v \<noteq> VNil then Some v else None)"
proof -
  let ?xs = "agg_values count_number agg evs"
  have "int (length ?xs) < 2 ^ 63" using assms(2) agg_values_length [of count_number agg evs] by linarith
  then have n: "sint (word_of_nat (length ?xs) :: 64 word) = int (length ?xs)"
    by (rule sint_of_nat64)
  from assms(1) consider "AggFunction agg = ''sum''" | "AggFunction agg = ''count''"
    | "AggFunction agg = ''avg''" | "AggFunction agg = ''min''" | "AggFunction agg = ''max''"
    by (auto simp: valid_function_def)
  then show ?thesis
    by cases
      (simp_all add: spec_value_def count_value_def batch_agg_def fold_count_agg new_agg_def n f64_sum_def
         f64_min_def f64_max_def Let_def split: option.split)
qed

lemma add_results_cong:
  "(\<And>agg. agg \<in> set aggs \<Longrightarrow> f agg = g agg) \<Longrightarrow> add_results f aggs ev = add_results g aggs ev"
  unfolding add_results_def by (induction aggs arbitrary: ev) auto

lemma new_window_conc:
  assumes "evs = [ev]"
  shows "new_count_window cfg ev = (conc_window cfg ([ev], t))
     \<lparr>EventCount := 0, Aggregates := agg_map (batch_agg []) (CountAggregations cfg), LastSeen := 0\<rparr>"
  by (simp add: new_count_window_def conc_window_def agg_map_def batch_agg_def agg_values_def
      List.map_filter_simps)

text \<open>The state the code works on for an event, in terms of the events before it\<close>

definition prior :: "spec_windows \<Rightarrow> string \<Rightarrow> event list" where
  "prior S key = (case fmlookup S key of None \<Rightarrow> [] | Some w \<Rightarrow> fst w)"

lemma prior_window:
  assumes "spec_ok cfg S"
  shows "(case fmlookup (conc cfg S) key of None \<Rightarrow> new_count_window cfg ev | Some s \<Rightarrow> s)
      \<lparr>LastSeen := now, EventCount := EventCount
         (case fmlookup (conc cfg S) key of None \<Rightarrow> new_count_window cfg ev | Some s \<Rightarrow> s) + 1\<rparr> =
    (conc_window cfg (prior S key @ [ev], now))
      \<lparr>Aggregates := agg_map (batch_agg (prior S key)) (CountAggregations cfg)\<rparr>"
proof (cases "fmlookup S key")
  case None
  then show ?thesis by (simp add: prior_def new_window_conc [of "[ev]" ev cfg now]) (simp add: conc_window_def)
next
  case (Some w)
  obtain evs t where w: "w = (evs, t)" by fastforce
  with assms Some have "evs \<noteq> []" by (auto simp: spec_ok_def)
  with w Some show ?thesis by (simp add: prior_def conc_window_def)
qed

lemma prior_length: "spec_ok cfg S \<Longrightarrow> 0 < sint (CountCount cfg) \<Longrightarrow> int (length (prior S key)) < sint (CountCount cfg)"
  by (auto simp: prior_def spec_ok_def split: option.split)

lemma count_result_spec:
  assumes "distinct (map AggAs (CountAggregations cfg))"
    and "\<And>agg. agg \<in> set (CountAggregations cfg) \<Longrightarrow> valid_function (AggFunction agg)"
    and "int (length evs) < 2 ^ 63"
  shows "count_result cfg key (last evs) (conc_window cfg (evs, now)) = spec_result cfg key evs"
proof -
  have "add_results (count_entry (Aggregates (conc_window cfg (evs, now)))) (CountAggregations cfg) e =
      add_results (spec_value evs) (CountAggregations cfg) e" for e
    by (rule add_results_cong)
       (simp add: count_value_batch [OF assms(2,3)] count_entry_def conc_window_def lookup_agg_map [OF assms(1)])
  then show ?thesis
    unfolding count_result_def spec_result_def by (simp add: conc_window_def)
qed

lemma count_event_refines:
  assumes "agg_config_ok cfg" and "spec_ok cfg S" and "spec_event cfg r now S ev = (S', out)"
  shows "count_event cfg r now (conc cfg S) ev = (conc cfg S', out) \<and> spec_ok cfg S'"
proof (cases "GetField ev (CountKeyField cfg)")
  case None
  with assms show ?thesis by (auto simp: count_event_def spec_event_def)
next
  case (Some kv)
  define key evs where "key = fmt_v r kv" and "evs = prior S key @ [ev]"
  let ?aggs = "CountAggregations cfg"
  have pos: "0 < sint (CountCount cfg)" and d: "distinct (map AggAs ?aggs)"
    and v: "\<And>agg. agg \<in> set ?aggs \<Longrightarrow> valid_function (AggFunction agg)"
    using assms(1) by (auto simp: agg_config_ok_def)
  have "int (length evs) \<le> sint (CountCount cfg)"
    using prior_length [OF assms(2) pos, of key] by (simp add: evs_def)
  moreover have "sint (CountCount cfg) < 2 ^ 63" by (rule sint_64) simp
  ultimately have len: "int (length evs) < 2 ^ 63" by linarith
  have ec: "sint (EventCount (conc_window cfg (evs, now))) = int (length evs)"
    using len by (simp add: conc_window_def sint_of_nat64)
  let ?st = "case fmlookup (conc cfg S) key of None \<Rightarrow> new_count_window cfg ev | Some s \<Rightarrow> s"
  have st: "?st\<lparr>LastSeen := now, EventCount := EventCount ?st + 1\<rparr> =
      (conc_window cfg (evs, now))\<lparr>Aggregates := agg_map (batch_agg (prior S key)) ?aggs\<rparr>"
    unfolding evs_def by (rule prior_window [OF assms(2)])
  have ec1: "EventCount ?st + 1 = EventCount (conc_window cfg (evs, now))"
    using arg_cong [OF st, of EventCount] by simp
  have upd: "update_incremental ?aggs ev (Aggregates ?st) = Inr (agg_map (batch_agg evs) ?aggs)"
    using arg_cong [OF st, of Aggregates] update_incremental_batch [OF d] by (simp add: evs_def)
  have full: "(?st\<lparr>LastSeen := now, EventCount := EventCount ?st + 1\<rparr>)\<lparr>Aggregates := agg_map (batch_agg evs) ?aggs\<rparr> =
      conc_window cfg (evs, now)"
    unfolding st by (simp add: conc_window_def)
  have run: "count_event cfg r now (conc cfg S) ev =
      (if int (length evs) < sint (CountCount cfg) then (fmupd key (conc_window cfg (evs, now)) (conc cfg S), Inr INil)
       else (fmdrop key (conc cfg S), Inr (IEvent (count_result cfg key ev (conc_window cfg (evs, now))))))"
    using Some upd full ec ec1
    by (simp add: count_event_def Let_def not_le flip: key_def)
  have res: "count_result cfg key ev (conc_window cfg (evs, now)) = spec_result cfg key evs"
    using count_result_spec [OF d v len] by (simp add: evs_def)
  have "spec_event cfg r now S ev = (if int (length evs) < sint (CountCount cfg) then (fmupd key (evs, now) S, Inr INil)
      else (fmdrop key S, Inr (IEvent (spec_result cfg key evs))))"
    using Some by (simp add: spec_event_def Let_def prior_def evs_def flip: key_def)
  with assms(3) have spec: "(S', out) = (if int (length evs) < sint (CountCount cfg) then (fmupd key (evs, now) S, Inr INil)
      else (fmdrop key S, Inr (IEvent (spec_result cfg key evs))))" by simp
  then have "spec_ok cfg S'"
    using assms(2) by (auto simp: spec_ok_def evs_def split: if_splits)
  with spec show ?thesis unfolding run res by (auto simp: fmupd_fmmap fmdrop_fmmap split: if_splits)
qed

text \<open>What happens to the windows: events arrive, and the eviction loop ticks.\<close>

datatype count_input = Arrive gtime item | Tick gtime

fun count_step ::
  "count_config \<Rightarrow> renderer \<Rightarrow> count_windows \<Rightarrow> count_input \<Rightarrow> count_windows \<times> (gerror + item) option" where
  "count_step cfg r ws (Arrive now x) = (case count_Execute cfg r now ws x of (ws', out) \<Rightarrow> (ws', Some out))"
| "count_step cfg r ws (Tick now) = (evict_idle cfg now ws, None)"

fun spec_step ::
  "count_config \<Rightarrow> renderer \<Rightarrow> spec_windows \<Rightarrow> count_input \<Rightarrow> spec_windows \<times> (gerror + item) option" where
  "spec_step cfg r S (Arrive now x) = (case spec_Execute cfg r now S x of (S', out) \<Rightarrow> (S', Some out))"
| "spec_step cfg r S (Tick now) = (spec_evict cfg now S, None)"

lemma evict_refines: "evict_idle cfg now (conc cfg S) = conc cfg (spec_evict cfg now S)"
  by (rule fmap_ext) (simp add: evict_idle_def spec_evict_def conc_window_def split: option.split)

lemma spec_evict_ok: "spec_ok cfg S \<Longrightarrow> spec_ok cfg (spec_evict cfg now S)"
  by (auto simp: spec_ok_def spec_evict_def)

interpretation count: simulation "conc cfg" "\<lambda>S. agg_config_ok cfg \<and> spec_ok cfg S"
    "spec_step cfg r" "count_step cfg r" for cfg r
proof
  fix S i S' out
  assume inv: "agg_config_ok cfg \<and> spec_ok cfg S" and s: "spec_step cfg r S i = (S', out)"
  show "count_step cfg r (conc cfg S) i = (conc cfg S', out) \<and> agg_config_ok cfg \<and> spec_ok cfg S'"
  proof (cases i)
    case (Arrive now x)
    show ?thesis
    proof (cases x)
      case (IEvent ev)
      with Arrive s obtain out' where "spec_event cfg r now S ev = (S', out')" "out = Some out'"
        by (auto simp: spec_Execute_def split: prod.splits)
      with count_event_refines [of cfg S r now ev S' out'] inv Arrive IEvent show ?thesis
        by (simp add: count_Execute_def)
    qed (use Arrive s inv in \<open>simp_all add: spec_Execute_def count_Execute_def\<close>)
  next
    case (Tick now)
    with s inv show ?thesis by (auto simp: evict_refines spec_evict_ok)
  qed
qed

lemma count_Configure_ok:
  assumes "count_Configure um raw = Inr cfg"
  shows "0 < sint (CountCount cfg) \<and> CountKeyField cfg \<noteq> [] \<and> CountIdleTimeout cfg \<noteq> 0 \<and>
    (\<forall>agg \<in> set (CountAggregations cfg). valid_function (AggFunction agg))"
proof -
  have "time_hour \<noteq> 0" by code_simp
  moreover have "\<forall>agg \<in> set bs. valid_function (AggFunction agg)" if "check_functions as = Inr bs" for as bs
    using that by (auto simp: check_functions_def invalid_functions_def filter_empty_conv split: if_splits)
  ultimately show ?thesis
    using assms by (auto simp: count_Configure_def bind_res_Inr_iff split: if_splits)
qed

lemma spec_ok_empty [simp]: "spec_ok cfg fmempty"
  by (simp add: spec_ok_def)

text \<open>The least and the greatest of the numbers, also when some of them are NaN\<close>

lemma f64_lt_le_trans: "f64_lt x m \<Longrightarrow> \<not> f64_lt y m \<Longrightarrow> y \<noteq> FNaN \<Longrightarrow> f64_lt x y"
  and f64_le_lt_trans: "f64_lt m x \<Longrightarrow> \<not> f64_lt m y \<Longrightarrow> y \<noteq> FNaN \<Longrightarrow> f64_lt y x"
proof -
  have "f64_lt a b \<Longrightarrow> \<not> f64_lt c b \<Longrightarrow> c \<noteq> FNaN \<Longrightarrow> f64_lt a c" for a b c
  proof (cases "f64_finite a \<and> f64_finite b \<and> f64_finite c")
    case False
    then show "f64_lt a b \<Longrightarrow> \<not> f64_lt c b \<Longrightarrow> c \<noteq> FNaN \<Longrightarrow> f64_lt a c"
      by (cases a; cases b; cases c) auto
  qed (simp add: f64_lt_iff_val)
  then show "f64_lt x m \<Longrightarrow> \<not> f64_lt y m \<Longrightarrow> y \<noteq> FNaN \<Longrightarrow> f64_lt x y" .
  have "f64_lt a b \<Longrightarrow> \<not> f64_lt a c \<Longrightarrow> c \<noteq> FNaN \<Longrightarrow> f64_lt c b" for a b c
  proof (cases "f64_finite a \<and> f64_finite b \<and> f64_finite c")
    case False
    then show "f64_lt a b \<Longrightarrow> \<not> f64_lt a c \<Longrightarrow> c \<noteq> FNaN \<Longrightarrow> f64_lt c b"
      by (cases a; cases b; cases c) auto
  qed (simp add: f64_lt_iff_val)
  then show "f64_lt m x \<Longrightarrow> \<not> f64_lt m y \<Longrightarrow> y \<noteq> FNaN \<Longrightarrow> f64_lt y x" .
qed

lemma f64_lt_NaN [simp]: "\<not> f64_lt FNaN x" "\<not> f64_lt x FNaN"
  by (cases x; simp)+

definition update_best :: "(f64 \<Rightarrow> f64 \<Rightarrow> bool) \<Rightarrow> f64 option \<Rightarrow> f64 \<Rightarrow> f64 option" where
  "update_best lt m x = (case m of None \<Rightarrow> Some x | Some y \<Rightarrow> if lt x y then Some x else Some y)"

lemma update_best_simps [simp]:
  "update_best lt None x = Some x" "update_best lt (Some y) x = Some (if lt x y then x else y)"
  by (simp_all add: update_best_def)

lemma update_min_max: "update_min = update_best f64_lt" "update_max = update_best (\<lambda>x y. f64_lt y x)"
  by (simp_all add: fun_eq_iff update_min_def update_max_def update_best_def)

lemma fold_best:
  assumes NaN: "\<And>x. \<not> lt x FNaN" and trans: "\<And>x y z. lt x y \<Longrightarrow> lt y z \<Longrightarrow> lt x z"
    and total: "\<And>x m y. lt x m \<Longrightarrow> \<not> lt y m \<Longrightarrow> y \<noteq> FNaN \<Longrightarrow> lt x y" and irrefl: "\<And>x. \<not> lt x x"
  shows "foldl (update_best lt) (Some y) xs = Some m \<Longrightarrow>
    m \<in> set (y # xs) \<and> (\<forall>x \<in> set (y # xs). \<not> lt x m) \<and> (y = FNaN \<longrightarrow> m = FNaN)"
proof (induction xs arbitrary: y)
  case (Cons x xs)
  define z where "z = (if lt x y then x else y)"
  have "foldl (update_best lt) (Some z) xs = Some m"
    using Cons.prems by (simp add: z_def)
  from Cons.IH [OF this] have m: "m \<in> set (z # xs)" "\<forall>x \<in> set (z # xs). \<not> lt x m" "z = FNaN \<longrightarrow> m = FNaN" by auto
  have z: "\<not> lt z m" using m(2) by simp
  have "\<not> lt x m \<and> \<not> lt y m \<and> (y = FNaN \<longrightarrow> m = FNaN)"
  proof (cases "lt x y")
    case True
    then have "z = x" by (simp add: z_def)
    with True z have "\<not> lt y m" using trans [of x y m] by blast
    moreover have "y \<noteq> FNaN" using True NaN by blast
    ultimately show ?thesis using True z by (simp add: z_def)
  next
    case False
    then have zy: "z = y" by (simp add: z_def)
    have "\<not> lt x m"
    proof
      assume "lt x m"
      then have "m \<noteq> FNaN" using NaN by blast
      with m(3) zy have "y \<noteq> FNaN" by blast
      from total [OF \<open>lt x m\<close> _ this] z zy False show False by blast
    qed
    with zy z m(3) show ?thesis by simp
  qed
  with m show ?case by (auto simp: z_def split: if_splits)
qed (simp add: irrefl)

lemma fold_best_list:
  assumes "\<And>x. \<not> lt x FNaN" and "\<And>x y z. lt x y \<Longrightarrow> lt y z \<Longrightarrow> lt x z"
    and "\<And>x m y. lt x m \<Longrightarrow> \<not> lt y m \<Longrightarrow> y \<noteq> FNaN \<Longrightarrow> lt x y" and "\<And>x. \<not> lt x x"
    and "foldl (update_best lt) None xs = Some m"
  shows "m \<in> set xs \<and> (\<forall>x \<in> set xs. \<not> lt x m)"
proof (cases xs)
  case (Cons y ys)
  with assms(5) have "foldl (update_best lt) (Some y) ys = Some m" by simp
  from fold_best [of lt, OF assms(1-4) this] Cons show ?thesis by simp
qed (use assms(5) in simp)

lemma f64_min_least: "f64_min xs = Some m \<Longrightarrow> m \<in> set xs \<and> (\<forall>x \<in> set xs. \<not> f64_lt x m)"
  unfolding f64_min_def update_min_max
  by (erule fold_best_list [rotated 4]) (auto intro: f64_lt_trans f64_lt_le_trans simp: f64_lt_irrefl)

lemma f64_max_greatest: "f64_max xs = Some m \<Longrightarrow> m \<in> set xs \<and> (\<forall>x \<in> set xs. \<not> f64_lt m x)"
  unfolding f64_max_def update_min_max
  by (erule fold_best_list [rotated 4]) (auto intro: f64_lt_trans f64_le_lt_trans simp: f64_lt_irrefl)

section \<open>Properties\<close>

text \<open>C15: for a configuration whose aggregations have different result names (\<open>as\<close>) and every run of arriving
  events and eviction ticks, the transform gives the same answers as the specification that keeps the events
  of each window and aggregates them only when the window is full: nothing is counted twice or lost, evicted
  windows start over, and nothing panics or overflows. Aggregations of one name, which \<open>Configure\<close> lets
  through, share a running state and are outside of this (lemma \<open>shared_name_counts_twice\<close>).\<close>

theorem count_refines_batch:
  assumes "count_Configure um raw = Inr cfg" and "distinct (map AggAs (CountAggregations cfg))"
  shows "\<exists>S. snd (run_steps (count_step cfg r) fmempty inputs) = snd (run_steps (spec_step cfg r) fmempty inputs) \<and>
    fst (run_steps (count_step cfg r) fmempty inputs) = conc cfg S \<and>
    (\<forall>k evs t. fmlookup S k = Some (evs, t) \<longrightarrow> evs \<noteq> [] \<and> int (length evs) < sint (CountCount cfg))"
proof -
  have "agg_config_ok cfg" using count_Configure_ok [OF assms(1)] assms(2) by (simp add: agg_config_ok_def)
  moreover have "conc cfg fmempty = fmempty" by simp
  ultimately show ?thesis
    using count.run_outputs [of cfg fmempty r inputs] count.run_state [of cfg fmempty r inputs]
    unfolding spec_ok_def by (metis fmempty_lookup option.distinct(1))
qed

definition sample_count :: count_config where
  "sample_count = \<lparr>CountKeyField = ''k'', CountCount = 2, CountAggregations =
     [\<lparr>AggField = ''v'', AggFunction = ''sum'', AggAs = ''total''\<rparr>], CountIdleTimeout = time_hour\<rparr>"

lemma sample_count_configured: "count_Configure (\<lambda>_. Inr sample_count) ''x'' = Inr sample_count"
  by code_simp

theorem count_refines_batch_witness:
  "snd (run_steps (count_step sample_count (\<lambda>v. [])) fmempty [Arrive 0 (IEvent (sample_event fmempty)), Tick 1]) =
   [Some (Inl (Errorf ''key field %s not found in event'' [VStr ''k''])), None]"
proof -
  have "distinct (map AggAs (CountAggregations sample_count))" by (simp add: sample_count_def)
  from count_refines_batch [OF sample_count_configured this,
      of "\<lambda>v. []" "[Arrive 0 (IEvent (sample_event fmempty)), Tick 1]"]
  show ?thesis
    by (auto simp: spec_Execute_def spec_event_def GetField_top sample_event_def sample_count_def)
qed

text \<open>Two aggregations with the same result name count every event twice, where the specification counts it once.\<close>

definition shared_name_config :: count_config where
  "shared_name_config = sample_count\<lparr>CountCount := 1, CountAggregations :=
     [\<lparr>AggField = ''v'', AggFunction = ''sum'', AggAs = ''n''\<rparr>, \<lparr>AggField = ''v'', AggFunction = ''count'', AggAs = ''n''\<rparr>]\<rparr>"

lemma shared_name_counts_twice:
  fixes ev :: event
  defines "ev \<equiv> sample_event (fmupd ''v'' (VInt 3) fmempty)"
  shows "count_Configure (\<lambda>_. Inr shared_name_config) ''x'' = Inr shared_name_config"
    and "\<exists>m. update_incremental (CountAggregations shared_name_config) ev
        (Aggregates (new_count_window shared_name_config ev)) = Inr m \<and>
      count_entry m \<lparr>AggField = ''v'', AggFunction = ''count'', AggAs = ''n''\<rparr> = Some (VInt 2) \<and>
      spec_value [ev] \<lparr>AggField = ''v'', AggFunction = ''count'', AggAs = ''n''\<rparr> = Some (VInt 1)"
proof -
  show "count_Configure (\<lambda>_. Inr shared_name_config) ''x'' = Inr shared_name_config" by code_simp
  have "GetField ev ''v'' = Some (VInt 3)" by (simp add: ev_def GetField_top sample_event_def)
  then show "\<exists>m. update_incremental (CountAggregations shared_name_config) ev
        (Aggregates (new_count_window shared_name_config ev)) = Inr m \<and>
      count_entry m \<lparr>AggField = ''v'', AggFunction = ''count'', AggAs = ''n''\<rparr> = Some (VInt 2) \<and>
      spec_value [ev] \<lparr>AggField = ''v'', AggFunction = ''count'', AggAs = ''n''\<rparr> = Some (VInt 1)"
    by (simp add: shared_name_config_def new_count_window_def field_number_def update_count_agg_def new_agg_def
        count_entry_def count_value_def spec_value_def agg_values_def List.map_filter_simps Let_def)
qed

text \<open>The value a full window reports for \<open>min\<close> is one of its numbers and no number is below it,
  and the same for \<open>max\<close>, also in the presence of NaN.\<close>

theorem count_min_max:
  assumes "AggFunction agg \<in> {''min'', ''max''}" and "agg_values count_number agg evs \<noteq> []"
  shows "\<exists>m. spec_value evs agg = Some (VFloat64 m) \<and> m \<in> set (agg_values count_number agg evs) \<and>
    (\<forall>x \<in> set (agg_values count_number agg evs). if AggFunction agg = ''min'' then \<not> f64_lt x m else \<not> f64_lt m x)"
proof -
  obtain a b where "f64_min (agg_values count_number agg evs) = Some a" "f64_max (agg_values count_number agg evs) = Some b"
    using assms(2) f64_min_None f64_max_None by (meson not_None_eq)
  with assms(1) f64_min_least f64_max_greatest show ?thesis by (auto simp: spec_value_def)
qed

theorem count_min_max_witness:
  "\<exists>m. spec_value [sample_event (fmupd ''v'' (VInt 3) fmempty)] \<lparr>AggField = ''v'', AggFunction = ''min'', AggAs = ''m''\<rparr> =
     Some (VFloat64 m)"
  using count_min_max [of "\<lparr>AggField = ''v'', AggFunction = ''min'', AggAs = ''m''\<rparr>"
      "[sample_event (fmupd ''v'' (VInt 3) fmempty)]"]
  by (auto simp: agg_values_def List.map_filter_simps field_number_def GetField_top sample_event_def)

text \<open>The eviction loop panics exactly when the idle timeout is below four nanoseconds, negative
  ones included, and the configuration accepts such a timeout.\<close>

theorem eviction_ticker_panics:
  "((\<exists>msg. eviction_ticker cfg = Inl (ErrPanic msg)) \<longleftrightarrow> sint (CountIdleTimeout cfg) < 4) \<and>
   count_Configure (\<lambda>_. Inr (sample_count\<lparr>CountIdleTimeout := -1\<rparr>)) ''x'' = Inr (sample_count\<lparr>CountIdleTimeout := -1\<rparr>)"
proof
  show "(\<exists>msg. eviction_ticker cfg = Inl (ErrPanic msg)) \<longleftrightarrow> sint (CountIdleTimeout cfg) < 4"
    by (auto simp: eviction_ticker_def Let_def div_int_pos_iff)
qed code_simp

end
