(* ===== verification/Agg_Window.thy ===== *)
theory Agg_Window
  imports Agg_Count
begin

text \<open>
  \<open>internal/transform/aggregate/window.go\<close>: aggregates over windows that close when they are full or
  when their timer fires. The transform answers nothing itself: what a window amounts to goes to an
  emit function. Its state is the open windows and the timers; the clock, the firing of timers, and
  the order of a map are inputs.
\<close>

section \<open>Configuration and state\<close>

record window_config =
  WinKeyField :: string
  MaxEvents :: "64 word"
  MaxDuration :: "64 word"
  WinAggregations :: "aggregation list"

record window_state =
  WinStart :: gtime
  WinEnd :: gtime
  WinEvents :: "event list"
  WinAggregates :: "(string, agg_state) fmap"

text \<open>The timers of \<open>entries\<close>, each with the time at which it fires\<close>

record window_transform =
  windows :: "(string, window_state) fmap"
  entries :: "(string, gtime) fmap"

definition window_Configure :: "window_config unmarshal \<Rightarrow> string \<Rightarrow> gerror + window_config" where
  "window_Configure unmarshal raw =
     (if length raw = 0 then Inl (Errorf ''window aggregation configuration required'' [])
      else bind_res (unmarshal raw) (\<lambda>cfg.
        if WinKeyField cfg = [] then Inl (Errorf ''key_field is required'' [])
        else if sint (MaxEvents cfg) \<le> 0 \<and> sint (MaxDuration cfg) \<le> 0 then
          Inl (Errorf ''either max_events or max_duration must be positive'' [])
        else if length (WinAggregations cfg) = 0 then Inl (Errorf ''at least one aggregation is required'' [])
        else bind_res (check_functions (WinAggregations cfg))
               (\<lambda>as. Inr (cfg\<lparr>WinAggregations := as\<rparr>))))"

definition empty_windows :: window_transform where
  "empty_windows = \<lparr>windows = fmempty, entries = fmempty\<rparr>"

section \<open>Aggregates\<close>

fun toFloat64 :: "gval \<Rightarrow> f64 option" where
  "toFloat64 (VFloat32 v) = Some v"
| "toFloat64 (VFloat64 v) = Some v"
| "toFloat64 (VInt v) = Some (f64_of_int (sint v))"
| "toFloat64 (VInt32 v) = Some (f64_of_int (sint v))"
| "toFloat64 (VInt64 v) = Some (f64_of_int (sint v))"
| "toFloat64 (VUint v) = Some (f64_of_int (uint v))"
| "toFloat64 (VUint32 v) = Some (f64_of_int (uint v))"
| "toFloat64 (VUint64 v) = Some (f64_of_int (uint v))"
| "toFloat64 _ = None"

definition first_agg :: "f64 \<Rightarrow> agg_state" where
  "first_agg x = \<lparr>ASum = x, ACount = 1, AMin = Some x, AMax = Some x\<rparr>"

definition update_window_agg :: "string \<Rightarrow> f64 \<Rightarrow> agg_state \<Rightarrow> agg_state option" where
  "update_window_agg fn x a =
     (if fn = ''count'' then Some (a\<lparr>ACount := ACount a + 1\<rparr>)
      else if fn = ''sum'' \<or> fn = ''avg'' then Some (a\<lparr>ASum := f64_add (ASum a) x, ACount := ACount a + 1\<rparr>)
      else if fn = ''min'' then Some (a\<lparr>AMin := update_min (AMin a) x, ACount := ACount a + 1\<rparr>)
      else if fn = ''max'' then Some (a\<lparr>AMax := update_max (AMax a) x, ACount := ACount a + 1\<rparr>)
      else None)"

fun updateAggregations ::
  "aggregation list \<Rightarrow> event \<Rightarrow> (string, agg_state) fmap \<Rightarrow> (string, agg_state) fmap \<times> gerror option" where
  "updateAggregations [] ev m = (m, None)"
| "updateAggregations (agg # aggs) ev m =
     (case field_number toFloat64 agg ev of
        None \<Rightarrow> updateAggregations aggs ev m
      | Some x \<Rightarrow>
          (case fmlookup m (AggAs agg) of
             None \<Rightarrow> updateAggregations aggs ev (fmupd (AggAs agg) (first_agg x) m)
           | Some a \<Rightarrow>
               (case update_window_agg (AggFunction agg) x a of
                  None \<Rightarrow> (m, Some (Errorf ''unknown aggregation function: %s'' [VStr (AggFunction agg)]))
                | Some a' \<Rightarrow> updateAggregations aggs ev (fmupd (AggAs agg) a' m))))"

text \<open>
  The value reported for an aggregation. A timer or a full window stores the pointers \<open>Min\<close> and \<open>Max\<close>
  themselves, \<open>ForceEmitAllWindows\<close> stores what they point to.
\<close>

definition nil_float_ptr :: gval where
  "nil_float_ptr = VOther ''*float64'' ''<nil>''"

definition window_value :: "bool \<Rightarrow> string \<Rightarrow> agg_state \<Rightarrow> gval" where
  "window_value force fn a =
     (let bound = (\<lambda>b. case b of
           None \<Rightarrow> if force then VNil else nil_float_ptr
         | Some x \<Rightarrow> if force then VFloat64 x else VFloatPtr x)
      in if fn = ''count'' then VInt (ACount a)
         else if fn = ''sum'' then VFloat64 (ASum a)
         else if fn = ''avg'' then VFloat64 (f64_div (ASum a) (f64_of_int (sint (ACount a))))
         else if fn = ''min'' then bound (AMin a)
         else if fn = ''max'' then bound (AMax a)
         else VNil)"

definition window_entry :: "bool \<Rightarrow> (string, agg_state) fmap \<Rightarrow> aggregation \<Rightarrow> gval option" where
  "window_entry force m agg =
     (case fmlookup m (AggAs agg) of
        None \<Rightarrow> None
      | Some a \<Rightarrow> if sint (ACount a) > 0 then Some (window_value force (AggFunction agg) a) else None)"

definition window_result :: "window_config \<Rightarrow> bool \<Rightarrow> gtime \<Rightarrow> string \<Rightarrow> window_state \<Rightarrow> event" where
  "window_result cfg force now key state =
     add_results (window_entry force (WinAggregates state)) (WinAggregations cfg)
       (SetField (SetField (SetField (SetField (new_event now) ''window_key'' (VStr key))
          ''window_start'' (VTime (WinStart state))) ''window_end'' (VTime (WinEnd state)))
          ''event_count'' (VInt (of_nat (length (WinEvents state)))))"

section \<open>Operations\<close>

text \<open>\<open>emitWindowResults\<close>: the new state and the events given to the emit function\<close>

definition emitWindowResults ::
  "window_config \<Rightarrow> gtime \<Rightarrow> window_transform \<Rightarrow> string \<Rightarrow> window_transform \<times> event list" where
  "emitWindowResults cfg now w key =
     (case fmlookup (windows w) key of
        None \<Rightarrow> (w, [])
      | Some state \<Rightarrow>
          (\<lparr>windows = fmdrop key (windows w), entries = fmdrop key (entries w)\<rparr>,
           [window_result cfg False now key state]))"

definition scheduleWindowTimeout :: "window_config \<Rightarrow> gtime \<Rightarrow> string \<Rightarrow> window_transform \<Rightarrow> window_transform" where
  "scheduleWindowTimeout cfg now key w =
     w\<lparr>entries := fmupd key (now + sint (MaxDuration cfg)) (fmdrop key (entries w))\<rparr>"

definition open_window :: "window_config \<Rightarrow> gtime \<Rightarrow> string \<Rightarrow> window_transform \<Rightarrow> window_transform" where
  "open_window cfg now key w =
     (case fmlookup (windows w) key of
        Some _ \<Rightarrow> w
      | None \<Rightarrow>
          let w' = w\<lparr>windows := fmupd key \<lparr>WinStart = now, WinEnd = now + sint (MaxDuration cfg),
                      WinEvents = [], WinAggregates = fmempty\<rparr> (windows w)\<rparr>
          in if sint (MaxDuration cfg) > 0 then scheduleWindowTimeout cfg now key w' else w')"

text \<open>
  \<open>Execute\<close> on an event: the new state, the events emitted, and the answer. The code lets go of its lock between the
  check for a full window and the emission, which are one step here; a timer that fires in between emits the
  same window instead.
\<close>

definition window_event ::
  "window_config \<Rightarrow> gtime \<Rightarrow> window_transform \<Rightarrow> event \<Rightarrow> window_transform \<times> event list \<times> (gerror + item)" where
  "window_event cfg now w ev =
     (case GetField ev (WinKeyField cfg) of
        None \<Rightarrow> (w, [], Inl (Errorf ''key field %s not found in event'' [VStr (WinKeyField cfg)]))
      | Some (VStr key) \<Rightarrow>
          (let w = open_window cfg now key w
           in case fmlookup (windows w) key of
                None \<Rightarrow> (w, [], Inl nil_panic)
              | Some state \<Rightarrow>
                  (case updateAggregations (WinAggregations cfg) ev (WinAggregates state) of (m, err) \<Rightarrow>
                   let state = state\<lparr>WinEvents := WinEvents state @ [ev], WinAggregates := m\<rparr>;
                       w = w\<lparr>windows := fmupd key state (windows w)\<rparr>
                   in case err of
                        Some e \<Rightarrow> (w, [], Inl (wrap_err ''failed to update aggregations: %w'' [] e))
                      | None \<Rightarrow>
                          if sint (MaxEvents cfg) > 0 \<and> sint (MaxEvents cfg) \<le> int (length (WinEvents state)) then
                            (case emitWindowResults cfg now w key of (w', out) \<Rightarrow> (w', out, Inl ErrDrop))
                          else (w, [], Inr INil)))
      | Some keyValue \<Rightarrow>
          (w, [], Inl (Errorf ''key field %s must be a string, got %T''
                         [VStr (WinKeyField cfg), VStr (type_name keyValue)])))"

definition window_Execute ::
  "window_config \<Rightarrow> gtime \<Rightarrow> window_transform \<Rightarrow> item \<Rightarrow> window_transform \<times> event list \<times> (gerror + item)" where
  "window_Execute cfg now w x =
     (case x of
        IEvent ev \<Rightarrow> window_event cfg now w ev
      | _ \<Rightarrow> (w, [], Inl (Errorf ''unexpected payload type'' [])))"

text \<open>The function of a timer: \<open>done\<close> says whether the context of the window's first event is done.\<close>

definition timer_fired ::
  "window_config \<Rightarrow> gtime \<Rightarrow> bool \<Rightarrow> window_transform \<Rightarrow> string \<Rightarrow> window_transform \<times> event list" where
  "timer_fired cfg now done w key = (if done then (w, []) else emitWindowResults cfg now w key)"

definition ForceEmitAllWindows ::
  "iter \<Rightarrow> window_config \<Rightarrow> gtime \<Rightarrow> window_transform \<Rightarrow> window_transform \<times> event list" where
  "ForceEmitAllWindows ord cfg now w =
     (empty_windows,
      List.map_filter (\<lambda>key. map_option (window_result cfg True now key) (fmlookup (windows w) key))
        (ord (fmdom (windows w))))"

definition window_Stop :: "window_transform \<Rightarrow> window_transform" where
  "window_Stop w = w\<lparr>entries := fmempty\<rparr>"

text \<open>As a transform of the process: \<open>emit\<close> is what the emit function does, nothing unless one is set.\<close>

definition window_factory ::
  "window_config unmarshal \<Rightarrow> ('s \<Rightarrow> gtime) \<Rightarrow> ('s \<Rightarrow> window_transform) \<Rightarrow> (window_transform \<Rightarrow> 's \<Rightarrow> 's) \<Rightarrow>
   (event list \<Rightarrow> 's \<Rightarrow> 's) \<Rightarrow> 's factory" where
  "window_factory um clock get put emit raw = bind_res (window_Configure um raw) (\<lambda>cfg.
     Inr \<lparr>Name = ''aggregate.window'',
          Exec = (\<lambda>s x. case window_Execute cfg (clock s) (get s) x of
                   (w, out, r) \<Rightarrow> (if out = [] then put w s else emit out (put w s), r))\<rparr>)"

section \<open>The specification\<close>

text \<open>An open window is its events and the time it was opened at; aggregates are made when it closes.\<close>

definition win_spec_value :: "bool \<Rightarrow> event list \<Rightarrow> aggregation \<Rightarrow> gval option" where
  "win_spec_value force evs agg =
     (let xs = agg_values toFloat64 agg evs; n = word_of_nat (length xs) :: 64 word; fn = AggFunction agg;
          total = foldl f64_add (hd xs) (tl xs); bound = (if force then VFloat64 else VFloatPtr)
      in if sint n > 0 then Some
           (if fn = ''count'' then VInt n
            else if fn = ''sum'' then VFloat64 total
            else if fn = ''avg'' then VFloat64 (f64_div total (f64_of_int (sint n)))
            else if fn = ''min'' then bound (the (f64_min xs))
            else bound (the (f64_max xs)))
         else None)"

type_synonym spec_state = "(string, event list \<times> gtime) fmap \<times> (string, gtime) fmap"

definition win_spec_result :: "window_config \<Rightarrow> bool \<Rightarrow> gtime \<Rightarrow> string \<Rightarrow> event list \<times> gtime \<Rightarrow> event" where
  "win_spec_result cfg force now key w =
     add_results (win_spec_value force (fst w)) (WinAggregations cfg)
       (SetField (SetField (SetField (SetField (new_event now) ''window_key'' (VStr key))
          ''window_start'' (VTime (snd w))) ''window_end'' (VTime (snd w + sint (MaxDuration cfg))))
          ''event_count'' (VInt (of_nat (length (fst w)))))"

definition win_spec_emit :: "window_config \<Rightarrow> gtime \<Rightarrow> spec_state \<Rightarrow> string \<Rightarrow> spec_state \<times> event list" where
  "win_spec_emit cfg now S key =
     (case fmlookup (fst S) key of
        None \<Rightarrow> (S, [])
      | Some w \<Rightarrow> ((fmdrop key (fst S), fmdrop key (snd S)), [win_spec_result cfg False now key w]))"

definition win_spec_event ::
  "window_config \<Rightarrow> gtime \<Rightarrow> spec_state \<Rightarrow> event \<Rightarrow> spec_state \<times> event list \<times> (gerror + item)" where
  "win_spec_event cfg now S ev =
     (case GetField ev (WinKeyField cfg) of
        None \<Rightarrow> (S, [], Inl (Errorf ''key field %s not found in event'' [VStr (WinKeyField cfg)]))
      | Some (VStr key) \<Rightarrow>
          (let new = (fmlookup (fst S) key = None);
               w = (case fmlookup (fst S) key of None \<Rightarrow> ([ev], now) | Some w \<Rightarrow> (fst w @ [ev], snd w));
               T = (if new \<and> sint (MaxDuration cfg) > 0 then fmupd key (now + sint (MaxDuration cfg)) (snd S) else snd S)
           in if sint (MaxEvents cfg) > 0 \<and> sint (MaxEvents cfg) \<le> int (length (fst w)) then
                ((fmdrop key (fst S), fmdrop key T), [win_spec_result cfg False now key w], Inl ErrDrop)
              else ((fmupd key w (fst S), T), [], Inr INil))
      | Some keyValue \<Rightarrow>
          (S, [], Inl (Errorf ''key field %s must be a string, got %T''
                         [VStr (WinKeyField cfg), VStr (type_name keyValue)])))"

datatype window_input = WArrive gtime item | WTimer gtime bool string | WForce gtime | WStop

fun window_step ::
  "iter \<Rightarrow> window_config \<Rightarrow> window_transform \<Rightarrow> window_input \<Rightarrow>
   window_transform \<times> event list \<times> (gerror + item) option" where
  "window_step ord cfg w (WArrive now x) = (case window_Execute cfg now w x of (w', out, r) \<Rightarrow> (w', out, Some r))"
| "window_step ord cfg w (WTimer now done key) = (case timer_fired cfg now done w key of (w', out) \<Rightarrow> (w', out, None))"
| "window_step ord cfg w (WForce now) = (case ForceEmitAllWindows ord cfg now w of (w', out) \<Rightarrow> (w', out, None))"
| "window_step ord cfg w WStop = (window_Stop w, [], None)"

fun win_spec_step ::
  "iter \<Rightarrow> window_config \<Rightarrow> spec_state \<Rightarrow> window_input \<Rightarrow>
   spec_state \<times> event list \<times> (gerror + item) option" where
  "win_spec_step ord cfg S (WArrive now x) =
     (case x of
        IEvent ev \<Rightarrow> (case win_spec_event cfg now S ev of (S', out, r) \<Rightarrow> (S', out, Some r))
      | _ \<Rightarrow> (S, [], Some (Inl (Errorf ''unexpected payload type'' []))))"
| "win_spec_step ord cfg S (WTimer now done key) =
     (if done then (S, [], None) else case win_spec_emit cfg now S key of (S', out) \<Rightarrow> (S', out, None))"
| "win_spec_step ord cfg S (WForce now) =
     ((fmempty, fmempty),
      List.map_filter (\<lambda>key. map_option (win_spec_result cfg True now key) (fmlookup (fst S) key)) (ord (fmdom (fst S))),
      None)"
| "win_spec_step ord cfg S WStop = ((fst S, fmempty), [], None)"

section \<open>Refinement\<close>

definition win_batch :: "event list \<Rightarrow> aggregation \<Rightarrow> agg_state option" where
  "win_batch evs agg =
     (case agg_values toFloat64 agg evs of
        [] \<Rightarrow> None
      | x # xs \<Rightarrow> Some (foldl (\<lambda>a y. the (update_window_agg (AggFunction agg) y a)) (first_agg x) xs))"

definition opt_agg_map :: "(aggregation \<Rightarrow> 'a option) \<Rightarrow> aggregation list \<Rightarrow> (string, 'a) fmap" where
  "opt_agg_map f aggs =
     foldl (\<lambda>m agg. case f agg of None \<Rightarrow> m | Some a \<Rightarrow> fmupd (AggAs agg) a m) fmempty aggs"

definition conc_win :: "window_config \<Rightarrow> event list \<times> gtime \<Rightarrow> window_state" where
  "conc_win cfg w =
     \<lparr>WinStart = snd w, WinEnd = snd w + sint (MaxDuration cfg), WinEvents = fst w,
      WinAggregates = opt_agg_map (win_batch (fst w)) (WinAggregations cfg)\<rparr>"

definition conc_windows :: "window_config \<Rightarrow> spec_state \<Rightarrow> window_transform" where
  "conc_windows cfg S = \<lparr>windows = fmmap (conc_win cfg) (fst S), entries = snd S\<rparr>"

definition win_config_ok :: "window_config \<Rightarrow> bool" where
  "win_config_ok cfg \<longleftrightarrow> distinct (map AggAs (WinAggregations cfg)) \<and>
     (\<forall>agg \<in> set (WinAggregations cfg). valid_function (AggFunction agg))"

lemma opt_fold_other:
  "k \<notin> AggAs ` set aggs \<Longrightarrow>
   fmlookup (foldl (\<lambda>m agg. case f agg of None \<Rightarrow> m | Some a \<Rightarrow> fmupd (AggAs agg) a m) m0 aggs) k = fmlookup m0 k"
  by (induction aggs arbitrary: m0) (auto split: option.split)

lemma opt_fold_in:
  "distinct (map AggAs aggs) \<Longrightarrow> agg \<in> set aggs \<Longrightarrow> fmlookup m0 (AggAs agg) = None \<Longrightarrow>
   fmlookup (foldl (\<lambda>m agg. case f agg of None \<Rightarrow> m | Some a \<Rightarrow> fmupd (AggAs agg) a m) m0 aggs) (AggAs agg) = f agg"
proof (induction aggs arbitrary: m0)
  case (Cons a aggs)
  show ?case
  proof (cases "agg = a")
    case True
    with Cons.prems have "AggAs agg \<notin> AggAs ` set aggs" by simp
    with True Cons.prems(3) show ?thesis by (simp add: opt_fold_other split: option.split)
  next
    case False
    with Cons.prems have "AggAs a \<noteq> AggAs agg" "agg \<in> set aggs" by force+
    with Cons show ?thesis by (simp split: option.split)
  qed
qed simp

lemma lookup_opt_agg_map:
  assumes "distinct (map AggAs aggs)"
  shows "agg \<in> set aggs \<Longrightarrow> fmlookup (opt_agg_map f aggs) (AggAs agg) = f agg"
    and "k \<notin> AggAs ` set aggs \<Longrightarrow> fmlookup (opt_agg_map f aggs) k = None"
  unfolding opt_agg_map_def by (rule opt_fold_in [OF assms]) (simp_all add: opt_fold_other)

lemma opt_agg_map_eqI:
  assumes "distinct (map AggAs aggs)" and "\<And>agg. agg \<in> set aggs \<Longrightarrow> fmlookup m (AggAs agg) = f agg"
    and "\<And>k. k \<notin> AggAs ` set aggs \<Longrightarrow> fmlookup m k = None"
  shows "m = opt_agg_map f aggs"
proof (rule fmap_ext)
  fix k
  show "fmlookup m k = fmlookup (opt_agg_map f aggs) k"
    by (cases "k \<in> AggAs ` set aggs") (auto simp: assms(2,3) lookup_opt_agg_map [OF assms(1)])
qed

lemma update_window_valid: "valid_function fn \<Longrightarrow> \<exists>a'. update_window_agg fn x a = Some a'"
  by (auto simp: valid_function_def update_window_agg_def)

lemma win_batch_snoc:
  "win_batch (evs @ [ev]) agg =
     (case field_number toFloat64 agg ev of
        None \<Rightarrow> win_batch evs agg
      | Some x \<Rightarrow> Some (case win_batch evs agg of None \<Rightarrow> first_agg x | Some a \<Rightarrow> the (update_window_agg (AggFunction agg) x a)))"
  by (auto simp: win_batch_def agg_values_snoc split: option.split list.split)

lemma updateAggregations_lookup:
  assumes "distinct (map AggAs aggs)" and "\<And>agg. agg \<in> set aggs \<Longrightarrow> valid_function (AggFunction agg)"
    and "\<And>agg. agg \<in> set aggs \<Longrightarrow> fmlookup m (AggAs agg) = A agg"
  shows "\<exists>m'. updateAggregations aggs ev m = (m', None) \<and>
    (\<forall>agg \<in> set aggs. fmlookup m' (AggAs agg) =
       (case field_number toFloat64 agg ev of
          None \<Rightarrow> A agg
        | Some x \<Rightarrow> Some (case A agg of None \<Rightarrow> first_agg x | Some a \<Rightarrow> the (update_window_agg (AggFunction agg) x a)))) \<and>
    (\<forall>k. k \<notin> AggAs ` set aggs \<longrightarrow> fmlookup m' k = fmlookup m k)"
  using assms
proof (induction aggs arbitrary: m)
  case (Cons a aggs)
  let ?new = "\<lambda>x. case A a of None \<Rightarrow> first_agg x | Some s \<Rightarrow> the (update_window_agg (AggFunction a) x s)"
  let ?m = "case field_number toFloat64 a ev of None \<Rightarrow> m | Some x \<Rightarrow> fmupd (AggAs a) (?new x) m"
  have keep: "agg \<in> set aggs \<Longrightarrow> fmlookup ?m (AggAs agg) = A agg" for agg
    using Cons.prems by (force split: option.split)
  have step: "updateAggregations (a # aggs) ev m = updateAggregations aggs ev ?m"
    using Cons.prems(3) [of a] update_window_valid [OF Cons.prems(2) [of a]]
    by (auto split: option.split) (metis option.sel option.distinct(1))+
  from Cons.IH [OF _ _ keep] Cons.prems(1,2) obtain m' where m': "updateAggregations aggs ev ?m = (m', None)"
      "\<forall>agg \<in> set aggs. fmlookup m' (AggAs agg) = (case field_number toFloat64 agg ev of
          None \<Rightarrow> A agg
        | Some x \<Rightarrow> Some (case A agg of None \<Rightarrow> first_agg x | Some a \<Rightarrow> the (update_window_agg (AggFunction agg) x a)))"
      "\<forall>k. k \<notin> AggAs ` set aggs \<longrightarrow> fmlookup m' k = fmlookup ?m k" by auto
  have "AggAs a \<notin> AggAs ` set aggs" using Cons.prems(1) by simp
  with m'(3) have "fmlookup m' (AggAs a) = fmlookup ?m (AggAs a)" by blast
  with m' step Cons.prems(3) [of a] show ?case
    by (intro exI [of _ m']) (auto split: option.splits)
qed simp

lemma updateAggregations_batch:
  assumes "win_config_ok cfg"
  shows "updateAggregations (WinAggregations cfg) ev (opt_agg_map (win_batch evs) (WinAggregations cfg)) =
    (opt_agg_map (win_batch (evs @ [ev])) (WinAggregations cfg), None)"
proof -
  let ?aggs = "WinAggregations cfg"
  have d: "distinct (map AggAs ?aggs)" and v: "\<And>agg. agg \<in> set ?aggs \<Longrightarrow> valid_function (AggFunction agg)"
    using assms by (auto simp: win_config_ok_def)
  obtain m' where m': "updateAggregations ?aggs ev (opt_agg_map (win_batch evs) ?aggs) = (m', None)"
      "\<forall>agg \<in> set ?aggs. fmlookup m' (AggAs agg) = win_batch (evs @ [ev]) agg"
      "\<forall>k. k \<notin> AggAs ` set ?aggs \<longrightarrow> fmlookup m' k = None"
    using updateAggregations_lookup [OF d v, of "opt_agg_map (win_batch evs) ?aggs" "win_batch evs" ev]
    by (auto simp: win_batch_snoc lookup_opt_agg_map [OF d])
  then have "m' = opt_agg_map (win_batch (evs @ [ev])) ?aggs" by (intro opt_agg_map_eqI [OF d]) auto
  with m'(1) show ?thesis by simp
qed

lemma fold_window_agg:
  assumes "valid_function fn"
  defines "b \<equiv> \<lambda>a xs. foldl (\<lambda>a y. the (update_window_agg fn y a)) a xs"
  shows "ACount (b a xs) = ACount a + word_of_nat (length xs)"
    and "fn \<in> {''sum'', ''avg''} \<Longrightarrow> ASum (b a xs) = foldl f64_add (ASum a) xs"
    and "fn = ''min'' \<Longrightarrow> AMin (b a xs) = foldl update_min (AMin a) xs"
    and "fn = ''max'' \<Longrightarrow> AMax (b a xs) = foldl update_max (AMax a) xs"
proof -
  have "fn \<in> {''sum'', ''avg''} \<or> fn = ''count'' \<or> fn = ''min'' \<or> fn = ''max''"
    using assms(1) by (auto simp: valid_function_def)
  then show "ACount (b a xs) = ACount a + word_of_nat (length xs)"
    unfolding b_def by (induction xs arbitrary: a) (auto simp: update_window_agg_def)
  show "fn \<in> {''sum'', ''avg''} \<Longrightarrow> ASum (b a xs) = foldl f64_add (ASum a) xs"
    unfolding b_def by (induction xs arbitrary: a) (auto simp: update_window_agg_def)
  show "fn = ''min'' \<Longrightarrow> AMin (b a xs) = foldl update_min (AMin a) xs"
    unfolding b_def by (induction xs arbitrary: a) (auto simp: update_window_agg_def)
  show "fn = ''max'' \<Longrightarrow> AMax (b a xs) = foldl update_max (AMax a) xs"
    unfolding b_def by (induction xs arbitrary: a) (auto simp: update_window_agg_def)
qed

lemma fold_update_Some: "\<exists>z. foldl update_min (Some y) xs = Some z" "\<exists>z. foldl update_max (Some y) xs = Some z"
  by (induction xs arbitrary: y) (simp_all add: update_min_def update_max_def)

lemma window_entry_batch:
  assumes "valid_function (AggFunction agg)" and "fmlookup m (AggAs agg) = win_batch evs agg"
  shows "window_entry force m agg = win_spec_value force evs agg"
proof (cases "agg_values toFloat64 agg evs")
  case Nil
  with assms(2) show ?thesis by (simp add: window_entry_def win_batch_def win_spec_value_def)
next
  case (Cons x xs)
  let ?fn = "AggFunction agg"
  obtain a b where ab: "foldl update_min (Some x) xs = Some a" "foldl update_max (Some x) xs = Some b"
    using fold_update_Some by blast
  then have mm: "f64_min (x # xs) = Some a" "f64_max (x # xs) = Some b"
    by (simp_all add: f64_min_def f64_max_def update_min_def update_max_def)
  from assms(1) consider "?fn = ''sum''" | "?fn = ''count''" | "?fn = ''avg''" | "?fn = ''min''" | "?fn = ''max''"
    by (auto simp: valid_function_def)
  then show ?thesis
    using assms(2) fold_window_agg [OF assms(1), of "first_agg x" xs] Cons ab mm
    by cases (simp_all add: window_entry_def win_batch_def win_spec_value_def window_value_def Let_def first_agg_def)
qed

lemma window_result_spec:
  assumes "win_config_ok cfg"
  shows "window_result cfg force now key (conc_win cfg w) = win_spec_result cfg force now key w"
proof -
  let ?aggs = "WinAggregations cfg"
  have d: "distinct (map AggAs ?aggs)" and v: "\<And>agg. agg \<in> set ?aggs \<Longrightarrow> valid_function (AggFunction agg)"
    using assms by (auto simp: win_config_ok_def)
  have "add_results (window_entry force (opt_agg_map (win_batch (fst w)) ?aggs)) ?aggs e =
      add_results (win_spec_value force (fst w)) ?aggs e" for e
    by (rule add_results_cong) (simp add: window_entry_batch [OF v] lookup_opt_agg_map [OF d])
  then show ?thesis unfolding window_result_def win_spec_result_def by (simp add: conc_win_def)
qed

lemma emit_refines:
  "win_config_ok cfg \<Longrightarrow> win_spec_emit cfg now S key = (S', out) \<Longrightarrow>
   emitWindowResults cfg now (conc_windows cfg S) key = (conc_windows cfg S', out)"
  by (auto simp: emitWindowResults_def win_spec_emit_def conc_windows_def window_result_spec fmdrop_fmmap
      split: option.splits)

text \<open>A new window is the window of no events.\<close>

lemma conc_win_empty: "conc_win cfg ([], t) = \<lparr>WinStart = t, WinEnd = t + sint (MaxDuration cfg), WinEvents = [],
    WinAggregates = fmempty\<rparr>"
proof -
  have "opt_agg_map (win_batch []) aggs = fmempty" for aggs
    unfolding opt_agg_map_def by (induction aggs) (simp_all add: win_batch_def agg_values_def List.map_filter_simps)
  then show ?thesis by (simp add: conc_win_def)
qed

definition opened :: "window_config \<Rightarrow> gtime \<Rightarrow> string \<Rightarrow> spec_state \<Rightarrow> spec_state" where
  "opened cfg now key S =
     (case fmlookup (fst S) key of
        Some _ \<Rightarrow> S
      | None \<Rightarrow> (fmupd key ([], now) (fst S),
                 if sint (MaxDuration cfg) > 0 then fmupd key (now + sint (MaxDuration cfg)) (snd S) else snd S))"

lemma fmupd_fmdrop: "fmupd k v (fmdrop k m) = fmupd k v m"
  by (rule fmap_ext) simp

lemma open_refines: "open_window cfg now key (conc_windows cfg S) = conc_windows cfg (opened cfg now key S)"
  by (auto simp: open_window_def opened_def conc_windows_def scheduleWindowTimeout_def conc_win_empty Let_def
      fmupd_fmdrop split: option.split simp flip: fmupd_fmmap)

definition window_before :: "gtime \<Rightarrow> string \<Rightarrow> spec_state \<Rightarrow> event list \<times> gtime" where
  "window_before now key S = (case fmlookup (fst S) key of None \<Rightarrow> ([], now) | Some w \<Rightarrow> w)"

lemma opened_facts:
  "fmlookup (fst (opened cfg now key S)) key = Some (window_before now key S)"
  "fmupd key w (fst (opened cfg now key S)) = fmupd key w (fst S)"
  "fmdrop key (fst (opened cfg now key S)) = fmdrop key (fst S)"
  by (auto simp: opened_def window_before_def intro!: fmap_ext split: option.split)

lemma win_spec_event_alt:
  assumes "GetField ev (WinKeyField cfg) = Some (VStr key)"
  shows "win_spec_event cfg now S ev =
    (let w = (fst (window_before now key S) @ [ev], snd (window_before now key S)); T = snd (opened cfg now key S)
     in if sint (MaxEvents cfg) > 0 \<and> sint (MaxEvents cfg) \<le> int (length (fst w)) then
          ((fmdrop key (fst S), fmdrop key T), [win_spec_result cfg False now key w], Inl ErrDrop)
        else ((fmupd key w (fst S), T), [], Inr INil))"
  using assms by (auto simp: win_spec_event_def window_before_def opened_def Let_def split: option.split)

lemma window_event_refines:
  assumes ok: "win_config_ok cfg" and spec: "win_spec_event cfg now S ev = (S', out, r)"
  shows "window_event cfg now (conc_windows cfg S) ev = (conc_windows cfg S', out, r)"
proof (cases "\<exists>key. GetField ev (WinKeyField cfg) = Some (VStr key)")
  case False
  with spec show ?thesis
    by (auto simp: window_event_def win_spec_event_def split: option.splits gval.splits)
next
  case True
  then obtain key where key: "GetField ev (WinKeyField cfg) = Some (VStr key)" by blast
  define O0 w0 w where "O0 = opened cfg now key S" and "w0 = window_before now key S"
    and "w = (fst w0 @ [ev], snd w0)"
  let ?C = "conc_windows cfg O0"
  have l: "fmlookup (windows ?C) key = Some (conc_win cfg w0)"
    by (simp add: conc_windows_def O0_def w0_def opened_facts)
  have upd: "updateAggregations (WinAggregations cfg) ev (WinAggregates (conc_win cfg w0)) =
      (WinAggregates (conc_win cfg w), None)"
    using updateAggregations_batch [OF ok] by (simp add: conc_win_def w_def)
  have st: "(conc_win cfg w0)\<lparr>WinEvents := WinEvents (conc_win cfg w0) @ [ev],
      WinAggregates := WinAggregates (conc_win cfg w)\<rparr> = conc_win cfg w"
    by (simp add: conc_win_def w_def)
  let ?S1 = "(fmupd key w (fst S), snd O0)"
  have c1: "?C\<lparr>windows := fmupd key (conc_win cfg w) (windows ?C)\<rparr> = conc_windows cfg ?S1"
    by (simp add: conc_windows_def fmupd_fmmap O0_def opened_facts)
  have n: "length (WinEvents (conc_win cfg w)) = length (fst w)" by (simp add: conc_win_def)
  have em: "emitWindowResults cfg now (conc_windows cfg ?S1) key =
      (conc_windows cfg (fmdrop key (fst S), fmdrop key (snd O0)), [win_spec_result cfg False now key w])"
    by (rule emit_refines [OF ok]) (simp add: win_spec_emit_def fmdrop_fmupd)
  have "window_event cfg now (conc_windows cfg S) ev =
      (if sint (MaxEvents cfg) > 0 \<and> sint (MaxEvents cfg) \<le> int (length (fst w))
       then (conc_windows cfg (fmdrop key (fst S), fmdrop key (snd O0)), [win_spec_result cfg False now key w], Inl ErrDrop)
       else (conc_windows cfg ?S1, [], Inr INil))"
    using key by (simp add: window_event_def open_refines l upd st c1 em n Let_def flip: O0_def)
  moreover have "win_spec_event cfg now S ev =
      (if sint (MaxEvents cfg) > 0 \<and> sint (MaxEvents cfg) \<le> int (length (fst w))
       then ((fmdrop key (fst S), fmdrop key (snd O0)), [win_spec_result cfg False now key w], Inl ErrDrop)
       else (?S1, [], Inr INil))"
    unfolding win_spec_event_alt [OF key] by (simp add: Let_def w_def w0_def O0_def)
  ultimately show ?thesis using spec by (auto split: if_splits)
qed

interpretation window: simulation "conc_windows cfg" "\<lambda>S. win_config_ok cfg"
    "win_spec_step ord cfg" "window_step ord cfg" for ord cfg
proof
  fix S i S' out
  assume ok: "win_config_ok cfg" and s: "win_spec_step ord cfg S i = (S', out)"
  show "window_step ord cfg (conc_windows cfg S) i = (conc_windows cfg S', out) \<and> win_config_ok cfg"
  proof (cases i)
    case (WArrive now x)
    show ?thesis
    proof (cases x)
      case (IEvent ev)
      obtain S1 es r where r: "win_spec_event cfg now S ev = (S1, es, r)" by (cases "win_spec_event cfg now S ev") auto
      with s WArrive IEvent window_event_refines [OF ok r] ok show ?thesis by (simp add: window_Execute_def)
    qed (use WArrive s ok in \<open>simp_all add: window_Execute_def\<close>)
  next
    case (WTimer now done' key)
    obtain S1 es where r: "win_spec_emit cfg now S key = (S1, es)" by fastforce
    with s WTimer emit_refines [OF ok r] ok show ?thesis by (auto simp: timer_fired_def split: if_splits)
  next
    case (WForce now)
    with s ok show ?thesis
      by (auto simp: ForceEmitAllWindows_def conc_windows_def empty_windows_def window_result_spec o_def
          option.map_comp)
  next
    case WStop
    with s ok show ?thesis by (auto simp: window_Stop_def conc_windows_def)
  qed
qed

text \<open>What the specification keeps: windows are not empty and not full, and timers belong to open windows.\<close>

definition win_open_ok :: "window_config \<Rightarrow> event list \<times> gtime \<Rightarrow> bool" where
  "win_open_ok cfg w \<longleftrightarrow>
     fst w \<noteq> [] \<and> (sint (MaxEvents cfg) > 0 \<longrightarrow> int (length (fst w)) < sint (MaxEvents cfg))"

definition win_spec_ok :: "window_config \<Rightarrow> bool \<Rightarrow> spec_state \<Rightarrow> bool" where
  "win_spec_ok cfg running S \<longleftrightarrow>
     fmpred (\<lambda>k. win_open_ok cfg) (fst S) \<and> fmdom (snd S) |\<subseteq>| fmdom (fst S) \<and>
     (running \<and> sint (MaxDuration cfg) > 0 \<longrightarrow> fmdom (snd S) = fmdom (fst S))"

lemma win_spec_emit_ok:
  "win_spec_ok cfg running S \<Longrightarrow> win_spec_emit cfg now S key = (S', out) \<Longrightarrow> win_spec_ok cfg running S'"
  by (auto simp: win_spec_ok_def win_spec_emit_def fmpred_drop split: option.splits)

lemma timers_after_event:
  assumes "fmdom (snd S) |\<subseteq>| fmdom (fst S)"
  shows "fmdom (snd (opened cfg now key S)) |\<subseteq>| finsert key (fmdom (fst S)) \<and>
    (sint (MaxDuration cfg) > 0 \<and> fmdom (snd S) = fmdom (fst S) \<longrightarrow>
       fmdom (snd (opened cfg now key S)) = finsert key (fmdom (fst S)))"
  using assms by (auto simp: opened_def split: option.split intro: fmdomI)

lemma win_spec_event_ok:
  assumes "win_spec_ok cfg running S" and "win_spec_event cfg now S ev = (S', out, r)"
  shows "win_spec_ok cfg running S'"
proof (cases "\<exists>key. GetField ev (WinKeyField cfg) = Some (VStr key)")
  case False
  with assms show ?thesis by (auto simp: win_spec_event_def split: option.splits gval.splits)
next
  case True
  then obtain key where key: "GetField ev (WinKeyField cfg) = Some (VStr key)" by blast
  define w where "w = (fst (window_before now key S) @ [ev], snd (window_before now key S))"
  have t: "fmdom (snd S) |\<subseteq>| fmdom (fst S)" using assms(1) by (simp add: win_spec_ok_def)
  consider "S' = (fmdrop key (fst S), fmdrop key (snd (opened cfg now key S)))"
    | "S' = (fmupd key w (fst S), snd (opened cfg now key S))" "win_open_ok cfg w"
    using assms(2) unfolding win_spec_event_alt [OF key]
    by (auto simp: Let_def w_def win_open_ok_def not_le split: if_splits)
  then show ?thesis
    using assms(1) timers_after_event [OF t, of cfg now key]
    by cases (auto simp: win_spec_ok_def fmpred_drop fmpred_upd)
qed

lemma win_spec_step_ok:
  assumes "win_spec_ok cfg running S" and "win_spec_step ord cfg S i = (S', out)" and "running \<longrightarrow> i \<noteq> WStop"
  shows "win_spec_ok cfg running S'"
proof (cases i)
  case (WArrive now x)
  with assms win_spec_event_ok show ?thesis
    by (cases x) (auto split: prod.splits intro: win_spec_event_ok)
next
  case (WTimer now done' key)
  with assms show ?thesis by (auto split: if_splits prod.splits intro: win_spec_emit_ok)
next
  case (WForce now)
  with assms show ?thesis by (auto simp: win_spec_ok_def)
next
  case WStop
  with assms show ?thesis by (auto simp: win_spec_ok_def)
qed

lemma window_Configure_ok:
  assumes "window_Configure um raw = Inr cfg"
  shows "(0 < sint (MaxEvents cfg) \<or> 0 < sint (MaxDuration cfg)) \<and>
    (\<forall>agg \<in> set (WinAggregations cfg). valid_function (AggFunction agg))"
proof -
  have "\<forall>agg \<in> set bs. valid_function (AggFunction agg)" if "check_functions as = Inr bs" for as bs
    using that by (auto simp: check_functions_def invalid_functions_def filter_empty_conv split: if_splits)
  then show ?thesis
    using assms by (auto simp: window_Configure_def bind_res_Inr_iff split: if_splits)
qed

lemma window_runs:
  assumes "window_Configure um raw = Inr cfg" and "distinct (map AggAs (WinAggregations cfg))"
  shows "run_steps (window_step ord cfg) empty_windows inputs =
    (case run_steps (win_spec_step ord cfg) (fmempty, fmempty) inputs of (S, outs) \<Rightarrow> (conc_windows cfg S, outs))"
proof -
  have "win_config_ok cfg" using window_Configure_ok [OF assms(1)] assms(2) by (simp add: win_config_ok_def)
  moreover have "conc_windows cfg (fmempty, fmempty) = empty_windows"
    by (simp add: conc_windows_def empty_windows_def)
  ultimately show ?thesis
    using window.run_refines [where cfg = cfg and ord = ord and S = "(fmempty, fmempty)"]
    by (auto split: prod.split)
qed

section \<open>Windows whose timers come too late\<close>

text \<open>
  The context a timer looks at is the one of the call that opened the window. The consumer cancels the context
  of a call when the handler returns, so in the service every timer that fires later finds it done.
\<close>

definition late_timers :: "window_input list \<Rightarrow> bool" where
  "late_timers is \<longleftrightarrow> list_all (\<lambda>i. case i of WArrive now x \<Rightarrow> True | WTimer now done key \<Rightarrow> done | _ \<Rightarrow> False) is"

definition events_at :: "window_transform \<Rightarrow> string \<Rightarrow> event list" where
  "events_at w k = (case fmlookup (windows w) k of None \<Rightarrow> [] | Some st \<Rightarrow> WinEvents st)"

definition arrival :: "window_config \<Rightarrow> string \<Rightarrow> window_input \<Rightarrow> event option" where
  "arrival cfg k i =
     (case i of
        WArrive now (IEvent ev) \<Rightarrow> if GetField ev (WinKeyField cfg) = Some (VStr k) then Some ev else None
      | _ \<Rightarrow> None)"

lemma events_at_open: "events_at (open_window cfg now key w) k = events_at w k"
  by (auto simp: events_at_def open_window_def scheduleWindowTimeout_def Let_def split: option.split)

lemma open_window_there: "fmlookup (windows (open_window cfg now key w)) key \<noteq> None"
  by (auto simp: open_window_def scheduleWindowTimeout_def Let_def split: option.split)

lemma window_event_kept:
  assumes "sint (MaxEvents cfg) \<le> 0" and "window_event cfg now w ev = (w', out, r)"
  shows "out = [] \<and> events_at w' k = events_at w k @ (if GetField ev (WinKeyField cfg) = Some (VStr k) then [ev] else [])"
proof (cases "\<exists>key. GetField ev (WinKeyField cfg) = Some (VStr key)")
  case True
  then obtain key where key: "GetField ev (WinKeyField cfg) = Some (VStr key)" by blast
  let ?w = "open_window cfg now key w"
  obtain state where state: "fmlookup (windows ?w) key = Some state" using open_window_there by blast
  obtain m err where m: "updateAggregations (WinAggregations cfg) ev (WinAggregates state) = (m, err)" by fastforce
  have w': "out = [] \<and> w' = ?w\<lparr>windows := fmupd key (state\<lparr>WinEvents := WinEvents state @ [ev], WinAggregates := m\<rparr>) (windows ?w)\<rparr>"
    using assms key state m by (auto simp: window_event_def Let_def split: option.splits)
  then have "events_at w' k = (if k = key then events_at ?w key @ [ev] else events_at ?w k)"
    using state by (auto simp: events_at_def)
  with w' key show ?thesis by (simp add: events_at_open)
next
  case False
  with assms(2) show ?thesis by (auto simp: window_event_def split: option.splits gval.splits)
qed

lemma late_step_kept:
  assumes "sint (MaxEvents cfg) \<le> 0" and "late_timers [i]" and "window_step ord cfg w i = (w', out, r)"
  shows "out = [] \<and> events_at w' k = events_at w k @ (case arrival cfg k i of None \<Rightarrow> [] | Some ev \<Rightarrow> [ev])"
proof (cases i)
  case (WArrive now x)
  with assms(3) window_event_kept [OF assms(1), of now w _ w' out] show ?thesis
    by (cases x) (auto simp: arrival_def window_Execute_def split: prod.splits)
qed (use assms in \<open>auto simp: late_timers_def timer_fired_def arrival_def\<close>)

lemma late_run_kept:
  "sint (MaxEvents cfg) \<le> 0 \<Longrightarrow> late_timers is \<Longrightarrow> run_steps (window_step ord cfg) w is = (w', outs) \<Longrightarrow>
   (\<forall>(out, r) \<in> set outs. out = []) \<and> events_at w' k = events_at w k @ List.map_filter (arrival cfg k) is"
proof (induction "is" arbitrary: w outs)
  case (Cons i "is")
  obtain w1 out r where step: "window_step ord cfg w i = (w1, out, r)" by (metis prod.exhaust)
  obtain outs1 where rest: "run_steps (window_step ord cfg) w1 is = (w', outs1)" "outs = (out, r) # outs1"
    using Cons.prems(3) step by (auto split: prod.splits)
  have late: "late_timers [i]" "late_timers is" using Cons.prems(2) by (simp_all add: late_timers_def)
  from late_step_kept [OF Cons.prems(1) late(1) step, of k] Cons.IH [OF Cons.prems(1) late(2) rest(1)] rest(2)
  show ?case by (auto simp: List.map_filter_simps split: option.splits)
qed simp

section \<open>Properties\<close>

text \<open>C14: for a configuration whose aggregations have different result names (\<open>as\<close>), whatever events arrive, timers
  fire and forced emissions happen, the transform emits what the specification emits, which keeps the events
  of each open window and aggregates them when the window closes; its state is at every moment the state of the
  specification. Aggregations of one name share a running state, as in \<open>Agg_Count\<close>, and are outside of this.\<close>

theorem window_refines_batch:
  assumes "window_Configure um raw = Inr cfg" and "distinct (map AggAs (WinAggregations cfg))"
  shows "run_steps (window_step ord cfg) empty_windows inputs =
    (case run_steps (win_spec_step ord cfg) (fmempty, fmempty) inputs of (S, outs) \<Rightarrow> (conc_windows cfg S, outs))"
  by (rule window_runs [OF assms])

definition sample_window :: window_config where
  "sample_window = \<lparr>WinKeyField = ''k'', MaxEvents = 2, MaxDuration = 60, WinAggregations =
     [\<lparr>AggField = ''v'', AggFunction = ''max'', AggAs = ''most''\<rparr>]\<rparr>"

lemma sample_window_configured: "window_Configure (\<lambda>_. Inr sample_window) ''x'' = Inr sample_window"
  by code_simp

lemma sample_window_distinct: "distinct (map AggAs (WinAggregations sample_window))"
  by (simp add: sample_window_def)

theorem window_refines_batch_witness:
  "run_steps (window_step sorted_keys sample_window) empty_windows [WArrive 0 INil, WTimer 1 False ''a''] =
   (empty_windows, [([], Some (Inl (Errorf ''unexpected payload type'' []))), ([], None)])"
  using window_refines_batch [OF sample_window_configured sample_window_distinct,
      of sorted_keys "[WArrive 0 INil, WTimer 1 False ''a'']"]
  by (simp add: win_spec_emit_def conc_windows_def empty_windows_def)

text \<open>C29: for a configuration whose aggregations have different result names (\<open>as\<close>), in every state reached without
  \<open>Stop\<close>, which takes the timers away, every open window holds at least one event and fewer than the maximum
  (if one is configured), its aggregates are those of its events, and when a maximal age is configured exactly
  the open windows have a timer; timers never outlive their window.\<close>

theorem window_invariant:
  assumes "window_Configure um raw = Inr cfg" and "distinct (map AggAs (WinAggregations cfg))"
    and "WStop \<notin> set inputs" and "w = fst (run_steps (window_step ord cfg) empty_windows inputs)"
  shows "(\<forall>k st. fmlookup (windows w) k = Some st \<longrightarrow>
       WinEvents st \<noteq> [] \<and> (0 < sint (MaxEvents cfg) \<longrightarrow> int (length (WinEvents st)) < sint (MaxEvents cfg)) \<and>
       (\<forall>agg \<in> set (WinAggregations cfg).
          window_entry force (WinAggregates st) agg = win_spec_value force (WinEvents st) agg)) \<and>
    (if 0 < sint (MaxDuration cfg) then fmdom (entries w) = fmdom (windows w)
     else fmdom (entries w) |\<subseteq>| fmdom (windows w))"
proof -
  have ok: "win_config_ok cfg" using window_Configure_ok [OF assms(1)] assms(2) by (simp add: win_config_ok_def)
  define S where "S = fst (run_steps (win_spec_step ord cfg) (fmempty, fmempty) inputs)"
  have "win_spec_ok cfg True (fmempty, fmempty)" by (simp add: win_spec_ok_def)
  then have S: "win_spec_ok cfg True S"
    unfolding S_def
    by (rule run_steps_invariant [of "win_spec_ok cfg True" inputs _ "\<lambda>_. True", THEN conjunct1, rotated])
       (use win_spec_step_ok assms(3) in blast)
  have w: "w = conc_windows cfg S"
    using window_runs [OF assms(1,2)] assms(4) by (simp add: S_def split: prod.split)
  have d: "distinct (map AggAs (WinAggregations cfg))" using assms(2) .
  have entry: "window_entry force (WinAggregates (conc_win cfg v)) agg = win_spec_value force (WinEvents (conc_win cfg v)) agg"
    if "agg \<in> set (WinAggregations cfg)" for agg v
    using that ok by (simp add: window_entry_batch lookup_opt_agg_map [OF d] conc_win_def win_config_ok_def)
  have open_ok: "win_open_ok cfg v" if "fmlookup (fst S) k = Some v" for k v
    using S that by (auto simp: win_spec_ok_def)
  show ?thesis
  proof (intro conjI allI impI)
    fix k st
    assume "fmlookup (windows w) k = Some st"
    then obtain v where v: "fmlookup (fst S) k = Some v" "st = conc_win cfg v"
      by (auto simp: w conc_windows_def)
    have "WinEvents st = fst v" by (simp add: v conc_win_def)
    with open_ok [OF v(1)] show "WinEvents st \<noteq> []"
      "0 < sint (MaxEvents cfg) \<Longrightarrow> int (length (WinEvents st)) < sint (MaxEvents cfg)"
      by (simp_all add: win_open_ok_def)
    show "\<forall>agg \<in> set (WinAggregations cfg).
        window_entry force (WinAggregates st) agg = win_spec_value force (WinEvents st) agg"
      using entry v(2) by blast
  next
    show "if 0 < sint (MaxDuration cfg) then fmdom (entries w) = fmdom (windows w)
        else fmdom (entries w) |\<subseteq>| fmdom (windows w)"
      using S by (simp add: w conc_windows_def win_spec_ok_def)
  qed
qed

theorem window_invariant_witness:
  "\<exists>w. w = fst (run_steps (window_step sorted_keys sample_window) empty_windows
      [WArrive 0 (IEvent (sample_event (fmupd ''k'' (VStr ''a'') fmempty)))]) \<and>
    fmdom (entries w) = fmdom (windows w)"
proof -
  have "WStop \<notin> set [WArrive 0 (IEvent (sample_event (fmupd ''k'' (VStr ''a'') fmempty)))]" by simp
  moreover have "0 < sint (MaxDuration sample_window)" by (simp add: sample_window_def)
  ultimately show ?thesis
    using window_invariant [OF sample_window_configured sample_window_distinct _ refl,
        of "[WArrive 0 (IEvent (sample_event (fmupd ''k'' (VStr ''a'') fmempty)))]" sorted_keys]
    by simp
qed

text \<open>C21: a transform that limits its windows by their age only, and whose timers find the context of the call that
  opened the window done, never emits: it answers nothing and keeps every event with a key for ever. So it
  goes in the service, where the context of a call ends when the handler returns.\<close>

theorem late_windows_never_close:
  assumes "sint (MaxEvents cfg) \<le> 0" and "late_timers inputs"
    and "run_steps (window_step ord cfg) empty_windows inputs = (w, outs)"
  shows "(\<forall>(out, r) \<in> set outs. out = []) \<and> events_at w k = List.map_filter (arrival cfg k) inputs"
  using late_run_kept [OF assms, of k] by (simp add: events_at_def empty_windows_def)

theorem late_windows_never_close_witness:
  "events_at (fst (run_steps (window_step sorted_keys (sample_window\<lparr>MaxEvents := 0\<rparr>)) empty_windows
     [WArrive 0 (IEvent (sample_event (fmupd ''k'' (VStr ''a'') fmempty))), WTimer 60 True ''a'',
      WArrive 70 (IEvent (sample_event (fmupd ''k'' (VStr ''a'') fmempty)))])) ''a'' =
   [sample_event (fmupd ''k'' (VStr ''a'') fmempty), sample_event (fmupd ''k'' (VStr ''a'') fmempty)]"
proof -
  let ?ev = "sample_event (fmupd ''k'' (VStr ''a'') fmempty)"
  let ?is = "[WArrive 0 (IEvent ?ev), WTimer 60 True ''a'', WArrive 70 (IEvent ?ev)]"
  have "GetField ?ev ''k'' = Some (VStr ''a'')" by (simp add: GetField_top sample_event_def)
  then have "List.map_filter (arrival (sample_window\<lparr>MaxEvents := 0\<rparr>) ''a'') ?is = [?ev, ?ev]"
    by (simp add: arrival_def sample_window_def List.map_filter_simps)
  moreover have "late_timers ?is" by (simp add: late_timers_def)
  moreover have "sint (MaxEvents (sample_window\<lparr>MaxEvents := 0\<rparr>)) \<le> 0" by simp
  ultimately show ?thesis
    using late_windows_never_close [OF _ _ prod.collapse [symmetric]] by metis
qed

end
