(* ===== verification/Cache.thy ===== *)
theory Cache
  imports Go_Value Runs "HOL-Library.AList"
begin

text \<open>
  \<open>internal/enrichment/cache.go\<close>: the LRU cache with expiry. The code keeps a map and a list of keys;
  the specification is one list of entries, most recently used first, which the code refines.
\<close>

section \<open>State and operations\<close>

record cache_entry =
  Value :: gval
  Expiry :: gtime

text \<open>
  Every key has one element in the list, which its entry points to: moving or removing the element is
  moving or removing the key.
\<close>

record lru_cache =
  maxSize :: "64 word"
  data :: "(string, cache_entry) fmap"
  lruList :: "string list"
  ttl :: "64 word"

definition minutes :: "nat \<Rightarrow> 64 word" where
  "minutes n = of_nat n * (60 * 10 ^ 9)"

definition NewLRUCache :: "64 word \<Rightarrow> 64 word \<Rightarrow> lru_cache" where
  "NewLRUCache cap t =
     \<lparr>maxSize = (if sint cap \<le> 0 then 1000 else cap), data = fmempty, lruList = [],
      ttl = (if sint t \<le> 0 then minutes 5 else t)\<rparr>"

definition move_to_front :: "string \<Rightarrow> lru_cache \<Rightarrow> lru_cache" where
  "move_to_front k c = c\<lparr>lruList := (if k \<in> set (lruList c) then k # remove1 k (lruList c) else lruList c)\<rparr>"

definition removeEntry :: "string \<Rightarrow> lru_cache \<Rightarrow> lru_cache" where
  "removeEntry k c = c\<lparr>data := fmdrop k (data c), lruList := remove1 k (lruList c)\<rparr>"

definition cache_get :: "gtime \<Rightarrow> string \<Rightarrow> lru_cache \<Rightarrow> lru_cache \<times> gval" where
  "cache_get now k c =
     (case fmlookup (data c) k of
        None \<Rightarrow> (c, VNil)
      | Some entry \<Rightarrow>
          (if Expiry entry < now then (removeEntry k c, VNil) else (move_to_front k c, Value entry)))"

definition evictLRU :: "lru_cache \<Rightarrow> lru_cache" where
  "evictLRU c = (if lruList c = [] then c else removeEntry (last (lruList c)) c)"

definition SetWithTTL :: "gtime \<Rightarrow> string \<Rightarrow> gval \<Rightarrow> 64 word \<Rightarrow> lru_cache \<Rightarrow> lru_cache" where
  "SetWithTTL now k v t c =
     (let entry = \<lparr>Value = v, Expiry = now + sint t\<rparr>
      in case fmlookup (data c) k of
           Some _ \<Rightarrow> move_to_front k (c\<lparr>data := fmupd k entry (data c)\<rparr>)
         | None \<Rightarrow>
             let c = (if sint (maxSize c) \<le> int (fcard (fmdom (data c))) then evictLRU c else c)
             in c\<lparr>data := fmupd k entry (data c), lruList := k # lruList c\<rparr>)"

definition cache_set :: "gtime \<Rightarrow> string \<Rightarrow> gval \<Rightarrow> lru_cache \<Rightarrow> lru_cache" where
  "cache_set now k v c = SetWithTTL now k v (ttl c) c"

definition cache_delete :: "string \<Rightarrow> lru_cache \<Rightarrow> lru_cache" where
  "cache_delete k c = (case fmlookup (data c) k of None \<Rightarrow> c | Some _ \<Rightarrow> removeEntry k c)"

definition cache_clear :: "lru_cache \<Rightarrow> lru_cache" where
  "cache_clear c = c\<lparr>data := fmempty, lruList := []\<rparr>"

definition cache_size :: "lru_cache \<Rightarrow> nat" where
  "cache_size c = fcard (fmdom (data c))"

section \<open>What its clients rely on\<close>

text \<open>
  The contract of a store of values that expire: an entry is there because it was put and not because of
  a lookup, a deletion or another key, and a lookup answers an entry that has not expired, or \<open>VNil\<close>. So
  what holds of every value that is put holds of every answer.
\<close>

locale expiring_store =
  fixes entry :: "'c \<Rightarrow> string \<Rightarrow> cache_entry option"
    and get :: "gtime \<Rightarrow> string \<Rightarrow> 'c \<Rightarrow> 'c \<times> gval"
    and put :: "gtime \<Rightarrow> string \<Rightarrow> gval \<Rightarrow> 64 word \<Rightarrow> 'c \<Rightarrow> 'c"
    and del :: "string \<Rightarrow> 'c \<Rightarrow> 'c" and clear :: "'c \<Rightarrow> 'c"
  assumes get_keeps: "entry (fst (get now k c)) j = Some e \<Longrightarrow> entry c j = Some e"
    and get_hit: "snd (get now k c) \<noteq> VNil \<Longrightarrow> \<exists>e. entry c k = Some e \<and> Value e = snd (get now k c) \<and> now \<le> Expiry e"
    and put_entry: "entry (put now k v t c) j = Some e \<Longrightarrow>
      j = k \<and> e = \<lparr>Value = v, Expiry = now + sint t\<rparr> \<or> j \<noteq> k \<and> entry c j = Some e"
    and del_entry: "entry (del k c) j = Some e \<Longrightarrow> j \<noteq> k \<and> entry c j = Some e"
    and clear_entry: "entry (clear c) j = None"
begin

lemma all_get:
  assumes "\<And>j e. entry c j = Some e \<Longrightarrow> P j e"
  shows "entry (fst (get now k c)) j = Some e \<Longrightarrow> P j e"
    and "snd (get now k c) \<noteq> VNil \<Longrightarrow> \<exists>e. P k e \<and> Value e = snd (get now k c) \<and> now \<le> Expiry e"
  using assms get_keeps get_hit by blast+

lemma all_put:
  assumes "\<And>j e. entry c j = Some e \<Longrightarrow> P j e" and "P k \<lparr>Value = v, Expiry = now + sint t\<rparr>"
  shows "entry (put now k v t c) j = Some e \<Longrightarrow> P j e"
  using assms put_entry by blast

lemma all_del:
  assumes "\<And>j e. entry c j = Some e \<Longrightarrow> j \<noteq> k \<Longrightarrow> P j e"
  shows "entry (del k c) j = Some e \<Longrightarrow> P j e"
  using assms del_entry by blast

lemma all_clear: "entry (clear c) j = Some e \<Longrightarrow> P j e"
  by (simp add: clear_entry)

lemma get_del: "snd (get now k (del k c)) = VNil"
  using get_hit [of now k "del k c"] del_entry by blast

lemma get_clear: "snd (get now k (clear c)) = VNil"
  using get_hit [of now k "clear c"] clear_entry by force

end

interpretation lru_store: expiring_store "\<lambda>c. fmlookup (data c)" cache_get SetWithTTL cache_delete cache_clear
proof
  show "fmlookup (data (SetWithTTL now k v t c)) j = Some e \<Longrightarrow>
      j = k \<and> e = \<lparr>Value = v, Expiry = now + sint t\<rparr> \<or> j \<noteq> k \<and> fmlookup (data c) j = Some e" for now k v t c j e
    by (auto simp: SetWithTTL_def Let_def evictLRU_def removeEntry_def move_to_front_def split: option.splits if_splits)
qed (auto simp: cache_get_def cache_delete_def cache_clear_def removeEntry_def move_to_front_def split: option.splits if_splits)

lemma cache_ttl [simp]:
  "ttl (fst (cache_get now k c)) = ttl c" "ttl (cache_delete k c) = ttl c" "ttl (cache_set now k v c) = ttl c"
  "ttl (SetWithTTL now k v t c) = ttl c" "ttl (cache_clear c) = ttl c"
  by (auto simp: cache_get_def cache_delete_def cache_set_def SetWithTTL_def Let_def evictLRU_def removeEntry_def
      move_to_front_def cache_clear_def split: option.splits if_splits)

section \<open>The specification\<close>

type_synonym entries = "(string \<times> cache_entry) list"

definition spec_get :: "gtime \<Rightarrow> string \<Rightarrow> entries \<Rightarrow> entries \<times> gval" where
  "spec_get now k xs =
     (case map_of xs k of
        None \<Rightarrow> (xs, VNil)
      | Some e \<Rightarrow> if Expiry e < now then (AList.delete k xs, VNil) else ((k, e) # AList.delete k xs, Value e))"

definition spec_set :: "nat \<Rightarrow> gtime \<Rightarrow> string \<Rightarrow> gval \<Rightarrow> int \<Rightarrow> entries \<Rightarrow> entries" where
  "spec_set cap now k v t xs =
     (k, \<lparr>Value = v, Expiry = now + t\<rparr>) #
       (if k \<in> fst ` set xs then AList.delete k xs else if cap \<le> length xs then butlast xs else xs)"

text \<open>The operations of the cache as inputs of a run; only \<open>Get\<close> answers.\<close>

datatype cache_op = CGet gtime string | CSet gtime string gval "64 word" | CDelete string | CClear

fun cache_step :: "lru_cache \<Rightarrow> cache_op \<Rightarrow> lru_cache \<times> gval" where
  "cache_step c (CGet now k) = cache_get now k c"
| "cache_step c (CSet now k v t) = (SetWithTTL now k v t c, VNil)"
| "cache_step c (CDelete k) = (cache_delete k c, VNil)"
| "cache_step c CClear = (cache_clear c, VNil)"

fun cache_spec_step :: "nat \<Rightarrow> entries \<Rightarrow> cache_op \<Rightarrow> entries \<times> gval" where
  "cache_spec_step cap xs (CGet now k) = spec_get now k xs"
| "cache_spec_step cap xs (CSet now k v t) = (spec_set cap now k v (sint t) xs, VNil)"
| "cache_spec_step cap xs (CDelete k) = (AList.delete k xs, VNil)"
| "cache_spec_step cap xs CClear = ([], VNil)"

definition entries_ok :: "nat \<Rightarrow> entries \<Rightarrow> bool" where
  "entries_ok cap xs \<longleftrightarrow> distinct (map fst xs) \<and> length xs \<le> cap"

definition cache_of :: "64 word \<Rightarrow> 64 word \<Rightarrow> entries \<Rightarrow> lru_cache" where
  "cache_of cap t xs = \<lparr>maxSize = cap, data = fmap_of_list xs, lruList = map fst xs, ttl = t\<rparr>"

lemma cache_of_simps [simp]:
  "data (cache_of cap t xs) = fmap_of_list xs" "lruList (cache_of cap t xs) = map fst xs"
  "maxSize (cache_of cap t xs) = cap" "ttl (cache_of cap t xs) = t"
  by (simp_all add: cache_of_def)

section \<open>Refinement\<close>

lemma keys_delete: "map fst (AList.delete k xs) = filter (\<lambda>j. j \<noteq> k) (map fst xs)"
  by (induction xs) auto

lemma remove1_keys: "distinct (map fst xs) \<Longrightarrow> remove1 k (map fst xs) = map fst (AList.delete k xs)"
proof -
  have "(\<noteq>) k = (\<lambda>j. j \<noteq> k)" by auto
  then show "distinct (map fst xs) \<Longrightarrow> ?thesis"
    by (simp add: distinct_remove1_removeAll keys_delete removeAll_filter_not_eq)
qed

lemma fmap_of_delete: "fmap_of_list (AList.delete k xs) = fmdrop k (fmap_of_list xs)"
  by (rule fmap_ext) (auto simp: fmlookup_of_list delete_conv')

lemma map_of_keys: "map_of xs k = Some e \<Longrightarrow> k \<in> fst ` set xs"
  by (force dest: map_of_SomeD)

lemma delete_ok: "entries_ok cap xs \<Longrightarrow> entries_ok cap (AList.delete k xs)"
proof -
  assume ok: "entries_ok cap xs"
  have "length (AList.delete k xs) \<le> length xs" by (rule length_delete_le)
  with ok show ?thesis by (auto simp: entries_ok_def keys_delete)
qed

lemma delete_length: "k \<in> fst ` set xs \<Longrightarrow> length (AList.delete k xs) < length xs"
proof (induction xs)
  case (Cons x xs)
  then show ?case using length_delete_le [of k xs] by (cases "fst x = k") auto
qed simp

lemma delete_keys_in [simp]: "j \<in> fst ` set (AList.delete k xs) \<longleftrightarrow> j \<noteq> k \<and> j \<in> fst ` set xs"
  by (induction xs) auto

lemma front_ok:
  assumes "entries_ok cap xs" and "k \<in> fst ` set xs"
  shows "entries_ok cap ((k, e) # AList.delete k xs)"
  using delete_ok [OF assms(1)] delete_length [OF assms(2)] assms(1) by (auto simp: entries_ok_def)

lemma move_front_refines:
  assumes "entries_ok n xs" and "k \<in> fst ` set xs"
  shows "move_to_front k ((cache_of cap t xs)\<lparr>data := fmupd k e (fmap_of_list xs)\<rparr>) =
    cache_of cap t ((k, e) # AList.delete k xs)"
proof -
  have "fmupd k e (fmap_of_list xs) = fmap_of_list ((k, e) # AList.delete k xs)"
    by (rule fmap_ext) (auto simp: fmlookup_of_list delete_conv')
  with assms show ?thesis by (simp add: move_to_front_def cache_of_def remove1_keys entries_ok_def)
qed

lemma remove_refines:
  "entries_ok n xs \<Longrightarrow> removeEntry k (cache_of cap t xs) = cache_of cap t (AList.delete k xs)"
  by (simp add: removeEntry_def cache_of_def remove1_keys entries_ok_def fmap_of_delete)

lemma get_refines:
  assumes "entries_ok n xs" and "spec_get now k xs = (ys, v)"
  shows "cache_get now k (cache_of cap t xs) = (cache_of cap t ys, v) \<and> entries_ok n ys"
proof (cases "map_of xs k")
  case None
  with assms show ?thesis by (simp add: cache_get_def spec_get_def cache_of_def fmlookup_of_list)
next
  case (Some e)
  then have k: "k \<in> fst ` set xs" and same: "fmupd k e (fmap_of_list xs) = fmap_of_list xs"
    using map_of_keys by (auto intro!: fmap_ext simp: fmlookup_of_list)
  have "move_to_front k (cache_of cap t xs) = cache_of cap t ((k, e) # AList.delete k xs)"
    using move_front_refines [OF assms(1) k, where cap = cap and t = t and e = e] same by (simp add: cache_of_def)
  with assms Some front_ok [OF assms(1) k, of e] show ?thesis
    by (cases "Expiry e < now") (auto simp: cache_get_def spec_get_def remove_refines delete_ok fmlookup_of_list)
qed

lemma keys_card: "distinct (map fst xs) \<Longrightarrow> fcard (fmdom (fmap_of_list xs)) = length xs"
  using distinct_card [of "map fst xs"] by (simp add: fcard.rep_eq fset_of_list.rep_eq)

lemma delete_snoc: "AList.delete k (xs @ ys) = AList.delete k xs @ AList.delete k ys"
  by (induction xs) auto

lemma evict_last_refines:
  assumes "entries_ok n xs"
  shows "evictLRU (cache_of cap t xs) = cache_of cap t (butlast xs)"
proof (cases xs rule: rev_cases)
  case (snoc ys y)
  have "AList.delete (fst y) (ys @ [y]) = ys"
    using assms snoc by (auto simp: entries_ok_def delete_snoc intro!: delete_idem)
  with snoc remove_refines [OF assms, of "fst y" cap t] show ?thesis
    by (simp add: evictLRU_def)
qed (simp add: evictLRU_def cache_of_def)

lemma set_refines:
  assumes ok: "entries_ok (nat (sint cap)) xs" and pos: "0 < sint cap"
  shows "SetWithTTL now k v d (cache_of cap t xs) = cache_of cap t (spec_set (nat (sint cap)) now k v (sint d) xs) \<and>
    entries_ok (nat (sint cap)) (spec_set (nat (sint cap)) now k v (sint d) xs)"
proof -
  let ?n = "nat (sint cap)" and ?e = "\<lparr>Value = v, Expiry = now + sint d\<rparr>"
  have d: "distinct (map fst xs)" and len: "length xs \<le> ?n" using ok by (auto simp: entries_ok_def)
  show ?thesis
  proof (cases "k \<in> fst ` set xs")
    case True
    then obtain e where "map_of xs k = Some e" by (metis map_of_eq_None_iff not_None_eq)
    with True move_front_refines [OF ok True, where cap = cap and t = t and e = ?e] front_ok [OF ok True]
    show ?thesis by (simp add: SetWithTTL_def spec_set_def fmlookup_of_list)
  next
    case False
    define ys where "ys = (if ?n \<le> length xs then butlast xs else xs)"
    have "set ys \<subseteq> set xs" by (auto simp: ys_def in_set_butlastD)
    with False have k: "k \<notin> fst ` set ys" by blast
    have ys: "distinct (map fst ys)" "length ys < ?n"
      using d len pos by (auto simp: ys_def map_butlast distinct_butlast)
    have m: "fmlookup (fmap_of_list xs) k = None" using False by (simp add: fmlookup_of_list map_of_eq_None_iff)
    have full: "sint cap \<le> int (length xs) \<longleftrightarrow> ?n \<le> length xs" using pos by linarith
    have ev: "(if sint cap \<le> int (length xs) then evictLRU (cache_of cap t xs) else cache_of cap t xs) = cache_of cap t ys"
      unfolding full ys_def by (simp add: evict_last_refines [OF ok])
    have "SetWithTTL now k v d (cache_of cap t xs) = (cache_of cap t ys)
        \<lparr>data := fmupd k ?e (data (cache_of cap t ys)), lruList := k # lruList (cache_of cap t ys)\<rparr>"
      using ev m keys_card [OF d] by (simp add: SetWithTTL_def Let_def)
    also have "\<dots> = cache_of cap t ((k, ?e) # ys)" by (simp add: cache_of_def)
    finally show ?thesis using False k ys by (simp add: spec_set_def entries_ok_def flip: ys_def)
  qed
qed

lemma delete_refines: "entries_ok n xs \<Longrightarrow> cache_delete k (cache_of cap t xs) = cache_of cap t (AList.delete k xs)"
  using remove_refines [of n xs k cap t]
  by (auto simp: cache_delete_def fmlookup_of_list map_of_eq_None_iff delete_idem split: option.split)

interpretation lru: simulation "cache_of cap t" "\<lambda>xs. 0 < sint cap \<and> entries_ok (nat (sint cap)) xs"
    "cache_spec_step (nat (sint cap))" cache_step for cap t
proof
  fix xs i ys out
  assume inv: "0 < sint cap \<and> entries_ok (nat (sint cap)) xs" and s: "cache_spec_step (nat (sint cap)) xs i = (ys, out)"
  show "cache_step (cache_of cap t xs) i = (cache_of cap t ys, out) \<and> 0 < sint cap \<and> entries_ok (nat (sint cap)) ys"
  proof (cases i)
    case (CGet now k)
    with inv s get_refines [of "nat (sint cap)" xs now k ys out cap t] show ?thesis by simp
  next
    case (CSet now k v d)
    with inv s set_refines [of cap xs now k v d t] show ?thesis by auto
  next
    case (CDelete k)
    with inv s delete_refines [of "nat (sint cap)" xs k cap t] delete_ok show ?thesis by auto
  next
    case CClear
    with inv s show ?thesis by (auto simp: cache_clear_def cache_of_def entries_ok_def)
  qed
qed

lemma NewLRUCache_of:
  "\<exists>cap' t'. NewLRUCache cap t = cache_of cap' t' [] \<and> 0 < sint cap' \<and> 0 < sint t' \<and>
     (0 < sint cap \<longrightarrow> cap' = cap) \<and> (0 < sint t \<longrightarrow> t' = t)"
proof -
  have "0 < sint (1000 :: 64 word)" "0 < sint (minutes 5)" by (simp, code_simp)
  then show ?thesis by (auto simp: NewLRUCache_def cache_of_def)
qed

text \<open>What a client that owns a cache keeps by using its operations only\<close>

definition cache_ok :: "lru_cache \<Rightarrow> bool" where
  "cache_ok c \<longleftrightarrow> distinct (lruList c) \<and> set (lruList c) = fset (fmdom (data c)) \<and>
     0 < sint (maxSize c) \<and> int (cache_size c) \<le> sint (maxSize c)"

lemma cache_ok_of: "0 < sint cap \<Longrightarrow> entries_ok (nat (sint cap)) xs \<Longrightarrow> cache_ok (cache_of cap t xs)"
  using keys_card [of xs] by (auto simp: cache_ok_def cache_size_def entries_ok_def fset_of_list.rep_eq)

lemma cache_ok_entries:
  assumes "cache_ok c"
  shows "\<exists>xs. c = cache_of (maxSize c) (ttl c) xs \<and> entries_ok (nat (sint (maxSize c))) xs"
proof -
  define xs where "xs = map (\<lambda>k. (k, the (fmlookup (data c) k))) (lruList c)"
  have keys: "map fst xs = lruList c" by (simp add: xs_def o_def)
  have data: "data c = fmap_of_list xs"
  proof (rule fmap_ext)
    show "fmlookup (data c) k = fmlookup (fmap_of_list xs) k" for k
      using assms by (cases "fmlookup (data c) k")
        (auto simp: xs_def fmlookup_of_list map_of_map_restrict restrict_map_def cache_ok_def fmlookup_dom_iff)
  qed
  have "distinct (map fst xs)" using assms by (simp add: keys cache_ok_def)
  with assms keys_card [of xs] have "distinct (map fst xs) \<and> int (length xs) \<le> sint (maxSize c)"
    by (simp add: cache_ok_def cache_size_def data)
  then have "entries_ok (nat (sint (maxSize c))) xs" unfolding entries_ok_def by linarith
  with data keys show ?thesis by (intro exI [of _ xs]) (simp add: cache_of_def)
qed

definition cache_steps :: "lru_cache \<Rightarrow> lru_cache \<Rightarrow> bool" where
  "cache_steps a b \<longleftrightarrow> (\<exists>ops. b = fst (run_steps cache_step a ops))"

lemma cache_steps_refl: "cache_steps c c"
  unfolding cache_steps_def by (intro exI [of _ "[]"]) simp

lemma cache_steps_one: "cache_step c i = (c', v) \<Longrightarrow> cache_steps c c'"
  unfolding cache_steps_def by (intro exI [of _ "[i]"]) simp

lemma cache_steps_trans: "cache_steps a b \<Longrightarrow> cache_steps b c \<Longrightarrow> cache_steps a c"
  unfolding cache_steps_def by (metis (no_types, lifting) fst_conv run_steps_append split_beta)

lemma cache_steps_op:
  "cache_steps c (fst (cache_get now k c))" "cache_steps c (SetWithTTL now k v t c)"
  "cache_steps c (cache_delete k c)" "cache_steps c (cache_clear c)"
  using cache_steps_one [of c "CGet now k"] cache_steps_one [of c "CSet now k v t"] cache_steps_one [of c "CDelete k"]
    cache_steps_one [of c CClear] by (auto intro: prod.collapse [symmetric])

lemma cache_steps_ok:
  assumes "cache_steps a b" and "cache_ok a"
  shows "cache_ok b \<and> maxSize b = maxSize a \<and> ttl b = ttl a"
proof -
  obtain xs where a: "a = cache_of (maxSize a) (ttl a) xs" "entries_ok (nat (sint (maxSize a))) xs"
    using cache_ok_entries [OF assms(2)] by blast
  have pos: "0 < sint (maxSize a)" using assms(2) by (simp add: cache_ok_def)
  obtain ops where "b = fst (run_steps cache_step a ops)" using assms(1) by (auto simp: cache_steps_def)
  with lru.run_state [OF conjI [OF pos a(2)], of "ttl a" ops] a(1) obtain ys
    where "b = cache_of (maxSize a) (ttl a) ys" "entries_ok (nat (sint (maxSize a))) ys" by auto
  with cache_ok_of [OF pos] show ?thesis by simp
qed

lemma NewLRUCache_ok: "cache_ok (NewLRUCache cap t)"
  using NewLRUCache_of [of cap t] cache_ok_of [of _ "[]"] by (auto simp: entries_ok_def)

section \<open>Retention\<close>

text \<open>The keys an operation puts in front of others\<close>

fun touched :: "cache_op \<Rightarrow> string set" where
  "touched (CGet now k) = {k}"
| "touched (CSet now k v t) = {k}"
| "touched _ = {}"

fun op_time :: "cache_op \<Rightarrow> gtime option" where
  "op_time (CGet now k) = Some now"
| "op_time (CSet now k v t) = Some now"
| "op_time _ = None"

text \<open>The entry of \<open>k\<close> is there, and only keys of \<open>K\<close> are before it.\<close>

definition kept :: "string \<Rightarrow> cache_entry \<Rightarrow> string set \<Rightarrow> entries \<Rightarrow> bool" where
  "kept k e K xs \<longleftrightarrow> (\<exists>ys zs. xs = ys @ (k, e) # zs \<and> fst ` set ys \<subseteq> K \<and> k \<notin> fst ` set ys)"

lemma kept_lookup: "kept k e K xs \<Longrightarrow> map_of xs k = Some e"
proof -
  assume "kept k e K xs"
  then obtain ys zs where x: "xs = ys @ (k, e) # zs" and "k \<notin> fst ` set ys" by (auto simp: kept_def)
  then have "map_of ys k = None" by (simp add: map_of_eq_None_iff)
  with x show ?thesis by (simp add: map_add_def)
qed

lemma kept_delete:
  assumes "kept k e K xs" and "j \<noteq> k"
  shows "kept k e K (AList.delete j xs)"
proof -
  obtain ys zs where x: "xs = ys @ (k, e) # zs" "fst ` set ys \<subseteq> K" "k \<notin> fst ` set ys"
    using assms(1) by (auto simp: kept_def)
  have "AList.delete j xs = AList.delete j ys @ (k, e) # AList.delete j zs"
    using x(1) assms(2) by (simp add: delete_snoc)
  moreover have "fst ` set (AList.delete j ys) \<subseteq> K" "k \<notin> fst ` set (AList.delete j ys)"
    using x(2,3) delete_keys_in [of _ j ys] by blast+
  ultimately show ?thesis unfolding kept_def by blast
qed

lemma kept_front: 
  assumes "kept k e K xs" and "j \<noteq> k" and "j \<in> K"
  shows "kept k e K ((j, x) # xs)"
proof -
  obtain ys zs where "xs = ys @ (k, e) # zs" "fst ` set ys \<subseteq> K" "k \<notin> fst ` set ys"
    using assms(1) by (auto simp: kept_def)
  with assms(2,3) show ?thesis unfolding kept_def
    by (intro exI [of _ "(j, x) # ys"] exI [of _ zs]) simp
qed

lemma kept_first: "kept k e K ((k, e) # xs)"
  unfolding kept_def by (intro exI [of _ "[]"] exI [of _ xs]) simp

lemma kept_butlast:
  assumes "kept k e K xs" and "entries_ok n xs" and "n \<le> length xs" and "finite K" and "card K < n"
    and "j \<in> K" and "j \<notin> fst ` set xs"
  shows "kept k e K (butlast xs)"
proof -
  obtain ys zs where x: "xs = ys @ (k, e) # zs" and K: "fst ` set ys \<subseteq> K" and k: "k \<notin> fst ` set ys"
    using assms(1) by (auto simp: kept_def)
  have "length ys = card (fst ` set ys)"
    using assms(2) x distinct_card [of "map fst ys"] by (simp add: entries_ok_def)
  also have "\<dots> \<le> card (K - {j})" using K assms(4,7) x by (intro card_mono) auto
  also have "\<dots> < n - 1"
  proof -
    have "0 < card K" using assms(4,6) by (auto simp: card_gt_0_iff)
    with assms(4-6) show ?thesis by simp
  qed
  finally have "zs \<noteq> []" using assms(3) x by auto
  then show ?thesis using x K k unfolding kept_def
    by (intro exI [of _ ys] exI [of _ "butlast zs"]) (simp add: butlast_append)
qed

lemma kept_step:
  assumes "kept k e K xs" and "entries_ok n xs" and "finite K" and "card K < n"
    and "touched i \<subseteq> insert k K" and "i \<noteq> CDelete k" and "i \<noteq> CClear" and "\<forall>v t now. i \<noteq> CSet now k v t"
    and "\<forall>now. i = CGet now k \<longrightarrow> now \<le> Expiry e" and "cache_spec_step n xs i = (ys, out)"
  shows "kept k e K ys \<and> (\<forall>now. i = CGet now k \<longrightarrow> out = Value e)"
proof (cases i)
  case (CGet now j)
  show ?thesis
  proof (cases "j = k")
    case True
    with CGet assms(9,10) kept_lookup [OF assms(1)] kept_first show ?thesis by (auto simp: spec_get_def)
  next
    case False
    with assms(5) CGet have "j \<in> K" by simp
    with False CGet assms(1,10) kept_delete [OF assms(1) False] kept_front [OF kept_delete [OF assms(1) False] False]
    show ?thesis by (auto simp: spec_get_def split: option.splits if_splits)
  qed
next
  case (CSet now j v t)
  with assms(5,8) have j: "j \<noteq> k" "j \<in> K" by auto
  have "kept k e K (if j \<in> fst ` set xs then AList.delete j xs else if n \<le> length xs then butlast xs else xs)"
    using kept_delete [OF assms(1) j(1)] kept_butlast [OF assms(1,2) _ assms(3,4) j(2)] assms(1) by simp
  from kept_front [OF this j] CSet assms(10) show ?thesis by (auto simp: spec_set_def)
next
  case (CDelete j)
  with assms kept_delete show ?thesis by auto
qed (use assms in simp)

lemma kept_run:
  assumes "kept k e K xs" and "entries_ok n xs" and "finite K" and "card K < n"
    and "\<forall>i \<in> set ops. touched i \<subseteq> insert k K \<and> i \<noteq> CDelete k \<and> i \<noteq> CClear \<and> (\<forall>v t now. i \<noteq> CSet now k v t) \<and>
      (\<forall>now. i = CGet now k \<longrightarrow> now \<le> Expiry e)"
    and "\<And>xs i ys out. entries_ok n xs \<Longrightarrow> cache_spec_step n xs i = (ys, out) \<Longrightarrow> entries_ok n ys"
  shows "kept k e K (fst (run_steps (cache_spec_step n) xs ops))"
proof -
  have "kept k e K ys \<and> entries_ok n ys" if "kept k e K zs \<and> entries_ok n zs" "i \<in> set ops"
    "cache_spec_step n zs i = (ys, out)" for zs i ys out
    using kept_step [of k e K zs n i ys out] assms(3-6) that by blast
  then show ?thesis
    using run_steps_invariant [of "\<lambda>xs. kept k e K xs \<and> entries_ok n xs" ops "cache_spec_step n" "\<lambda>_. True" xs]
      assms(1,2) by blast
qed

section \<open>Properties\<close>

text \<open>C10: after any sequence of operations on a new cache, the list holds every key of the map once, there
  are at most as many entries as configured, and the answers were those of the list of entries with
  the most recently used first, from which the last one is evicted.\<close>

theorem cache_invariant:
  assumes "run_steps cache_step (NewLRUCache cap t) ops = (c, outs)"
  shows "distinct (lruList c) \<and> set (lruList c) = fset (fmdom (data c)) \<and>
    0 < sint (maxSize c) \<and> int (cache_size c) \<le> sint (maxSize c) \<and>
    outs = snd (run_steps (cache_spec_step (nat (sint (maxSize c)))) [] ops)"
proof -
  obtain cap' t' where new: "NewLRUCache cap t = cache_of cap' t' []" and pos: "0 < sint cap'"
    using NewLRUCache_of by blast
  have "0 < sint cap' \<and> entries_ok (nat (sint cap')) []" using pos by (simp add: entries_ok_def)
  from lru.run_state [OF this, of t' ops] lru.run_outputs [OF this, of t' ops] new assms obtain xs where
    ok: "entries_ok (nat (sint cap')) xs" and c: "c = cache_of cap' t' xs"
    and out: "outs = snd (run_steps (cache_spec_step (nat (sint cap'))) [] ops)" by auto
  have "cache_size c = length xs" using ok keys_card [of xs] by (simp add: c cache_size_def entries_ok_def)
  moreover have "int (length xs) \<le> sint cap'" using ok pos by (simp add: entries_ok_def) linarith
  ultimately show ?thesis using ok out pos
    by (simp add: c entries_ok_def fset_of_list.rep_eq)
qed

theorem cache_invariant_witness:
  "\<exists>c. fst (run_steps cache_step (NewLRUCache 1 5) [CSet 0 ''a'' VNil 5, CSet 0 ''b'' VNil 5]) = c \<and>
     int (cache_size c) \<le> 1"
proof -
  have "maxSize (fst (run_steps cache_step (NewLRUCache 1 5) [CSet 0 ''a'' VNil 5, CSet 0 ''b'' VNil 5])) = 1"
    by code_simp
  with cache_invariant [of 1 5 "[CSet 0 ''a'' VNil 5, CSet 0 ''b'' VNil 5]"
      "fst (run_steps cache_step (NewLRUCache 1 5) [CSet 0 ''a'' VNil 5, CSet 0 ''b'' VNil 5])"
      "snd (run_steps cache_step (NewLRUCache 1 5) [CSet 0 ''a'' VNil 5, CSet 0 ''b'' VNil 5])"]
  show ?thesis by simp
qed

text \<open>C30: a value that was set is returned until it expires, as long as fewer other keys than the size of
  the cache have been used since and the key was not deleted or set again.\<close>

theorem cache_retention:
  assumes "finite K" and "int (card K) < sint (maxSize (NewLRUCache cap t))"
    and "\<forall>i \<in> set later. touched i \<subseteq> insert k K \<and> i \<noteq> CDelete k \<and> i \<noteq> CClear \<and> (\<forall>v d now. i \<noteq> CSet now k v d) \<and>
      (\<forall>now. i = CGet now k \<longrightarrow> now \<le> start + sint d)"
    and "now \<le> start + sint d"
  shows "last (snd (run_steps cache_step (NewLRUCache cap t) (before @ [CSet start k v d] @ later @ [CGet now k]))) = v"
proof -
  obtain cap' t' where new: "NewLRUCache cap t = cache_of cap' t' []" and pos: "0 < sint cap'"
    using NewLRUCache_of by blast
  let ?n = "nat (sint cap')" and ?e = "\<lparr>Value = v, Expiry = start + sint d\<rparr>"
  have inv0: "0 < sint cap' \<and> entries_ok ?n []" using pos by (simp add: entries_ok_def)
  have step_ok: "entries_ok ?n ys" if "entries_ok ?n xs" "cache_spec_step ?n xs i = (ys, out)" for xs i ys out
    using lru.refines [of cap' xs i ys out t'] pos that by blast
  obtain xs o1 where b: "run_steps (cache_spec_step ?n) [] before = (xs, o1)" by fastforce
  then have xs: "entries_ok ?n xs" using lru.run_refines [OF inv0 b, of t'] by blast
  define ys where "ys = spec_set ?n start k v (sint d) xs"
  have ys: "entries_ok ?n ys" "kept k ?e K ys"
    using step_ok [OF xs, of "CSet start k v d" ys VNil] kept_first by (simp_all add: ys_def spec_set_def)
  have "card K < ?n" using assms(2) new pos by simp
  obtain zs o2 where l: "run_steps (cache_spec_step ?n) ys later = (zs, o2)" by fastforce
  have "kept k ?e K zs"
    using kept_run [OF ys(2,1) assms(1) \<open>card K < ?n\<close> _ step_ok, of later] assms(3) l by simp
  from kept_lookup [OF this] assms(4) have g: "snd (spec_get now k zs) = v" by (simp add: spec_get_def)
  have "snd (run_steps (cache_spec_step ?n) [] (before @ [CSet start k v d] @ later @ [CGet now k])) =
      o1 @ VNil # o2 @ [snd (spec_get now k zs)]"
    by (simp add: run_steps_append b l flip: ys_def split: prod.split)
  with lru.run_outputs [OF inv0, of t' "before @ [CSet start k v d] @ later @ [CGet now k]"] new g
  show ?thesis by simp
qed

theorem cache_retention_witness:
  "last (snd (run_steps cache_step (NewLRUCache 2 5) ([] @ [CSet 0 ''a'' (VBool True) 5] @ [CSet 1 ''b'' VNil 5] @ [CGet 3 ''a'']))) =
   VBool True"
proof (rule cache_retention [of "{''b''}"])
  show "int (card {''b''}) < sint (maxSize (NewLRUCache 2 5))" by (simp add: NewLRUCache_def)
qed simp_all

end
