(* ===== verification/Circuit.thy ===== *)
theory Circuit
  imports Go_Value Runs
begin

text \<open>
  \<open>internal/enrichment/http/circuit_breaker.go\<close>: the circuit breaker, a state machine over reports of
  success and failure, and the retrier with exponential backoff.
\<close>

section \<open>The circuit breaker\<close>

datatype breaker_state = StateClosed | StateOpen | StateHalfOpen

record breaker =
  state :: breaker_state
  failureCount :: "32 word"
  successCount :: "32 word"
  lastFailureTime :: gtime
  openTimeout :: "64 word"
  failureThreshold :: "32 word"
  successThreshold :: "32 word"

definition time_second :: "64 word" where
  "time_second = 10 ^ 9"

text \<open>The zero \<open>time.Time\<close>, the first instant of year 1\<close>

definition zero_time :: gtime where
  "zero_time = - 62135596800 * 10 ^ 9"

definition NewCircuitBreaker :: "64 word \<Rightarrow> 32 word \<Rightarrow> 32 word \<Rightarrow> breaker" where
  "NewCircuitBreaker timeout failures successes =
     \<lparr>state = StateClosed, failureCount = 0, successCount = 0, lastFailureTime = zero_time,
      openTimeout = (if sint timeout \<le> 0 then 30 * time_second else timeout),
      failureThreshold = (if sint failures \<le> 0 then 5 else failures),
      successThreshold = (if sint successes \<le> 0 then 2 else successes)\<rparr>"

text \<open>\<open>time.Since\<close>, which saturates\<close>

definition since :: "gtime \<Rightarrow> gtime \<Rightarrow> int" where
  "since now t = max (- (2 ^ 63)) (min (2 ^ 63 - 1) (now - t))"

text \<open>
  The code asks for the state under the read lock and, to leave the open state, takes the write lock and asks again.
  Both sections are one step here: a report that another caller makes between them is not modelled.
\<close>

definition Allow :: "gtime \<Rightarrow> breaker \<Rightarrow> breaker \<times> bool" where
  "Allow now cb =
     (case state cb of
        StateClosed \<Rightarrow> (cb, True)
      | StateOpen \<Rightarrow>
          if since now (lastFailureTime cb) > sint (openTimeout cb)
          then (cb\<lparr>state := StateHalfOpen, successCount := 0\<rparr>, True) else (cb, False)
      | StateHalfOpen \<Rightarrow> (cb, True))"

definition RecordSuccess :: "breaker \<Rightarrow> breaker" where
  "RecordSuccess cb =
     (let cb = cb\<lparr>failureCount := 0\<rparr>
      in if state cb = StateHalfOpen then
           (let cb = cb\<lparr>successCount := successCount cb + 1\<rparr>
            in if sint (successCount cb) \<ge> sint (successThreshold cb)
               then cb\<lparr>state := StateClosed, successCount := 0\<rparr> else cb)
         else cb)"

definition RecordFailure :: "gtime \<Rightarrow> breaker \<Rightarrow> breaker" where
  "RecordFailure now cb =
     (let cb = cb\<lparr>successCount := 0, lastFailureTime := now, failureCount := failureCount cb + 1\<rparr>
      in if sint (failureCount cb) \<ge> sint (failureThreshold cb) then cb\<lparr>state := StateOpen\<rparr> else cb)"

section \<open>Its transition system\<close>

datatype breaker_action = AAllow gtime bool | ASuccess | AFailure gtime

inductive breaker_step :: "breaker \<Rightarrow> breaker_action \<Rightarrow> breaker \<Rightarrow> bool" where
  allow: "Allow now cb = (cb', b) \<Longrightarrow> breaker_step cb (AAllow now b) cb'"
| success: "breaker_step cb ASuccess (RecordSuccess cb)"
| failure: "breaker_step cb (AFailure now) (RecordFailure now cb)"

inductive_cases breaker_step_cases: "breaker_step cb a cb'"

inductive_simps breaker_step_simps [simp]:
  "breaker_step cb (AAllow now b) cb'" "breaker_step cb ASuccess cb'" "breaker_step cb (AFailure now) cb'"

inductive breaker_steps :: "breaker \<Rightarrow> breaker_action list \<Rightarrow> breaker \<Rightarrow> bool" where
  none: "breaker_steps cb [] cb"
| some: "breaker_step cb a cb' \<Longrightarrow> breaker_steps cb' as cb'' \<Longrightarrow> breaker_steps cb (a # as) cb''"

inductive_simps breaker_steps_simps [simp]:
  "breaker_steps cb [] cb'" "breaker_steps cb (a # as) cb'"

text \<open>The configuration of a breaker never changes.\<close>

definition same_limits :: "breaker \<Rightarrow> breaker \<Rightarrow> bool" where
  "same_limits a b \<longleftrightarrow> openTimeout a = openTimeout b \<and> failureThreshold a = failureThreshold b \<and>
     successThreshold a = successThreshold b"

lemma breaker_step_limits: "breaker_step cb a cb' \<Longrightarrow> same_limits cb' cb"
  by (erule breaker_step_cases)
     (auto simp: same_limits_def Allow_def RecordSuccess_def RecordFailure_def Let_def
        split: breaker_state.splits if_splits)

lemma breaker_steps_limits: "breaker_steps cb as cb' \<Longrightarrow> same_limits cb' cb"
  by (induction rule: breaker_steps.induct) (auto simp: same_limits_def dest: breaker_step_limits)

definition breaker_ok :: "breaker \<Rightarrow> bool" where
  "breaker_ok cb \<longleftrightarrow>
     0 < sint (openTimeout cb) \<and> 0 < sint (failureThreshold cb) \<and> 0 < sint (successThreshold cb) \<and>
     (state cb = StateClosed \<longrightarrow> 0 \<le> sint (failureCount cb) \<and> sint (failureCount cb) < sint (failureThreshold cb)) \<and>
     0 \<le> sint (successCount cb) \<and> sint (successCount cb) < sint (successThreshold cb) \<and>
     (state cb \<noteq> StateHalfOpen \<longrightarrow> successCount cb = 0)"

lemma sint_succ32:
  assumes "0 \<le> sint (w :: 32 word)" and "sint w < sint (v :: 32 word)"
  shows "sint (w + 1) = sint w + 1"
proof -
  have "sint v < 2 ^ 31" using sint_lt [of v] by simp
  with assms have "- (2 ^ 31) \<le> sint w + 1 \<and> sint w + 1 < 2 ^ 31" by simp
  then show ?thesis by (simp add: signed_take_bit_int_eq_self sint_word_ariths(1) [of w 1])
qed

lemma NewCircuitBreaker_ok: "breaker_ok (NewCircuitBreaker timeout failures successes)"
proof -
  have "0 < sint (30 * time_second)" "0 < sint (5 :: 32 word)" "0 < sint (2 :: 32 word)" by code_simp+
  then show ?thesis by (simp add: breaker_ok_def NewCircuitBreaker_def)
qed

lemma breaker_step_ok:
  assumes "breaker_step cb a cb'" and "breaker_ok cb"
  shows "breaker_ok cb'"
  using assms(1)
proof (cases rule: breaker_step.cases)
  case (allow now b)
  then show ?thesis using assms(2)
    by (auto simp: Allow_def breaker_ok_def split: breaker_state.splits if_splits)
next
  case success
  then show ?thesis using assms(2) sint_succ32 [of "successCount cb" "successThreshold cb"]
    by (auto simp: RecordSuccess_def breaker_ok_def Let_def not_le)
next
  case (failure now)
  then show ?thesis using assms(2) sint_succ32 [of "failureCount cb" "failureThreshold cb"]
    by (auto simp: RecordFailure_def breaker_ok_def Let_def not_le)
qed

lemma breaker_steps_ok: "breaker_steps cb as cb' \<Longrightarrow> breaker_ok cb \<Longrightarrow> breaker_ok cb'"
  by (induction rule: breaker_steps.induct) (blast dest: breaker_step_ok)+

text \<open>Reports of failures only\<close>

lemma failures_from_closed:
  assumes "breaker_ok cb" and "state cb = StateClosed" and "int (length ts) < sint (failureThreshold cb) - sint (failureCount cb)"
  shows "\<exists>cb'. breaker_steps cb (map AFailure ts) cb' \<and> state cb' = StateClosed \<and> same_limits cb' cb \<and>
    sint (failureCount cb') = sint (failureCount cb) + int (length ts)"
  using assms
proof (induction ts arbitrary: cb)
  case (Cons t ts)
  let ?cb = "RecordFailure t cb"
  have ok: "breaker_ok ?cb" using breaker_step_ok [OF failure Cons.prems(1)] .
  have inc: "sint (failureCount cb + 1) = sint (failureCount cb) + 1"
    by (rule sint_succ32 [of _ "failureThreshold cb"]) (use Cons.prems in \<open>auto simp: breaker_ok_def\<close>)
  have st: "state ?cb = StateClosed" "sint (failureCount ?cb) = sint (failureCount cb) + 1" "same_limits ?cb cb"
    using Cons.prems inc by (simp_all add: RecordFailure_def Let_def same_limits_def)
  with Cons.IH [OF ok st(1)] Cons.prems(3) show ?case by (auto simp: same_limits_def)
qed (simp add: same_limits_def)

section \<open>Retries\<close>

text \<open>
  What the code looks at in a response: the status, the bytes of the body that can be read, and the error
  that ends the reading when it is not the end of the body
\<close>

record response =
  StatusCode :: int
  Content :: string
  ReadError :: "gerror option"

record retry_config =
  MaxRetries :: "64 word"
  InitialBackoff :: "64 word"
  MaxBackoff :: "64 word"
  BackoffMultiplier :: f64

definition DefaultRetryConfig :: retry_config where
  "DefaultRetryConfig =
     \<lparr>MaxRetries = 3, InitialBackoff = 100 * 10 ^ 6, MaxBackoff = 10 * time_second,
      BackoffMultiplier = f64_of_int 2\<rparr>"

definition NewRetrier :: "retry_config option \<Rightarrow> retry_config" where
  "NewRetrier cfg = (case cfg of None \<Rightarrow> DefaultRetryConfig | Some c \<Rightarrow> c)"

definition isRetryable :: "gerror option \<Rightarrow> int \<Rightarrow> bool" where
  "isRetryable err status =
     (case err of
        Some e \<Rightarrow> \<not> (error_is e ErrCanceled \<or> error_is e ErrDeadlineExceeded)
      | None \<Rightarrow> status \<ge> 500 \<or> status = 408 \<or> status = 429)"

definition final_status :: "response \<Rightarrow> bool" where
  "final_status r = (StatusCode r < 500 \<and> StatusCode r \<noteq> 408 \<and> StatusCode r \<noteq> 429)"

definition next_backoff :: "retry_config \<Rightarrow> 64 word \<Rightarrow> 64 word" where
  "next_backoff cfg b =
     (let b' = f64_to_int64 (f64_mul (f64_of_int (sint b)) (BackoffMultiplier cfg))
      in if sint b' > sint (MaxBackoff cfg) then MaxBackoff cfg else b')"

definition max_retries_error :: "gerror option \<Rightarrow> gerror" where
  "max_retries_error lastErr =
     (case lastErr of
        None \<Rightarrow> Errorf ''http: max retries exceeded: %w'' [VNil]
      | Some e \<Rightarrow> wrap_err ''http: max retries exceeded: %w'' [] e)"

text \<open>
  The loop of \<open>Retrier.Do\<close> with the number of attempts left. The state \<open>'w\<close> is the outside world:
  \<open>fn\<close> makes a request, \<open>sleep\<close> waits and answers with the error of the context when that is done
  first.
\<close>

fun retry_loop ::
  "retry_config \<Rightarrow> ('w \<Rightarrow> 'w \<times> response option \<times> gerror option) \<Rightarrow> ('w \<Rightarrow> 64 word \<Rightarrow> 'w \<times> gerror option) \<Rightarrow>
   nat \<Rightarrow> 64 word \<Rightarrow> response option \<Rightarrow> gerror option \<Rightarrow> 'w \<Rightarrow> 'w \<times> response option \<times> gerror option" where
  "retry_loop cfg fn sleep 0 backoff lastResp lastErr w = (w, lastResp, Some (max_retries_error lastErr))"
| "retry_loop cfg fn sleep (Suc n) backoff lastResp lastErr w =
     (case fn w of (w1, resp, err) \<Rightarrow>
        (if err = None \<and> (case resp of Some r \<Rightarrow> final_status r | None \<Rightarrow> False) then (w1, resp, None)
         else if \<not> isRetryable err (case resp of Some r \<Rightarrow> StatusCode r | None \<Rightarrow> 0) then (w1, resp, err)
         else case sleep w1 backoff of
                (w2, Some e) \<Rightarrow> (w2, resp, Some e)
              | (w2, None) \<Rightarrow> retry_loop cfg fn sleep n (next_backoff cfg backoff) resp err w2))"

definition retry_do ::
  "retry_config \<Rightarrow> ('w \<Rightarrow> 'w \<times> response option \<times> gerror option) \<Rightarrow> ('w \<Rightarrow> 64 word \<Rightarrow> 'w \<times> gerror option) \<Rightarrow>
   'w \<Rightarrow> 'w \<times> response option \<times> gerror option" where
  "retry_do cfg fn sleep w =
     retry_loop cfg fn sleep (nat (sint (MaxRetries cfg))) (InitialBackoff cfg) None None w"

text \<open>The same with a record of what was called: the number of requests and the times slept\<close>

definition counting_fn ::
  "('w \<Rightarrow> 'w \<times> response option \<times> gerror option) \<Rightarrow> 'w \<times> nat \<times> 64 word list \<Rightarrow>
   ('w \<times> nat \<times> 64 word list) \<times> response option \<times> gerror option" where
  "counting_fn fn s = (case s of (w, n, ds) \<Rightarrow> case fn w of (w', r) \<Rightarrow> ((w', n + 1, ds), r))"

definition logging_sleep ::
  "('w \<Rightarrow> 64 word \<Rightarrow> 'w \<times> gerror option) \<Rightarrow> 'w \<times> nat \<times> 64 word list \<Rightarrow> 64 word \<Rightarrow>
   ('w \<times> nat \<times> 64 word list) \<times> gerror option" where
  "logging_sleep sleep s d = (case s of (w, n, ds) \<Rightarrow> case sleep w d of (w', e) \<Rightarrow> ((w', n, ds @ [d]), e))"

lemma counting_fn_simps [simp]:
  "counting_fn fn (w, n, ds) = (case fn w of (w', r) \<Rightarrow> ((w', n + 1, ds), r))"
  by (simp add: counting_fn_def)

lemma logging_sleep_simps [simp]:
  "logging_sleep sleep (w, n, ds) d = (case sleep w d of (w', e) \<Rightarrow> ((w', n, ds @ [d]), e))"
  by (simp add: logging_sleep_def)

lemma next_backoff_le: "sint (next_backoff cfg b) \<le> sint (MaxBackoff cfg)"
  by (simp add: next_backoff_def Let_def)

lemma retry_loop_counts:
  assumes "retry_loop cfg (counting_fn fn) (logging_sleep sleep) k b lr le (w, n, ds) = ((w', n', ds'), r)"
    and "sint b \<le> m" and "sint (MaxBackoff cfg) \<le> m" and "\<forall>d \<in> set ds. sint d \<le> m"
  shows "n' \<le> n + k \<and> length ds' \<le> length ds + k \<and> (\<forall>d \<in> set ds'. sint d \<le> m) \<and>
    retry_loop cfg fn sleep k b lr le w = (w', r)"
  using assms
proof (induction k arbitrary: b lr le w n ds)
  case (Suc k)
  obtain w1 resp err where f: "fn w = (w1, resp, err)" by (cases "fn w") auto
  obtain w2 e where s: "sleep w1 b = (w2, e)" by fastforce
  have nb: "sint (next_backoff cfg b) \<le> m" using next_backoff_le [of cfg b] Suc.prems(3) by linarith
  have IH: "retry_loop cfg (counting_fn fn) (logging_sleep sleep) k (next_backoff cfg b) resp err (w2, n + 1, ds @ [b]) =
      ((w', n', ds'), r) \<Longrightarrow>
    n' \<le> n + 1 + k \<and> length ds' \<le> length (ds @ [b]) + k \<and> (\<forall>d \<in> set ds'. sint d \<le> m) \<and>
    retry_loop cfg fn sleep k (next_backoff cfg b) resp err w2 = (w', r)"
    by (rule Suc.IH [OF _ nb Suc.prems(3)]) (use Suc.prems(2,4) in auto)
  show ?case
    using Suc.prems IH f s by (cases e) (auto split: if_splits)
qed auto

section \<open>Runs of the breaker\<close>

lemma breaker_steps_append:
  "breaker_steps cb (as @ bs) cb' \<longleftrightarrow> (\<exists>mid. breaker_steps cb as mid \<and> breaker_steps mid bs cb')"
  by (induction as arbitrary: cb) auto

lemma since_le: "now \<le> t + d \<Longrightarrow> - (2 ^ 63) \<le> d \<Longrightarrow> since now t \<le> d"
  by (simp add: since_def)

text \<open>An open breaker stays open as long as nobody asks after the timeout.\<close>

definition before_timeout :: "gtime \<Rightarrow> int \<Rightarrow> breaker_action \<Rightarrow> bool" where
  "before_timeout start d a =
     (case a of AAllow now b \<Rightarrow> now \<le> start + d | ASuccess \<Rightarrow> True | AFailure now \<Rightarrow> start \<le> now)"

lemma open_refuses:
  assumes "breaker_steps cb as cb'" and "state cb = StateOpen" and "start \<le> lastFailureTime cb"
    and "\<forall>a \<in> set as. before_timeout start (sint (openTimeout cb)) a" and "breaker_ok cb"
  shows "state cb' = StateOpen \<and> (\<forall>now b. AAllow now b \<in> set as \<longrightarrow> \<not> b)"
  using assms
proof (induction rule: breaker_steps.induct)
  case (some cb a cb' as cb'')
  have timeout: "openTimeout cb' = openTimeout cb" using breaker_step_limits [OF some.hyps(1)] by (simp add: same_limits_def)
  have "state cb' = StateOpen \<and> start \<le> lastFailureTime cb' \<and> (\<forall>now b. a = AAllow now b \<longrightarrow> \<not> b)"
    using some.hyps(1)
  proof (cases rule: breaker_step.cases)
    case (allow now b)
    have "now \<le> lastFailureTime cb + sint (openTimeout cb)"
      using some.prems(2,3) allow by (simp add: before_timeout_def)
    then have "\<not> since now (lastFailureTime cb) > sint (openTimeout cb)"
      using since_le [of now "lastFailureTime cb" "sint (openTimeout cb)"] some.prems(4) by (simp add: breaker_ok_def)
    with allow some.prems(1,2) show ?thesis by (simp add: Allow_def)
  next
    case success
    with some.prems(1,2) show ?thesis by (simp add: RecordSuccess_def)
  next
    case (failure now)
    then show ?thesis using some.prems by (auto simp: RecordFailure_def Let_def before_timeout_def)
  qed
  with some.IH timeout some.prems(3) breaker_step_ok [OF some.hyps(1) some.prems(4)] show ?case by auto
qed simp

lemma successes_from_half_open:
  assumes "breaker_ok cb" and "state cb = StateHalfOpen" and "n = nat (sint (successThreshold cb) - sint (successCount cb))"
  shows "\<exists>cb'. breaker_steps cb (replicate n ASuccess) cb' \<and> state cb' = StateClosed \<and> failureCount cb' = 0"
  using assms
proof (induction n arbitrary: cb)
  case (Suc n)
  let ?cb = "RecordSuccess cb"
  have inc: "sint (successCount cb + 1) = sint (successCount cb) + 1"
    by (rule sint_succ32 [of _ "successThreshold cb"]) (use Suc.prems in \<open>auto simp: breaker_ok_def\<close>)
  show ?case
  proof (cases "sint (successCount cb) + 1 \<ge> sint (successThreshold cb)")
    case True
    with Suc.prems have "n = 0" by simp
    moreover have "state ?cb = StateClosed" "failureCount ?cb = 0"
      using True inc Suc.prems(2) by (simp_all add: RecordSuccess_def Let_def)
    ultimately show ?thesis by simp
  next
    case False
    then have "state ?cb = StateHalfOpen" "sint (successCount ?cb) = sint (successCount cb) + 1"
      "successThreshold ?cb = successThreshold cb"
      using inc Suc.prems(2) by (simp_all add: RecordSuccess_def Let_def)
    moreover from this Suc.prems(3) have "n = nat (sint (successThreshold ?cb) - sint (successCount ?cb))" by simp
    ultimately show ?thesis
      using Suc.IH [of ?cb] breaker_step_ok [OF success Suc.prems(1)] by simp
  qed
qed (auto simp: breaker_ok_def)

lemma failures_determined: "breaker_steps c (map AFailure us) cb1 \<Longrightarrow> breaker_steps c (map AFailure us) cb2 \<Longrightarrow> cb1 = cb2"
  by (induction us arbitrary: c) auto

text \<open>A breaker that is new or was told of a success last has no failures.\<close>

lemma no_failures_yet:
  assumes "breaker_steps (NewCircuitBreaker timeout failures successes) as cb" and "as = [] \<or> last as = ASuccess"
  shows "sint (failureCount cb) = 0"
proof (cases as rule: rev_cases)
  case Nil
  with assms(1) show ?thesis by (simp add: NewCircuitBreaker_def)
next
  case (snoc bs a)
  with assms obtain mid where "cb = RecordSuccess mid" by (auto simp: breaker_steps_append)
  then show ?thesis by (simp add: RecordSuccess_def Let_def)
qed

section \<open>Properties\<close>

text \<open>C17: in every state a new breaker reaches, a closed breaker has counted fewer consecutive failures than
  the threshold (the count of an open or half-open one is not bounded by it), successes are counted only while
  half open and below their threshold, and the limits are positive and the ones it was made with.\<close>

theorem breaker_invariant:
  assumes "breaker_steps (NewCircuitBreaker timeout failures successes) as cb"
  shows "(state cb = StateClosed \<longrightarrow> 0 \<le> sint (failureCount cb) \<and> sint (failureCount cb) < sint (failureThreshold cb)) \<and>
    (state cb \<noteq> StateHalfOpen \<longrightarrow> successCount cb = 0) \<and>
    0 \<le> sint (successCount cb) \<and> sint (successCount cb) < sint (successThreshold cb) \<and>
    0 < sint (openTimeout cb) \<and> 0 < sint (failureThreshold cb) \<and>
    same_limits cb (NewCircuitBreaker timeout failures successes) \<and> (0 < sint failures \<longrightarrow> failureThreshold cb = failures) \<and>
    (0 < sint successes \<longrightarrow> successThreshold cb = successes) \<and> (0 < sint timeout \<longrightarrow> openTimeout cb = timeout)"
  using breaker_steps_ok [OF assms NewCircuitBreaker_ok] breaker_steps_limits [OF assms]
  by (auto simp: breaker_ok_def same_limits_def NewCircuitBreaker_def)

theorem breaker_invariant_witness:
  "0 < sint (openTimeout (RecordFailure 7 (NewCircuitBreaker 0 1 1)))"
  using breaker_invariant [of 0 1 1 "[AFailure 7]" "RecordFailure 7 (NewCircuitBreaker 0 1 1)"] by simp

text \<open>C18: a closed breaker that is new or has just been told of a success is opened by the threshold's number of
  consecutive failures, and by no fewer; until the timeout after the last of them every request is refused,
  whatever other requests report.\<close>

theorem breaker_trips:
  assumes "0 < sint failures" and "breaker_steps (NewCircuitBreaker timeout failures successes) as cb0"
    and "as = [] \<or> last as = ASuccess" and "state cb0 = StateClosed"
    and "breaker_steps cb0 (map AFailure ts) cb" and "int (length ts) \<le> sint failures"
  shows "state cb = (if int (length ts) < sint failures then StateClosed else StateOpen) \<and>
    (int (length ts) = sint failures \<longrightarrow>
      (\<forall>bs cb'. breaker_steps cb bs cb' \<and> (\<forall>a \<in> set bs. before_timeout (last ts) (sint (openTimeout cb)) a) \<longrightarrow>
         state cb' = StateOpen \<and> (\<forall>now b. AAllow now b \<in> set bs \<longrightarrow> \<not> b)))"
proof -
  have ok0: "breaker_ok cb0" using breaker_steps_ok [OF assms(2) NewCircuitBreaker_ok] .
  have thr0: "failureThreshold cb0 = failures"
    using breaker_steps_limits [OF assms(2)] assms(1) by (simp add: same_limits_def NewCircuitBreaker_def)
  have zero: "sint (failureCount cb0) = 0" using assms(2,3) by (rule no_failures_yet)
  show ?thesis
  proof (cases "int (length ts) < sint failures")
    case True
    with failures_from_closed [OF ok0 assms(4), of ts] thr0 zero failures_determined assms(5) show ?thesis by fastforce
  next
    case False
    then have eq: "int (length ts) = sint failures" using assms(6) by simp
    with assms(1) obtain us t where ts: "ts = us @ [t]" by (cases ts rule: rev_cases) auto
    obtain mid where mid: "breaker_steps cb0 (map AFailure us) mid" "state mid = StateClosed" "same_limits mid cb0"
        "sint (failureCount mid) = int (length us)"
      using failures_from_closed [OF ok0 assms(4), of us] thr0 zero eq ts by auto
    have ok: "breaker_ok mid" using breaker_steps_ok [OF mid(1) ok0] .
    have "breaker_steps cb0 (map AFailure ts) (RecordFailure t mid)"
      using mid(1) by (simp add: ts breaker_steps_append) blast
    then have cb: "cb = RecordFailure t mid" using failures_determined assms(5) by blast
    have thr: "sint (failureThreshold mid) = sint failures"
      using mid(3) thr0 by (simp add: same_limits_def)
    have inc: "sint (failureCount mid + 1) = sint (failureCount mid) + 1"
      by (rule sint_succ32 [of _ "failureThreshold mid"]) (use mid(4) eq ts thr in auto)
    have cb_open: "state cb = StateOpen" "lastFailureTime cb = t"
      using inc mid(4) eq ts thr by (simp_all add: cb RecordFailure_def Let_def)
    have ok_cb: "breaker_ok cb" using breaker_step_ok [OF failure ok] by (simp add: cb)
    have "state cb' = StateOpen \<and> (\<forall>now b. AAllow now b \<in> set bs \<longrightarrow> \<not> b)"
      if "breaker_steps cb bs cb'" "\<forall>a \<in> set bs. before_timeout (last ts) (sint (openTimeout cb)) a" for bs cb'
      by (rule open_refuses [OF that(1) cb_open(1) _ _ ok_cb, of t]) (use that(2) cb_open(2) ts in simp_all)
    with False cb_open show ?thesis by auto
  qed
qed

theorem breaker_trips_witness:
  "state (RecordFailure 8 (RecordFailure 7 (RecordSuccess (RecordFailure 6 (NewCircuitBreaker 10 2 1))))) = StateOpen"
proof -
  let ?cb0 = "RecordSuccess (RecordFailure 6 (NewCircuitBreaker 10 2 1))"
  have run: "breaker_steps (NewCircuitBreaker 10 2 1) [AFailure 6, ASuccess] ?cb0" by simp
  have more: "breaker_steps ?cb0 (map AFailure [7, 8]) (RecordFailure 8 (RecordFailure 7 ?cb0))" by simp
  have closed: "state ?cb0 = StateClosed" by code_simp
  have "0 < sint (2 :: 32 word)" "int (length [7, 8 :: gtime]) \<le> sint (2 :: 32 word)" "\<not> int (length [7, 8 :: gtime]) < sint (2 :: 32 word)"
    by simp_all
  with breaker_trips [OF _ run _ closed more] show ?thesis by (metis last.simps list.distinct(1))
qed

text \<open>C31: an open breaker recovers: the first request after the timeout is let through, and when it and
  those after it succeed as often as the threshold asks, the breaker is closed with no failures.\<close>

theorem breaker_recovers:
  assumes "breaker_steps (NewCircuitBreaker timeout failures successes) as cb" and "state cb = StateOpen"
    and "since now (lastFailureTime cb) > sint (openTimeout cb)"
  shows "\<exists>cb'. breaker_steps cb (AAllow now True # replicate (nat (sint (successThreshold cb))) ASuccess) cb' \<and>
    state cb' = StateClosed \<and> failureCount cb' = 0"
proof -
  let ?cb = "cb\<lparr>state := StateHalfOpen, successCount := 0\<rparr>"
  have a: "Allow now cb = (?cb, True)" using assms(2,3) by (simp add: Allow_def)
  have "breaker_ok ?cb" using breaker_step_ok [OF allow [OF a]] breaker_steps_ok [OF assms(1) NewCircuitBreaker_ok] .
  from successes_from_half_open [OF this] a show ?thesis by auto
qed

theorem breaker_recovers_witness:
  "\<exists>cb'. breaker_steps (RecordFailure 7 (NewCircuitBreaker 10 1 1)) [AAllow 18 True, ASuccess] cb' \<and>
     state cb' = StateClosed"
proof -
  let ?cb = "RecordFailure 7 (NewCircuitBreaker 10 1 1)"
  have "breaker_steps (NewCircuitBreaker 10 1 1) [AFailure 7] ?cb" by simp
  moreover have "state ?cb = StateOpen" "since 18 (lastFailureTime ?cb) > sint (openTimeout ?cb)"
    "nat (sint (successThreshold ?cb)) = 1" by code_simp+
  ultimately show ?thesis using breaker_recovers [of 10 1 1 "[AFailure 7]" ?cb 18] by auto
qed

text \<open>One success makes a half-open breaker forget the failures that opened it: a failure right after
  it leaves the breaker half open, letting requests through, when the threshold is above one.\<close>

theorem half_open_tolerates_failure:
  assumes "state cb = StateHalfOpen" and "successCount cb = 0"
    and "1 < sint (successThreshold cb)" and "1 < sint (failureThreshold cb)"
  shows "state (RecordFailure t (RecordSuccess cb)) = StateHalfOpen \<and>
    snd (Allow now (RecordFailure t (RecordSuccess cb)))"
  using assms by (simp add: RecordSuccess_def RecordFailure_def Allow_def Let_def)

theorem half_open_tolerates_failure_witness:
  "snd (Allow 9 (RecordFailure 8 (RecordSuccess ((NewCircuitBreaker 5 3 2)\<lparr>state := StateHalfOpen\<rparr>))))"
  using half_open_tolerates_failure [of "(NewCircuitBreaker 5 3 2)\<lparr>state := StateHalfOpen\<rparr>"]
  by (simp add: NewCircuitBreaker_def)

text \<open>C32: \<open>Do\<close> makes at most \<open>MaxRetries\<close> requests, each followed by at most one pause, and no pause is
  longer than the larger of the initial and the maximal backoff; counting does not change the result.\<close>

theorem retry_bounds:
  assumes "retry_do cfg (counting_fn fn) (logging_sleep sleep) (w, 0, []) = ((w', n, pauses), r)"
  shows "n \<le> nat (sint (MaxRetries cfg)) \<and> length pauses \<le> nat (sint (MaxRetries cfg)) \<and>
    (\<forall>d \<in> set pauses. sint d \<le> max (sint (InitialBackoff cfg)) (sint (MaxBackoff cfg))) \<and>
    retry_do cfg fn sleep w = (w', r)"
  using retry_loop_counts [OF assms [unfolded retry_do_def],
      of "max (sint (InitialBackoff cfg)) (sint (MaxBackoff cfg))"]
  by (simp add: retry_do_def)

theorem retry_bounds_witness:
  "\<exists>w' n pauses r. retry_do DefaultRetryConfig (counting_fn (\<lambda>w :: unit. (w, None, Some (ErrLib ''refused''))))
      (logging_sleep (\<lambda>w d. (w, None))) ((), 0, []) = ((w', n, pauses), r) \<and> n \<le> 3 \<and> length pauses \<le> 3"
proof -
  obtain w' n pauses r where run: "retry_do DefaultRetryConfig (counting_fn (\<lambda>w :: unit. (w, None, Some (ErrLib ''refused''))))
      (logging_sleep (\<lambda>w d. (w, None))) ((), 0, []) = ((w', n, pauses), r)"
    by (metis prod.exhaust)
  have "nat (sint (MaxRetries DefaultRetryConfig)) = 3" by (simp add: DefaultRetryConfig_def)
  with retry_bounds [OF run] run show ?thesis by auto
qed

end
