(* ===== verification/Http.thy ===== *)
theory Http
  imports Cache Circuit Transform
begin

text \<open>
  \<open>internal/enrichment/http\<close>: the client with its cache, retries and circuit breaker (\<open>client.go\<close>) and
  the transform \<open>enrich.http\<close> (\<open>enrichment.go\<close>). The network is an argument; the cache, the breaker and
  the retrier are those of the theories \<open>Cache\<close> and \<open>Circuit\<close>.
\<close>

section \<open>The client\<close>

record request =
  ReqMethod :: string
  ReqURL :: string
  ReqHeaders :: "(string \<times> string) list"
  ReqBody :: string

text \<open>
  The outside: the clock, a round trip of \<open>net/http\<close>, a pause that a done context ends early, and the error
  of \<open>NewRequestWithContext\<close>. Time passes in calls of these only.
\<close>

record 'w http_io =
  Clock :: "'w \<Rightarrow> gtime"
  RoundTrip :: "'w \<Rightarrow> request \<Rightarrow> 'w \<times> (gerror + response)"
  Pause :: "'w \<Rightarrow> 64 word \<Rightarrow> 'w \<times> gerror option"
  CheckURL :: "string \<Rightarrow> gerror option"

record client_config =
  ClientTimeout :: "64 word"
  ClientMaxIdle :: "64 word"
  ClientMaxConns :: "64 word"
  ClientCacheTTL :: "64 word"
  ClientCacheSize :: "64 word"
  ClientMaxRetries :: "64 word"
  CircuitOpenTime :: "64 word"
  ClientFailureThreshold :: "32 word"
  ClientSuccessThreshold :: "32 word"
  ClientMaxResponseSize :: "64 word"

definition DefaultClientConfig :: client_config where
  "DefaultClientConfig =
     \<lparr>ClientTimeout = 10 * time_second, ClientMaxIdle = 100, ClientMaxConns = 10, ClientCacheTTL = minutes 5,
      ClientCacheSize = 1000, ClientMaxRetries = 3, CircuitOpenTime = 30 * time_second,
      ClientFailureThreshold = 5, ClientSuccessThreshold = 2, ClientMaxResponseSize = 10 * 1024 * 1024\<rparr>"

record http_client =
  HttpCache :: lru_cache
  HttpRetrier :: retry_config
  HttpBreaker :: breaker
  HttpMaxSize :: "64 word"

definition NewClient :: "client_config option \<Rightarrow> http_client" where
  "NewClient cfg =
     (let cfg = (case cfg of None \<Rightarrow> DefaultClientConfig | Some c \<Rightarrow> c)
      in \<lparr>HttpCache = NewLRUCache (ClientCacheSize cfg) (ClientCacheTTL cfg),
          HttpRetrier = NewRetrier (Some \<lparr>MaxRetries = ClientMaxRetries cfg, InitialBackoff = 100 * 10 ^ 6,
            MaxBackoff = 10 * time_second, BackoffMultiplier = f64_of_int 2\<rparr>),
          HttpBreaker = NewCircuitBreaker (CircuitOpenTime cfg) (ClientFailureThreshold cfg) (ClientSuccessThreshold cfg),
          HttpMaxSize = ClientMaxResponseSize cfg\<rparr>)"

text \<open>\<open>io.ReadAll\<close> of a body behind \<open>io.LimitReader\<close>\<close>

definition read_limited :: "int \<Rightarrow> response \<Rightarrow> gerror + string" where
  "read_limited n r =
     (if int (length (Content r)) \<ge> n then Inr (take (nat n) (Content r))
      else case ReadError r of Some err \<Rightarrow> Inl err | None \<Rightarrow> Inr (Content r))"

definition too_large :: "http_client \<Rightarrow> string \<Rightarrow> gerror" where
  "too_large c body = Errorf ''http: response body too large (size %d exceeds max %d)''
     [VInt (of_nat (length body)), VInt64 (HttpMaxSize c)]"

definition do_request :: "'w http_io \<Rightarrow> request \<Rightarrow> 'w \<Rightarrow> 'w \<times> response option \<times> gerror option" where
  "do_request io rq w =
     (case CheckURL io (ReqURL rq) of
        Some err \<Rightarrow> (w, None, Some err)
      | None \<Rightarrow>
          (case RoundTrip io w rq of
             (w', Inl err) \<Rightarrow> (w', None, Some err)
           | (w', Inr r) \<Rightarrow> (w', Some r, None)))"

definition record_failure :: "'w http_io \<Rightarrow> 'w \<Rightarrow> http_client \<Rightarrow> http_client" where
  "record_failure io w c = c\<lparr>HttpBreaker := RecordFailure (Clock io w) (HttpBreaker c)\<rparr>"

definition record_success :: "http_client \<Rightarrow> http_client" where
  "record_success c = c\<lparr>HttpBreaker := RecordSuccess (HttpBreaker c)\<rparr>"

definition ask_breaker :: "'w http_io \<Rightarrow> 'w \<Rightarrow> http_client \<Rightarrow> http_client \<times> bool" where
  "ask_breaker io w c = (case Allow (Clock io w) (HttpBreaker c) of (b, ok) \<Rightarrow> (c\<lparr>HttpBreaker := b\<rparr>, ok))"

abbreviation "breaker_open_error \<equiv> Errorf ''http: circuit breaker is open'' []"

definition bad_status :: "response \<Rightarrow> bool" where
  "bad_status r = (StatusCode r < 200 \<or> StatusCode r \<ge> 300)"

text \<open>
  The start of \<open>Get\<close> and \<open>GetJSON\<close>: an entry of the cache that is not a string is removed. The cache
  answers \<open>VNil\<close> when it has nothing.
\<close>

definition cached_body :: "'w http_io \<Rightarrow> http_client \<Rightarrow> 'w \<Rightarrow> string \<Rightarrow> http_client \<times> string option" where
  "cached_body io c w url =
     (case cache_get (Clock io w) url (HttpCache c) of
        (ch, VNil) \<Rightarrow> (c\<lparr>HttpCache := ch\<rparr>, None)
      | (ch, VStr s) \<Rightarrow> (c\<lparr>HttpCache := ch\<rparr>, Some s)
      | (ch, _) \<Rightarrow> (c\<lparr>HttpCache := cache_delete url ch\<rparr>, None))"

text \<open>
  Their request behind the breaker and the retrier. A response of neither kind cannot come from
  \<open>net/http\<close>; the code would look into a nil pointer.
\<close>

definition get_response ::
  "'w http_io \<Rightarrow> http_client \<Rightarrow> 'w \<Rightarrow> request \<Rightarrow> http_client \<times> 'w \<times> (gerror + response)" where
  "get_response io c w rq =
     (case ask_breaker io w c of
        (c, False) \<Rightarrow> (c, w, Inl breaker_open_error)
      | (c, True) \<Rightarrow>
          (case retry_do (HttpRetrier c) (do_request io rq) (Pause io) w of
             (w', resp, Some err) \<Rightarrow>
               (record_failure io w' c, w', Inl (wrap_err ''http: get failed: %w'' [] err))
           | (w', None, None) \<Rightarrow> (c, w', Inl (ErrPanic ''invalid memory address or nil pointer dereference''))
           | (w', Some r, None) \<Rightarrow>
               (if bad_status r then
                  (record_failure io w' c, w', Inl (Errorf ''http: get returned status %d'' [VInt (of_int (StatusCode r))]))
                else (record_success c, w', Inr r))))"

definition get_request :: "string \<Rightarrow> (string \<times> string) list \<Rightarrow> request" where
  "get_request url hs = \<lparr>ReqMethod = ''GET'', ReqURL = url, ReqHeaders = hs, ReqBody = []\<rparr>"

text \<open>The second size check of \<open>Get\<close> repeats the first and is left out.\<close>

definition http_Get :: "'w http_io \<Rightarrow> http_client \<Rightarrow> 'w \<Rightarrow> string \<Rightarrow> http_client \<times> 'w \<times> (gerror + string)" where
  "http_Get io c w url =
     (case cached_body io c w url of
        (c, Some s) \<Rightarrow> (c, w, Inr s)
      | (c, None) \<Rightarrow>
          (case get_response io c w (get_request url []) of
             (c, w, Inl err) \<Rightarrow> (c, w, Inl err)
           | (c, w, Inr r) \<Rightarrow>
               (case read_limited (sint (HttpMaxSize c + 1)) r of
                  Inl err \<Rightarrow> (c, w, Inl (wrap_err ''http: read body failed: %w'' [] err))
                | Inr body \<Rightarrow>
                    (if int (length body) > sint (HttpMaxSize c)
                     then (c, w, Inl (Errorf ''http: response body exceeds maximum size of %d bytes'' [VInt64 (HttpMaxSize c)]))
                     else (c\<lparr>HttpCache := cache_set (Clock io w) url (VStr body) (HttpCache c)\<rparr>, w, Inr body)))))"

definition http_GetJSON :: "'w http_io \<Rightarrow> http_client \<Rightarrow> 'w \<Rightarrow> string \<Rightarrow> http_client \<times> 'w \<times> (gerror + string)" where
  "http_GetJSON io c w url =
     (case cached_body io c w url of
        (c, Some s) \<Rightarrow> (c, w, Inr s)
      | (c, None) \<Rightarrow>
          (case get_response io c w (get_request url [(''Accept'', ''application/json'')]) of
             (c, w, Inl err) \<Rightarrow> (c, w, Inl err)
           | (c, w, Inr r) \<Rightarrow>
               (case read_limited (sint (HttpMaxSize c + 1)) r of
                  Inl err \<Rightarrow> (c, w, Inl (wrap_err ''http: read body failed: %w'' [] err))
                | Inr body \<Rightarrow>
                    (if int (length body) > sint (HttpMaxSize c) then (c, w, Inl (too_large c body))
                     else (c\<lparr>HttpCache := cache_set (Clock io w) url (VStr body) (HttpCache c)\<rparr>, w, Inr body)))))"

section \<open>Posting\<close>

record post_options =
  AllowRetries :: bool
  IdempotencyKey :: string
  IdempotentVerbOverride :: bool

abbreviation "no_post_options \<equiv> \<lparr>AllowRetries = False, IdempotencyKey = [], IdempotentVerbOverride = False\<rparr>"

definition post_request :: "string \<Rightarrow> string \<Rightarrow> string \<Rightarrow> post_options \<Rightarrow> request" where
  "post_request url contentType body opts =
     \<lparr>ReqMethod = ''POST'', ReqURL = url,
      ReqHeaders = (''Content-Type'', contentType) #
        (if IdempotencyKey opts \<noteq> [] then [(''Idempotency-Key'', IdempotencyKey opts)] else []),
      ReqBody = body\<rparr>"

definition handlePostResponse :: "'w http_io \<Rightarrow> http_client \<Rightarrow> 'w \<Rightarrow> response \<Rightarrow> http_client \<times> 'w \<times> (gerror + string)" where
  "handlePostResponse io c w r =
     (if bad_status r then
        (record_failure io w c, w, Inl (Errorf ''http: post returned status %d'' [VInt (of_int (StatusCode r))]))
      else
        (record_success c, w,
         case read_limited (sint (HttpMaxSize c + 1)) r of
           Inl err \<Rightarrow> Inl (wrap_err ''http: read body failed: %w'' [] err)
         | Inr body \<Rightarrow> if int (length body) > sint (HttpMaxSize c) then Inl (too_large c body) else Inr body))"

definition post_response ::
  "'w http_io \<Rightarrow> http_client \<Rightarrow> 'w \<times> response option \<times> gerror option \<Rightarrow> http_client \<times> 'w \<times> (gerror + string)" where
  "post_response io c res =
     (case res of
        (w, resp, Some err) \<Rightarrow> (record_failure io w c, w, Inl (wrap_err ''http: post failed: %w'' [] err))
      | (w, None, None) \<Rightarrow> (c, w, Inl (ErrPanic ''invalid memory address or nil pointer dereference''))
      | (w, Some r, None) \<Rightarrow> handlePostResponse io c w r)"

definition PostWithOptions ::
  "'w http_io \<Rightarrow> http_client \<Rightarrow> 'w \<Rightarrow> string \<Rightarrow> string \<Rightarrow> string \<Rightarrow> post_options option \<Rightarrow>
   http_client \<times> 'w \<times> (gerror + string)" where
  "PostWithOptions io c w url contentType body opts =
     (let opts = (case opts of None \<Rightarrow> no_post_options | Some opts \<Rightarrow> opts);
          rq = post_request url contentType body opts
      in if AllowRetries opts \<and> IdempotencyKey opts = [] \<and> \<not> IdempotentVerbOverride opts
         then (c, w, Inl (Errorf ''http: retries requested for POST without idempotency key'' []))
         else case ask_breaker io w c of
                (c, False) \<Rightarrow> (c, w, Inl breaker_open_error)
              | (c, True) \<Rightarrow>
                  (if AllowRetries opts
                   then post_response io c (retry_do (HttpRetrier c) (do_request io rq) (Pause io) w)
                   else case CheckURL io url of
                          Some err \<Rightarrow> (c, w, Inl err)
                        | None \<Rightarrow> post_response io c (do_request io rq w)))"

definition Post ::
  "'w http_io \<Rightarrow> http_client \<Rightarrow> 'w \<Rightarrow> string \<Rightarrow> string \<Rightarrow> string \<Rightarrow> http_client \<times> 'w \<times> (gerror + string)" where
  "Post io c w url contentType body = PostWithOptions io c w url contentType body (Some no_post_options)"

definition http_Close :: "http_client \<Rightarrow> http_client" where
  "http_Close c = c\<lparr>HttpCache := cache_clear (HttpCache c)\<rparr>"

definition http_Stats :: "http_client \<Rightarrow> nat \<times> breaker_state" where
  "http_Stats c = (cache_size (HttpCache c), state (HttpBreaker c))"

section \<open>What the cache holds\<close>

lemma cache_set_here: "fmlookup (data (cache_set now k v c)) k = Some \<lparr>Value = v, Expiry = now + sint (ttl c)\<rparr>"
  by (simp add: cache_set_def SetWithTTL_def Let_def move_to_front_def split: option.split)

definition bodies_ok :: "http_client \<Rightarrow> bool" where
  "bodies_ok c \<longleftrightarrow> (\<forall>k e. fmlookup (data (HttpCache c)) k = Some e \<longrightarrow>
     (\<exists>s. Value e = VStr s \<and> int (length s) \<le> sint (HttpMaxSize c)))"

lemma bodies_okI:
  assumes "bodies_ok c" and "HttpMaxSize c' = HttpMaxSize c"
    and "\<And>k e. fmlookup (data (HttpCache c')) k = Some e \<Longrightarrow> fmlookup (data (HttpCache c)) k = Some e \<or>
      (\<exists>s. Value e = VStr s \<and> int (length s) \<le> sint (HttpMaxSize c))"
  shows "bodies_ok c'"
  unfolding bodies_ok_def assms(2) using assms(1,3) unfolding bodies_ok_def by blast

lemma cached_body_ok:
  assumes "cached_body io c w url = (c', r)" and "bodies_ok c"
  shows "bodies_ok c' \<and> HttpMaxSize c' = HttpMaxSize c \<and> HttpBreaker c' = HttpBreaker c \<and> HttpRetrier c' = HttpRetrier c \<and>
    cache_steps (HttpCache c) (HttpCache c') \<and>
    (case r of None \<Rightarrow> True | Some s \<Rightarrow> int (length s) \<le> sint (HttpMaxSize c))"
proof -
  obtain ch v where g: "cache_get (Clock io w) url (HttpCache c) = (ch, v)" by fastforce
  have str: "\<exists>s. v = VStr s \<and> int (length s) \<le> sint (HttpMaxSize c)" if "v \<noteq> VNil"
    using lru_store.get_hit [of "Clock io w" url "HttpCache c"] that assms(2) by (auto simp: g bodies_ok_def)
  have ch: "bodies_ok (c\<lparr>HttpCache := ch\<rparr>)"
    by (rule bodies_okI [OF assms(2)]) (use lru_store.get_keeps [of "Clock io w" url "HttpCache c"] g in auto)
  have ops: "cache_steps (HttpCache c) ch" using cache_steps_op(1) [of "HttpCache c" "Clock io w" url] by (simp add: g)
  show ?thesis
  proof (cases "v = VNil")
    case True
    with assms(1) g ch ops show ?thesis by (auto simp: cached_body_def)
  next
    case False
    with str obtain s where "v = VStr s" "int (length s) \<le> sint (HttpMaxSize c)" by blast
    with assms(1) g ch ops show ?thesis by (auto simp: cached_body_def)
  qed
qed

lemma get_response_client:
  assumes "get_response io c w rq = (c', w', r)"
  shows "HttpCache c' = HttpCache c \<and> HttpMaxSize c' = HttpMaxSize c \<and> HttpRetrier c' = HttpRetrier c \<and>
    (\<exists>as. breaker_steps (HttpBreaker c) as (HttpBreaker c'))"
proof -
  obtain b ok where a: "Allow (Clock io w) (HttpBreaker c) = (b, ok)" by fastforce
  then have allow: "breaker_steps (HttpBreaker c) [AAllow (Clock io w) ok] b" by simp
  have "\<exists>bs. breaker_steps b bs (HttpBreaker c')"
  proof -
    consider "HttpBreaker c' = b" | "HttpBreaker c' = RecordSuccess b" | t where "HttpBreaker c' = RecordFailure t b"
      using assms a
      by (auto simp: get_response_def ask_breaker_def record_failure_def record_success_def
          split: bool.splits prod.splits option.splits if_splits)
    then show ?thesis
    proof cases
      case 1
      then show ?thesis by (intro exI [of _ "[]"]) simp
    next
      case 2
      then show ?thesis by (intro exI [of _ "[ASuccess]"]) simp
    next
      case 3
      then show ?thesis by (intro exI [of _ "[AFailure t]"]) simp
    qed
  qed
  with allow have "\<exists>as. breaker_steps (HttpBreaker c) as (HttpBreaker c')" by (blast intro: breaker_steps_append [THEN iffD2])
  moreover have "HttpCache c' = HttpCache c \<and> HttpMaxSize c' = HttpMaxSize c \<and> HttpRetrier c' = HttpRetrier c"
    using assms a
    by (auto simp: get_response_def ask_breaker_def record_failure_def record_success_def
        split: bool.splits prod.splits option.splits if_splits)
  ultimately show ?thesis by blast
qed

text \<open>What \<open>Get\<close> and \<open>GetJSON\<close> share: they differ in the headers and in the error for a body that is too large.\<close>

definition client_get ::
  "'w http_io \<Rightarrow> (string \<times> string) list \<Rightarrow> (http_client \<Rightarrow> string \<Rightarrow> gerror) \<Rightarrow> http_client \<Rightarrow> 'w \<Rightarrow> string \<Rightarrow>
   http_client \<times> 'w \<times> (gerror + string)" where
  "client_get io hs big c w url =
     (case cached_body io c w url of
        (c, Some s) \<Rightarrow> (c, w, Inr s)
      | (c, None) \<Rightarrow>
          (case get_response io c w (get_request url hs) of
             (c, w, Inl err) \<Rightarrow> (c, w, Inl err)
           | (c, w, Inr r) \<Rightarrow>
               (case read_limited (sint (HttpMaxSize c + 1)) r of
                  Inl err \<Rightarrow> (c, w, Inl (wrap_err ''http: read body failed: %w'' [] err))
                | Inr body \<Rightarrow>
                    (if int (length body) > sint (HttpMaxSize c) then (c, w, Inl (big c body))
                     else (c\<lparr>HttpCache := cache_set (Clock io w) url (VStr body) (HttpCache c)\<rparr>, w, Inr body)))))"

lemma client_get_eqs:
  "http_Get io = client_get io []
     (\<lambda>c body. Errorf ''http: response body exceeds maximum size of %d bytes'' [VInt64 (HttpMaxSize c)])"
  "http_GetJSON io = client_get io [(''Accept'', ''application/json'')] too_large"
  by (intro ext, simp add: http_Get_def http_GetJSON_def client_get_def)+

lemma client_get_cases:
  assumes "client_get io hs big c w url = (c', w', res)"
  obtains (hit) s where "cached_body io c w url = (c', Some s)" "w' = w" "res = Inr s"
  | (error) c1 err where "cached_body io c w url = (c1, None)" "HttpCache c' = HttpCache c1"
      "fst (get_response io c1 w (get_request url hs)) = c'" "fst (snd (get_response io c1 w (get_request url hs))) = w'" "res = Inl err"
  | (fetched) c1 c2 r body where "cached_body io c w url = (c1, None)" "get_response io c1 w (get_request url hs) = (c2, w', Inr r)"
      "read_limited (sint (HttpMaxSize c2 + 1)) r = Inr body" "int (length body) \<le> sint (HttpMaxSize c2)" "res = Inr body"
      "c' = c2\<lparr>HttpCache := cache_set (Clock io w') url (VStr body) (HttpCache c2)\<rparr>"
proof -
  obtain c1 r1 where cb: "cached_body io c w url = (c1, r1)" by fastforce
  show thesis
  proof (cases r1)
    case None
    obtain c2 w2 r2 where g: "get_response io c1 w (get_request url hs) = (c2, w2, r2)" by (metis prod.exhaust)
    note same = get_response_client [OF g]
    show thesis
    proof (cases r2)
      case (Inl err)
      with assms cb None g same show thesis by (intro error) (auto simp: client_get_def)
    next
      case (Inr r)
      show thesis
      proof (cases "read_limited (sint (HttpMaxSize c2 + 1)) r")
        case (Inl err)
        with assms cb None g Inr same show thesis by (intro error) (auto simp: client_get_def)
      next
        case body: (Inr body)
        show thesis
        proof (cases "int (length body) > sint (HttpMaxSize c2)")
          case True
          with assms cb None g Inr body same show thesis by (intro error) (auto simp: client_get_def)
        next
          case False
          with assms cb None g Inr body show thesis by (intro fetched) (auto simp: client_get_def)
        qed
      qed
    qed
  next
    case (Some s)
    with assms cb show thesis by (intro hit) (auto simp: client_get_def)
  qed
qed

text \<open>What every call keeps of a client, and what it answers\<close>

definition client_step_ok :: "http_client \<Rightarrow> http_client \<Rightarrow> gerror + string \<Rightarrow> bool" where
  "client_step_ok c c' res \<longleftrightarrow> bodies_ok c' \<and> cache_steps (HttpCache c) (HttpCache c') \<and> HttpMaxSize c' = HttpMaxSize c \<and> HttpRetrier c' = HttpRetrier c \<and>
     (\<exists>as. breaker_steps (HttpBreaker c) as (HttpBreaker c')) \<and>
     (\<forall>body. res = Inr body \<longrightarrow> int (length body) \<le> sint (HttpMaxSize c))"

lemma breaker_steps_refl: "\<exists>as. breaker_steps b as b"
  by (rule exI [of _ "[]"]) simp

lemma client_get_ok:
  assumes "client_get io hs big c w url = (c', w', res)" and "bodies_ok c"
  shows "client_step_ok c c' res"
  using assms(1)
proof (cases rule: client_get_cases)
  case (hit s)
  with cached_body_ok [OF hit(1) assms(2)] breaker_steps_refl show ?thesis by (simp add: client_step_ok_def)
next
  case (error c1 err)
  note c1 = cached_body_ok [OF error(1) assms(2)]
  obtain r where g: "get_response io c1 w (get_request url hs) = (c', w', r)" using error(3,4) by (metis prod.collapse)
  have "bodies_ok c'" by (rule bodies_okI [of c1]) (use c1 get_response_client [OF g] in auto)
  with c1 get_response_client [OF g] error(5) show ?thesis by (simp add: client_step_ok_def)
next
  case (fetched c1 c2 r body)
  note c1 = cached_body_ok [OF fetched(1) assms(2)] and c2 = get_response_client [OF fetched(2)]
  have "bodies_ok c'"
  proof (rule bodies_okI [of c1])
    fix k e
    assume "fmlookup (data (HttpCache c')) k = Some e"
    then show "fmlookup (data (HttpCache c1)) k = Some e \<or> (\<exists>s. Value e = VStr s \<and> int (length s) \<le> sint (HttpMaxSize c1))"
      using fetched(4,6) c2 lru_store.put_entry [of "Clock io w'" url "VStr body" "ttl (HttpCache c2)" "HttpCache c2" k e]
      by (auto simp: cache_set_def)
  qed (use c1 c2 fetched(6) in simp_all)
  moreover have "cache_steps (HttpCache c) (HttpCache c')"
  proof (rule cache_steps_trans)
    show "cache_steps (HttpCache c1) (HttpCache c')" using c2 fetched(6) cache_steps_op(2) by (simp add: cache_set_def)
  qed (use c1 in simp)
  ultimately show ?thesis using c1 c2 fetched(4-6) by (simp add: client_step_ok_def)
qed

lemma post_response_ok:
  assumes "post_response io c x = (c', w', res)" and "bodies_ok c"
  shows "client_step_ok c c' res"
proof -
  obtain w resp err where x: "x = (w, resp, err)" by (metis prod.exhaust)
  consider "HttpBreaker c' = HttpBreaker c" | "HttpBreaker c' = RecordSuccess (HttpBreaker c)"
    | t where "HttpBreaker c' = RecordFailure t (HttpBreaker c)"
    using assms(1) x by (auto simp: post_response_def handlePostResponse_def record_failure_def record_success_def
        split: option.splits if_splits)
  then have "\<exists>as. breaker_steps (HttpBreaker c) as (HttpBreaker c')"
  proof cases
    case 2
    then show ?thesis by (intro exI [of _ "[ASuccess]"]) simp
  next
    case (3 t)
    then show ?thesis by (intro exI [of _ "[AFailure t]"]) simp
  qed (use breaker_steps_refl in simp)
  moreover have same: "HttpCache c' = HttpCache c" "HttpMaxSize c' = HttpMaxSize c" "HttpRetrier c' = HttpRetrier c"
    using assms(1) x by (auto simp: post_response_def handlePostResponse_def record_failure_def record_success_def
        split: option.splits if_splits)
  moreover have "bodies_ok c'" by (rule bodies_okI [OF assms(2) same(2)]) (simp add: same(1))
  moreover have "int (length body) \<le> sint (HttpMaxSize c)" if "res = Inr body" for body
    using assms(1) x that by (auto simp: post_response_def handlePostResponse_def split: option.splits if_splits sum.splits)
  ultimately show ?thesis by (simp add: client_step_ok_def cache_steps_refl)
qed

lemma PostWithOptions_ok:
  assumes "PostWithOptions io c w url ctype body opts = (c', w', res)" and "bodies_ok c"
  shows "client_step_ok c c' res"
proof -
  obtain b ok where a: "Allow (Clock io w) (HttpBreaker c) = (b, ok)" by fastforce
  let ?c = "c\<lparr>HttpBreaker := b\<rparr>"
  have b: "breaker_steps (HttpBreaker c) [AAllow (Clock io w) ok] b" using a by simp
  have c: "bodies_ok ?c" by (rule bodies_okI [OF assms(2)]) simp_all
  consider "c' = c" "\<exists>err. res = Inl err" | "c' = ?c" "\<exists>err. res = Inl err" | x where "post_response io ?c x = (c', w', res)"
    using assms(1) a by (auto simp: PostWithOptions_def Let_def ask_breaker_def split: if_splits bool.splits option.splits)
  then show ?thesis
  proof cases
    case 1
    with assms(2) breaker_steps_refl show ?thesis by (auto simp: client_step_ok_def cache_steps_refl)
  next
    case 2
    with c b show ?thesis by (auto simp: client_step_ok_def cache_steps_refl simp del: breaker_steps_simps)
  next
    case (3 x)
    from post_response_ok [OF this c] b show ?thesis
      unfolding client_step_ok_def using breaker_steps_append by fastforce
  qed
qed

section \<open>Runs of a client\<close>

datatype http_op = OGet string | OGetJSON string | OPost string string string "post_options option" | OClose

fun http_step :: "'w http_io \<Rightarrow> http_client \<times> 'w \<Rightarrow> http_op \<Rightarrow> (http_client \<times> 'w) \<times> (gerror + string) option" where
  "http_step io (c, w) (OGet url) = (case http_Get io c w url of (c, w, r) \<Rightarrow> ((c, w), Some r))"
| "http_step io (c, w) (OGetJSON url) = (case http_GetJSON io c w url of (c, w, r) \<Rightarrow> ((c, w), Some r))"
| "http_step io (c, w) (OPost url ctype body opts) =
     (case PostWithOptions io c w url ctype body opts of (c, w, r) \<Rightarrow> ((c, w), Some r))"
| "http_step io (c, w) OClose = ((http_Close c, w), None)"

lemma http_step_ok:
  assumes "http_step io (c, w) op = ((c', w'), out)" and "bodies_ok c"
  shows "\<exists>res. client_step_ok c c' res \<and> (out = None \<or> out = Some res)"
proof (cases op)
  case (OGet url)
  with assms client_get_ok [OF _ assms(2)] show ?thesis by (auto simp: client_get_eqs split: prod.splits)
next
  case (OGetJSON url)
  with assms client_get_ok [OF _ assms(2)] show ?thesis by (auto simp: client_get_eqs split: prod.splits)
next
  case (OPost url ctype body opts)
  with assms PostWithOptions_ok [OF _ assms(2)] show ?thesis by (auto split: prod.splits)
next
  case OClose
  then have c': "c' = http_Close c" "out = None" using assms(1) by auto
  have "bodies_ok c'" by (rule bodies_okI [OF assms(2)]) (auto simp: c' http_Close_def cache_clear_def)
  with c' show ?thesis
    using breaker_steps_refl by (intro exI [of _ "Inl breaker_open_error"]) (auto simp: client_step_ok_def http_Close_def cache_steps_op)
qed

lemma NewClient_bodies: "bodies_ok (NewClient cfg)"
  by (simp add: bodies_ok_def NewClient_def NewLRUCache_def Let_def)

text \<open>A client that a run has made of a new one\<close>

definition client_reached :: "http_client \<Rightarrow> http_client \<Rightarrow> bool" where
  "client_reached c0 c \<longleftrightarrow> bodies_ok c \<and> cache_steps (HttpCache c0) (HttpCache c) \<and> HttpMaxSize c = HttpMaxSize c0 \<and> HttpRetrier c = HttpRetrier c0 \<and>
     (\<exists>as. breaker_steps (HttpBreaker c0) as (HttpBreaker c))"

lemma client_reached_step:
  assumes "client_reached c0 c" and "http_step io (c, w) op = ((c', w'), out)"
  shows "client_reached c0 c' \<and> (\<forall>body. out = Some (Inr body) \<longrightarrow> int (length body) \<le> sint (HttpMaxSize c0))"
proof -
  from assms(1) obtain as where c: "bodies_ok c" "HttpMaxSize c = HttpMaxSize c0" "HttpRetrier c = HttpRetrier c0"
      "breaker_steps (HttpBreaker c0) as (HttpBreaker c)" "cache_steps (HttpCache c0) (HttpCache c)"
    by (auto simp: client_reached_def)
  from http_step_ok [OF assms(2) c(1)] obtain res where r: "client_step_ok c c' res" "out = None \<or> out = Some res" by blast
  from r(1) obtain bs where "breaker_steps (HttpBreaker c) bs (HttpBreaker c')" by (auto simp: client_step_ok_def)
  with c(4) have "\<exists>as. breaker_steps (HttpBreaker c0) as (HttpBreaker c')"
    by (blast intro: breaker_steps_append [THEN iffD2])
  with r c(2,3,5) show ?thesis by (auto simp: client_reached_def client_step_ok_def intro: cache_steps_trans)
qed

lemma http_run_reached:
  "client_reached (NewClient cfg) (fst (fst (run_steps (http_step io) (NewClient cfg, w) ops))) \<and>
   (\<forall>out \<in> set (snd (run_steps (http_step io) (NewClient cfg, w) ops)). \<forall>body. out = Some (Inr body) \<longrightarrow>
      int (length body) \<le> sint (HttpMaxSize (NewClient cfg)))"
proof -
  have "client_reached (NewClient cfg) (NewClient cfg)"
    using NewClient_bodies breaker_steps_refl cache_steps_refl by (simp add: client_reached_def)
  moreover have "client_reached (NewClient cfg) (fst s') \<and> (\<forall>body. out = Some (Inr body) \<longrightarrow> int (length body) \<le> sint (HttpMaxSize (NewClient cfg)))"
    if "client_reached (NewClient cfg) (fst s)" "http_step io s op = (s', out)" for s s' op out
    using client_reached_step [of "NewClient cfg" "fst s" io "snd s" op "fst s'" "snd s'" out] that by simp
  ultimately show ?thesis
    using run_steps_invariant [of "\<lambda>s. client_reached (NewClient cfg) (fst s)" ops "http_step io"
        "\<lambda>out. \<forall>body. out = Some (Inr body) \<longrightarrow> int (length body) \<le> sint (HttpMaxSize (NewClient cfg))" "(NewClient cfg, w)"]
    by simp
qed

text \<open>The requests that leave the process\<close>

definition logged_http :: "'w http_io \<Rightarrow> ('w \<times> request list) http_io" where
  "logged_http io =
     \<lparr>Clock = (\<lambda>s. Clock io (fst s)),
      RoundTrip = (\<lambda>s rq. case RoundTrip io (fst s) rq of (w, r) \<Rightarrow> ((w, snd s @ [rq]), r)),
      Pause = (\<lambda>s d. case Pause io (fst s) d of (w, e) \<Rightarrow> ((w, snd s), e)), CheckURL = CheckURL io\<rparr>"

lemma do_request_logged:
  "do_request (logged_http io) rq (w, l) = ((w', l'), r) \<Longrightarrow> \<exists>k \<le> 1. l' = l @ replicate k rq"
  by (auto simp: do_request_def logged_http_def split: option.splits prod.splits sum.splits
      intro: exI [of _ 0] exI [of _ "Suc 0"])

lemma retry_logged:
  "retry_loop cfg (do_request (logged_http io) rq) (Pause (logged_http io)) n b lr le (w, l) = ((w', l'), r) \<Longrightarrow>
   \<exists>k \<le> n. l' = l @ replicate k rq"
proof (induction n arbitrary: b lr le w l)
  case (Suc n)
  obtain w1 l1 resp err where f: "do_request (logged_http io) rq (w, l) = ((w1, l1), resp, err)" by (metis prod.exhaust)
  obtain j where j: "j \<le> 1" "l1 = l @ replicate j rq" using do_request_logged [OF f] by blast
  obtain w2 e where p: "Pause (logged_http io) (w1, l1) b = ((w2, l1), e)"
    by (cases "Pause io w1 b") (auto simp: logged_http_def)
  have more: "\<exists>k \<le> Suc n. l' = l @ replicate k rq"
    if "retry_loop cfg (do_request (logged_http io) rq) (Pause (logged_http io)) n (next_backoff cfg b) resp err (w2, l1) = ((w', l'), r)"
  proof -
    from Suc.IH [OF that] obtain k where "k \<le> n" "l' = l1 @ replicate k rq" by blast
    with j show ?thesis by (intro exI [of _ "j + k"]) (simp add: replicate_add)
  qed
  have stop: "\<exists>k \<le> Suc n. l' = l @ replicate k rq" if "l' = l1" using j that by (intro exI [of _ j]) simp
  show ?case using Suc.prems f p more stop by (auto split: if_splits option.splits)
qed simp

lemma retry_do_logged:
  "retry_do cfg (do_request (logged_http io) rq) (Pause (logged_http io)) (w, l) = ((w', l'), r) \<Longrightarrow>
   \<exists>k \<le> nat (sint (MaxRetries cfg)). l' = l @ replicate k rq"
  unfolding retry_do_def by (rule retry_logged)

fun request_of :: "http_op \<Rightarrow> request" where
  "request_of (OGet url) = get_request url []"
| "request_of (OGetJSON url) = get_request url [(''Accept'', ''application/json'')]"
| "request_of (OPost url ctype body opts) =
     post_request url ctype body (case opts of None \<Rightarrow> no_post_options | Some o' \<Rightarrow> o')"
| "request_of OClose = get_request [] []"

fun max_requests :: "http_client \<Rightarrow> http_op \<Rightarrow> nat" where
  "max_requests c (OPost url ctype body opts) =
     (case opts of
        None \<Rightarrow> 1
      | Some opts \<Rightarrow>
          if \<not> AllowRetries opts then 1
          else if IdempotencyKey opts = [] \<and> \<not> IdempotentVerbOverride opts then 0
          else nat (sint (MaxRetries (HttpRetrier c))))"
| "max_requests c OClose = 0"
| "max_requests c _ = nat (sint (MaxRetries (HttpRetrier c)))"

definition breaker_blocks :: "gtime \<Rightarrow> breaker \<Rightarrow> bool" where
  "breaker_blocks now b \<longleftrightarrow> state b = StateOpen \<and> since now (lastFailureTime b) \<le> sint (openTimeout b)"

text \<open>The cache has an answer to the call.\<close>

fun cache_answers :: "gtime \<Rightarrow> http_client \<Rightarrow> http_op \<Rightarrow> bool" where
  "cache_answers now c (OGet url) = (case fmlookup (data (HttpCache c)) url of None \<Rightarrow> False | Some e \<Rightarrow> now \<le> Expiry e)"
| "cache_answers now c (OGetJSON url) = (case fmlookup (data (HttpCache c)) url of None \<Rightarrow> False | Some e \<Rightarrow> now \<le> Expiry e)"
| "cache_answers now c op = False"

lemma cached_hit:
  assumes "bodies_ok c" and "fmlookup (data (HttpCache c)) url = Some e" and "Clock io w \<le> Expiry e"
  shows "\<exists>c' body. cached_body io c w url = (c', Some body) \<and> Value e = VStr body"
proof -
  obtain body where "Value e = VStr body" using assms(1,2) by (auto simp: bodies_ok_def)
  with assms(2,3) show ?thesis by (simp add: cached_body_def cache_get_def)
qed

lemma client_get_hit:
  assumes "bodies_ok c" and "fmlookup (data (HttpCache c)) url = Some e" and "Clock io w \<le> Expiry e"
    and "client_get io hs big c w url = (c', w', r)"
  shows "w' = w \<and> (\<exists>body. r = Inr body \<and> Value e = VStr body)"
  using cached_hit [OF assms(1-3)] assms(4) by (auto simp: client_get_def)

lemma blocked_Allow: "breaker_blocks now b \<Longrightarrow> Allow now b = (b, False)"
  by (simp add: breaker_blocks_def Allow_def)

lemma logged_Clock [simp]: "Clock (logged_http io) (w, l) = Clock io w"
  by (simp add: logged_http_def)

lemma get_response_logged:
  assumes "get_response (logged_http io) c (w, l) rq = (c', (w', l'), r)"
  shows "\<exists>k. l' = l @ replicate k rq \<and> k \<le> nat (sint (MaxRetries (HttpRetrier c))) \<and>
    (breaker_blocks (Clock io w) (HttpBreaker c) \<longrightarrow> k = 0)"
proof -
  obtain b ok where a: "Allow (Clock io w) (HttpBreaker c) = (b, ok)" by fastforce
  show ?thesis
  proof (cases ok)
    case True
    obtain w1 l1 res where d: "retry_do (HttpRetrier c) (do_request (logged_http io) rq) (Pause (logged_http io)) (w, l) = ((w1, l1), res)"
      by (metis prod.exhaust)
    have "l' = l1" using assms a True d
      by (auto simp: get_response_def ask_breaker_def split: prod.splits option.splits if_splits)
    moreover have "\<not> breaker_blocks (Clock io w) (HttpBreaker c)" using a True blocked_Allow by force
    ultimately show ?thesis using retry_do_logged [OF d] by auto
  next
    case False
    with assms a show ?thesis by (auto simp: get_response_def ask_breaker_def intro: exI [of _ 0])
  qed
qed

lemma client_get_logged:
  assumes "client_get (logged_http io) hs big c (w, l) url = (c', (w', l'), r)" and "bodies_ok c"
  shows "\<exists>k. l' = l @ replicate k (get_request url hs) \<and> k \<le> nat (sint (MaxRetries (HttpRetrier c))) \<and>
    (breaker_blocks (Clock io w) (HttpBreaker c) \<longrightarrow> k = 0)"
  using assms(1)
proof (cases rule: client_get_cases)
  case (hit s)
  then show ?thesis by (intro exI [of _ 0]) simp
next
  case (error c1 err)
  then obtain r1 where "get_response (logged_http io) c1 (w, l) (get_request url hs) = (c', (w', l'), r1)" by (metis prod.collapse)
  from get_response_logged [OF this] cached_body_ok [OF error(1) assms(2)] show ?thesis by simp
next
  case (fetched c1 c2 r body)
  from get_response_logged [OF fetched(2)] cached_body_ok [OF fetched(1) assms(2)] show ?thesis by simp
qed

lemma post_response_world: "post_response io c (w, x) = (c', w', r) \<Longrightarrow> w' = w"
  by (cases x) (auto simp: post_response_def handlePostResponse_def split: option.splits if_splits)

lemma PostWithOptions_logged:
  assumes "PostWithOptions (logged_http io) c (w, l) url ctype body opts = (c', (w', l'), r)"
  shows "\<exists>k. l' = l @ replicate k (request_of (OPost url ctype body opts)) \<and> k \<le> max_requests c (OPost url ctype body opts) \<and>
    (breaker_blocks (Clock io w) (HttpBreaker c) \<longrightarrow> k = 0)"
proof -
  define os where "os = (case opts of None \<Rightarrow> no_post_options | Some o' \<Rightarrow> o')"
  let ?rq = "post_request url ctype body os"
  have rq: "request_of (OPost url ctype body opts) = ?rq" by (simp add: os_def)
  obtain b ok where a: "Allow (Clock io w) (HttpBreaker c) = (b, ok)" by fastforce
  show ?thesis
  proof (cases "(AllowRetries os \<and> IdempotencyKey os = [] \<and> \<not> IdempotentVerbOverride os) \<or> \<not> ok")
    case True
    then have "l' = l" using assms a by (auto simp: PostWithOptions_def Let_def ask_breaker_def simp flip: os_def split: if_splits)
    then show ?thesis by (intro exI [of _ 0]) simp
  next
    case False
    then have nb: "\<not> breaker_blocks (Clock io w) (HttpBreaker c)" using a blocked_Allow by force
    show ?thesis
    proof (cases "AllowRetries os")
      case True
      obtain w1 l1 res where d: "retry_do (HttpRetrier c) (do_request (logged_http io) ?rq) (Pause (logged_http io)) (w, l) = ((w1, l1), res)"
        by (metis prod.exhaust)
      have "post_response (logged_http io) (c\<lparr>HttpBreaker := b\<rparr>) ((w1, l1), res) = (c', (w', l'), r)"
        using assms a False True d
        by (auto simp: PostWithOptions_def Let_def ask_breaker_def simp flip: os_def split: if_splits)
      from post_response_world [OF this] have "l' = l1" by simp
      moreover have "max_requests c (OPost url ctype body opts) = nat (sint (MaxRetries (HttpRetrier c)))"
        using True False by (auto simp: os_def split: option.splits)
      ultimately show ?thesis using retry_do_logged [OF d] nb unfolding rq by auto
    next
      case noretry: False
      obtain w1 l1 res where d: "do_request (logged_http io) ?rq (w, l) = ((w1, l1), res)" by (metis prod.exhaust)
      have one: "max_requests c (OPost url ctype body opts) = 1" using noretry by (auto simp: os_def split: option.splits)
      have "l' = l \<or> post_response (logged_http io) (c\<lparr>HttpBreaker := b\<rparr>) ((w1, l1), res) = (c', (w', l'), r)"
        using assms a False noretry d
        by (auto simp: PostWithOptions_def Let_def ask_breaker_def simp flip: os_def split: option.splits)
      then have "l' = l \<or> l' = l1" using post_response_world by (metis prod.inject)
      with do_request_logged [OF d] nb show ?thesis unfolding rq one by (auto intro: exI [of _ 0])
    qed
  qed
qed

text \<open>A server that answers every request with an empty object, after a nanosecond\<close>

definition sample_http :: "int http_io" where
  "sample_http =
     \<lparr>Clock = (\<lambda>w. w), RoundTrip = (\<lambda>w rq. (w + 1, Inr \<lparr>StatusCode = 200, Content = ''{}'', ReadError = None\<rparr>)),
      Pause = (\<lambda>w d. (w + sint d, None)), CheckURL = (\<lambda>u. None)\<rparr>"

section \<open>Properties\<close>

text \<open>C22: whatever is asked of a new client and whatever the server does, the client keeps the size limit, the
  retry limits, the size and time to live of its cache and the limits of its breaker; the list and the map of
  its cache agree and hold no more entries than allowed, every cached body and every body it returns is within
  the size limit, and its breaker is in a state that a breaker reaches by its own operations, with counts in
  order.\<close>

theorem http_client_invariant:
  assumes "run_steps (http_step io) (NewClient cfg, w) ops = ((c, w'), outs)"
  shows "HttpMaxSize c = HttpMaxSize (NewClient cfg) \<and> HttpRetrier c = HttpRetrier (NewClient cfg) \<and>
    cache_ok (HttpCache c) \<and> maxSize (HttpCache c) = maxSize (HttpCache (NewClient cfg)) \<and>
    ttl (HttpCache c) = ttl (HttpCache (NewClient cfg)) \<and> bodies_ok c \<and>
    (\<forall>body. Some (Inr body) \<in> set outs \<longrightarrow> int (length body) \<le> sint (HttpMaxSize c)) \<and>
    (\<exists>as. breaker_steps (HttpBreaker (NewClient cfg)) as (HttpBreaker c)) \<and>
    breaker_ok (HttpBreaker c) \<and> same_limits (HttpBreaker c) (HttpBreaker (NewClient cfg))"
proof -
  have c: "client_reached (NewClient cfg) c"
    and bodies: "\<forall>body. Some (Inr body) \<in> set outs \<longrightarrow> int (length body) \<le> sint (HttpMaxSize (NewClient cfg))"
    using http_run_reached [of cfg io w ops] assms by auto
  have "cache_ok (HttpCache (NewClient cfg))" "breaker_ok (HttpBreaker (NewClient cfg))"
    by (simp_all add: NewClient_def Let_def NewLRUCache_ok NewCircuitBreaker_ok)
  with c bodies cache_steps_ok breaker_steps_ok breaker_steps_limits show ?thesis
    by (auto simp: client_reached_def)
qed

theorem http_client_invariant_witness:
  "\<exists>c w' outs. run_steps (http_step sample_http) (NewClient None, 0) [OGet ''u'', OClose] = ((c, w'), outs) \<and> bodies_ok c"
proof -
  obtain c w' outs where run: "run_steps (http_step sample_http) (NewClient None, 0) [OGet ''u'', OClose] = ((c, w'), outs)"
    by (metis prod.exhaust)
  from http_client_invariant [OF run] run show ?thesis by blast
qed



text \<open>A body that was fetched is what the next call for the same URL answers, of \<open>Get\<close> as of \<open>GetJSON\<close>,
  until it expires, without a request and without asking the breaker.\<close>

theorem http_get_again:
  assumes "cached_body io c w url = (c1, None)"
    and "http_Get io c w url = (c', w', Inr body) \<or> http_GetJSON io c w url = (c', w', Inr body)"
    and "Clock io v \<le> Clock io w' + sint (ttl (HttpCache c'))"
  shows "\<exists>c2. http_Get io c' v url = (c2, v, Inr body) \<and> http_GetJSON io c' v url = (c2, v, Inr body) \<and>
    HttpBreaker c2 = HttpBreaker c'"
proof -
  obtain hs big where "client_get io hs big c w url = (c', w', Inr body)"
    using assms(2) unfolding client_get_eqs by blast
  then have "\<exists>ch. HttpCache c' = cache_set (Clock io w') url (VStr body) ch"
  proof (cases rule: client_get_cases)
    case (fetched c1 c2 r b)
    then show ?thesis by auto
  qed (use assms(1) in auto)
  then obtain ch where ch: "HttpCache c' = cache_set (Clock io w') url (VStr body) ch" by (rule exE)
  have "fmlookup (data (HttpCache c')) url = Some \<lparr>Value = VStr body, Expiry = Clock io w' + sint (ttl (HttpCache c'))\<rparr>"
    unfolding ch cache_ttl(3) by (rule cache_set_here)
  with assms(3) have "cached_body io c' v url = (c'\<lparr>HttpCache := move_to_front url (HttpCache c')\<rparr>, Some body)"
    by (simp add: cached_body_def cache_get_def)
  then show ?thesis by (simp add: client_get_eqs client_get_def)
qed

theorem http_get_again_witness:
  "\<exists>c2. http_GetJSON sample_http (fst (http_Get sample_http (NewClient None) 0 ''u'')) 7 ''u'' = (c2, 7, Inr ''{}'')"
proof -
  let ?r = "http_Get sample_http (NewClient None) 0 ''u''"
  have miss: "cached_body sample_http (NewClient None) 0 ''u'' = (NewClient None, None)"
    by (simp add: cached_body_def cache_get_def NewClient_def NewLRUCache_def Let_def)
  have "snd ?r = (1, Inr ''{}'')" by code_simp
  then have get: "?r = (fst ?r, 1, Inr ''{}'')" by (metis prod.collapse)
  have "Clock sample_http 7 \<le> Clock sample_http 1 + sint (ttl (HttpCache (fst ?r)))" by code_simp
  from http_get_again [OF miss disjI1 [OF get] this] show ?thesis by blast
qed

end
