(* ===== verification/Http_Enrich.thy ===== *)
theory Http_Enrich
  imports Http Go_Regexp
begin

text \<open>
  The transform \<open>enrich.http\<close> of \<open>internal/enrichment/http/enrichment.go\<close>: URL and body templates, the
  configuration, \<open>Execute\<close> over the client of the theory \<open>Http\<close>, and the registration. The pattern of the
  placeholders is translated to a matcher, so that templates are evaluated here.
\<close>

section \<open>Templates\<close>

definition is_word_char :: "char \<Rightarrow> bool" where
  "is_word_char c = (is_digit c \<or> is_upper c \<or> is_lower c \<or> c = CHR ''_'')"

text \<open>The length of a match of \<open>\{\{\.\w+\}\}\<close> at the start of a string\<close>

definition placeholder_length :: "string \<Rightarrow> nat option" where
  "placeholder_length s =
     (if take 3 s = ''{{.'' then
        (let n = length (takeWhile is_word_char (drop 3 s))
         in if n > 0 \<and> take 2 (drop (3 + n) s) = ''}}'' then Some (n + 5) else None)
      else None)"

definition placeholder_exec :: "string \<Rightarrow> nat \<Rightarrow> (nat \<times> nat) option" where
  "placeholder_exec s p =
     map_option (\<lambda>a. (a, a + the (placeholder_length (drop a s))))
       (find (\<lambda>a. placeholder_length (drop a s) \<noteq> None) [p..<length s])"

definition tplVarRe :: regex where
  "tplVarRe = \<lparr>rx_exec = placeholder_exec, rx_expand = (\<lambda>template s p. [])\<rparr>"

definition placeholder_field :: "string \<Rightarrow> string" where
  "placeholder_field m = drop 3 (take (length m - 2) m)"

definition interpolateTemplate :: "renderer \<Rightarrow> string \<Rightarrow> event \<Rightarrow> gerror + string" where
  "interpolateTemplate r template ev =
     (let missing = filter (\<lambda>f. GetField ev f = None) (map placeholder_field (FindAllString tplVarRe template));
          result = ReplaceAllStringFunc tplVarRe template
            (\<lambda>m. case GetField ev (placeholder_field m) of None \<Rightarrow> m | Some v \<Rightarrow> fmt_v r v)
      in if missing \<noteq> [] then
           Inl (Errorf ''template interpolation failed: placeholder fields not found in event: %v''
                  [VTyped ''[]string'' (Some (map VStr missing))])
         else Inr result)"

section \<open>The transform\<close>

record http_enrich_config =
  EnrichURL :: string
  EnrichMethod :: string
  EnrichBody :: string
  EnrichTimeout :: "64 word"
  EnrichTargetField :: string
  EnrichCacheTTL :: "64 word"
  EnrichDropOnError :: bool

text \<open>\<open>unmarshal\<close> is \<open>json.Unmarshal\<close> into a configuration that has the defaults.\<close>

definition http_enrich_Configure ::
  "(http_enrich_config \<Rightarrow> http_enrich_config unmarshal) \<Rightarrow> string \<Rightarrow> gerror + http_enrich_config" where
  "http_enrich_Configure unmarshal raw =
     (case unmarshal \<lparr>EnrichURL = [], EnrichMethod = ''GET'', EnrichBody = [], EnrichTimeout = 10 * time_second,
              EnrichTargetField = [], EnrichCacheTTL = minutes 5, EnrichDropOnError = False\<rparr> raw of
        Inl err \<Rightarrow> Inl (wrap_err ''enrich.http configure: %w'' [] err)
      | Inr cfg \<Rightarrow>
          if EnrichURL cfg = [] then Inl (Errorf ''enrich.http configure: url required'' [])
          else if EnrichTargetField cfg = [] then Inl (Errorf ''enrich.http configure: target_field required'' [])
          else if EnrichMethod cfg \<noteq> ''GET'' \<and> EnrichMethod cfg \<noteq> ''POST'' then
            Inl (Errorf ''enrich.http configure: method must be GET or POST, got: %s'' [VStr (EnrichMethod cfg)])
          else Inr cfg)"

text \<open>An error of a step of \<open>Execute\<close>: dropped when so configured, else wrapped\<close>

definition or_drop :: "bool \<Rightarrow> string \<Rightarrow> gerror \<Rightarrow> gerror" where
  "or_drop d msg err = (case err of ErrPanic p \<Rightarrow> ErrPanic p | _ \<Rightarrow> if d then ErrDrop else wrap_err msg [] err)"

text \<open>The end of \<open>Execute\<close>: \<open>parse_json\<close> is \<open>json.Unmarshal\<close> into an interface value.\<close>

definition enrich_finish ::
  "(string \<Rightarrow> gerror + gval) \<Rightarrow> http_enrich_config \<Rightarrow> event \<Rightarrow> gerror + string \<Rightarrow> gerror + item" where
  "enrich_finish parse_json cfg ev body =
     (case body of
        Inl err \<Rightarrow> Inl (or_drop (EnrichDropOnError cfg) ''enrich.http execute: %w'' err)
      | Inr b \<Rightarrow>
          (case parse_json b of
             Inl err \<Rightarrow> Inl (or_drop (EnrichDropOnError cfg) ''enrich.http: json parse failed: %w'' err)
           | Inr result \<Rightarrow> Inr (IEvent (SetField ev (EnrichTargetField cfg) result))))"

text \<open>
  \<open>Execute\<close> with the client and the world it acts on. \<open>with_timeout\<close> is the world in which the context ends
  after the configured timeout.
\<close>

definition http_enrich_event ::
  "('w \<Rightarrow> 64 word \<Rightarrow> 'w) \<Rightarrow> 'w http_io \<Rightarrow> (string \<Rightarrow> gerror + gval) \<Rightarrow> renderer \<Rightarrow> http_enrich_config \<Rightarrow>
   http_client \<times> 'w \<Rightarrow> event \<Rightarrow> (http_client \<times> 'w) \<times> (gerror + item)" where
  "http_enrich_event with_timeout io parse_json r cfg s ev =
     (case interpolateTemplate r (EnrichURL cfg) ev of
        Inl err \<Rightarrow> (s, Inl (or_drop (EnrichDropOnError cfg) ''enrich.http: %w'' err))
      | Inr url \<Rightarrow>
          (let c = fst s; w = with_timeout (snd s) (EnrichTimeout cfg)
           in if EnrichMethod cfg = ''POST'' then
                (case (if EnrichBody cfg \<noteq> [] then interpolateTemplate r (EnrichBody cfg) ev else Inr []) of
                   Inl err \<Rightarrow> ((c, w), Inl (or_drop (EnrichDropOnError cfg) ''enrich.http: body interpolation failed: %w'' err))
                 | Inr requestBody \<Rightarrow>
                     (case Post io c w url ''application/json'' requestBody of
                        (c', w', body) \<Rightarrow> ((c', w'), enrich_finish parse_json cfg ev body)))
              else
                (case http_GetJSON io c w url of
                   (c', w', body) \<Rightarrow> ((c', w'), enrich_finish parse_json cfg ev body))))"

definition http_enrich_Execute ::
  "('w \<Rightarrow> 64 word \<Rightarrow> 'w) \<Rightarrow> 'w http_io \<Rightarrow> (string \<Rightarrow> gerror + gval) \<Rightarrow> renderer \<Rightarrow> http_enrich_config option \<Rightarrow>
   http_client \<times> 'w \<Rightarrow> item \<Rightarrow> (http_client \<times> 'w) \<times> (gerror + item)" where
  "http_enrich_Execute with_timeout io parse_json r config s x =
     (case config of
        None \<Rightarrow> (s, Inl (Errorf ''enrich.http: not configured'' []))
      | Some cfg \<Rightarrow>
          (case x of
             IEvent ev \<Rightarrow> http_enrich_event with_timeout io parse_json r cfg s ev
           | _ \<Rightarrow> (s, Inl (Errorf ''enrich.http: payload is not an event'' []))))"

definition http_enrich_factory ::
  "('w \<Rightarrow> 64 word \<Rightarrow> 'w) \<Rightarrow> 'w http_io \<Rightarrow> (string \<Rightarrow> gerror + gval) \<Rightarrow> renderer \<Rightarrow>
   (http_enrich_config \<Rightarrow> http_enrich_config unmarshal) \<Rightarrow> (http_client \<times> 'w) factory" where
  "http_enrich_factory with_timeout io parse_json r unmarshal raw =
     bind_res (http_enrich_Configure unmarshal raw) (\<lambda>cfg. Inr
       \<lparr>Name = ''enrich.http'', Exec = http_enrich_Execute with_timeout io parse_json r (Some cfg)\<rparr>)"

text \<open>The client all transforms of the registration share, and the registry with it\<close>

definition RegisterHTTPEnrichment ::
  "('w \<Rightarrow> 64 word \<Rightarrow> 'w) \<Rightarrow> 'w http_io \<Rightarrow> (string \<Rightarrow> gerror + gval) \<Rightarrow> renderer \<Rightarrow>
   (http_enrich_config \<Rightarrow> http_enrich_config unmarshal) \<Rightarrow> enrichment_config \<Rightarrow> (http_client \<times> 'w) registry \<Rightarrow>
   gerror + http_client \<times> (http_client \<times> 'w) registry" where
  "RegisterHTTPEnrichment with_timeout io parse_json r unmarshal cfg reg =
     (let h = HTTP cfg
      in case (if DefaultTimeout h \<noteq> [] then ParseDuration (DefaultTimeout h) else Inr (sint (10 * time_second))) of
           Inl err \<Rightarrow> Inl (wrap_err ''invalid default_timeout duration: %w'' [] err)
         | Inr timeout \<Rightarrow> Inr
             (NewClient (Some
                \<lparr>ClientTimeout = of_int timeout, ClientMaxIdle = of_int (HTTPMaxIdleConns h),
                 ClientMaxConns = of_int (MaxConnsPerHost h), ClientCacheTTL = minutes 5, ClientCacheSize = 1000,
                 ClientMaxRetries = 3, CircuitOpenTime = 30 * time_second, ClientFailureThreshold = 5,
                 ClientSuccessThreshold = 2, ClientMaxResponseSize = of_int (MaxResponseSize h)\<rparr>),
              Register ''enrich.http'' (http_enrich_factory with_timeout io parse_json r unmarshal) reg))"

section \<open>What a template becomes\<close>

text \<open>The templates read from left to right: what is substituted, and the placeholders\<close>

lemma placeholder_length_bounds: "placeholder_length s = Some n \<Longrightarrow> 6 \<le> n \<and> n \<le> length s"
proof -
  assume p: "placeholder_length s = Some n"
  define k where "k = length (takeWhile is_word_char (drop 3 s))"
  have k: "n = k + 5" "0 < k" "take 2 (drop (3 + k) s) = ''}}''"
    using p by (auto simp: placeholder_length_def Let_def k_def split: if_splits)
  have "length (take 2 (drop (3 + k) s)) = 2" using k(3) by simp
  with k(1,2) show ?thesis by simp
qed

function tpl_subst :: "(string \<Rightarrow> string) \<Rightarrow> string \<Rightarrow> string" where
  "tpl_subst f s =
     (case placeholder_length s of
        Some n \<Rightarrow> f (take n s) @ tpl_subst f (drop n s)
      | None \<Rightarrow> (case s of [] \<Rightarrow> [] | c # t \<Rightarrow> c # tpl_subst f t))"
  by auto
termination by (relation "measure (\<lambda>(f, s). length s)") (auto dest: placeholder_length_bounds)

function tpl_matches :: "string \<Rightarrow> string list" where
  "tpl_matches s =
     (case placeholder_length s of
        Some n \<Rightarrow> take n s # tpl_matches (drop n s)
      | None \<Rightarrow> (case s of [] \<Rightarrow> [] | c # t \<Rightarrow> tpl_matches t))"
  by auto
termination by (relation "measure length") (auto dest: placeholder_length_bounds)

declare tpl_subst.simps [simp del] tpl_matches.simps [simp del]

lemma tpl_skip_subst:
  assumes "p \<le> a" and "a \<le> length s" and "\<forall>j. p \<le> j \<and> j < a \<longrightarrow> placeholder_length (drop j s) = None"
  shows "tpl_subst f (drop p s) = substr s p a @ tpl_subst f (drop a s)"
  using assms
proof (induction "a - p" arbitrary: p)
  case (Suc n)
  then have "p < a" by simp
  then have d: "drop p s = s ! p # drop (Suc p) s" using Suc.prems by (simp add: Cons_nth_drop_Suc)
  have "substr s p a = s ! p # substr s (Suc p) a"
    using \<open>p < a\<close> Suc.prems Cons_nth_drop_Suc [of p "take a s"] by (simp add: substr_def)
  moreover have "tpl_subst f (drop (Suc p) s) = substr s (Suc p) a @ tpl_subst f (drop a s)"
    using Suc.hyps(1) [of "Suc p"] Suc.hyps(2) Suc.prems \<open>p < a\<close> by simp
  moreover have "placeholder_length (drop p s) = None" using Suc.prems \<open>p < a\<close> by simp
  ultimately show ?case by (subst tpl_subst.simps) (simp add: d)
qed (simp_all add: substr_def)

lemma tpl_skip_matches:
  assumes "p \<le> a" and "a \<le> length s" and "\<forall>j. p \<le> j \<and> j < a \<longrightarrow> placeholder_length (drop j s) = None"
  shows "tpl_matches (drop p s) = tpl_matches (drop a s)"
  using assms
proof (induction "a - p" arbitrary: p)
  case (Suc n)
  then have "p < a" by simp
  then have d: "drop p s = s ! p # drop (Suc p) s" using Suc.prems by (simp add: Cons_nth_drop_Suc)
  have "tpl_matches (drop (Suc p) s) = tpl_matches (drop a s)"
    using Suc.hyps(1) [of "Suc p"] Suc.hyps(2) Suc.prems \<open>p < a\<close> by simp
  moreover have "placeholder_length (drop p s) = None" using Suc.prems \<open>p < a\<close> by simp
  ultimately show ?case by (subst tpl_matches.simps) (simp add: d)
qed (simp_all add: substr_def)

lemma placeholder_exec_None:
  assumes "placeholder_exec s p = None" and "p \<le> length s"
  shows "tpl_subst f (drop p s) = drop p s" and "tpl_matches (drop p s) = []"
proof -
  have none: "\<forall>j. p \<le> j \<and> j < length s \<longrightarrow> placeholder_length (drop j s) = None"
    using assms(1) by (auto simp: placeholder_exec_def find_None_iff)
  have "placeholder_length [] = None" by (simp add: placeholder_length_def)
  then show "tpl_subst f (drop p s) = drop p s" "tpl_matches (drop p s) = []"
    using tpl_skip_subst [OF assms(2) order_refl none] tpl_skip_matches [OF assms(2) order_refl none]
    by (simp_all add: substr_def tpl_subst.simps [of f "[]"] tpl_matches.simps [of "[]"])
qed

lemma placeholder_exec_Some:
  assumes "placeholder_exec s p = Some (a, b)"
  obtains n where "placeholder_length (drop a s) = Some n" "b = a + n" "p \<le> a" "a + 6 \<le> b" "b \<le> length s"
    "\<And>f. tpl_subst f (drop p s) = substr s p a @ f (substr s a b) @ tpl_subst f (drop b s)"
    "tpl_matches (drop p s) = substr s a b # tpl_matches (drop b s)"
proof -
  from assms obtain i where i: "i < length s - p" "a = p + i" "placeholder_length (drop a s) \<noteq> None"
      "b = a + the (placeholder_length (drop a s))" "\<forall>j < i. placeholder_length (drop (p + j) s) = None"
    by (auto simp: placeholder_exec_def find_Some_iff)
  then obtain n where n: "placeholder_length (drop a s) = Some n" "b = a + n" by auto
  have bounds: "6 \<le> n" "n \<le> length s - a" using placeholder_length_bounds [OF n(1)] by simp_all
  have none: "\<forall>j. p \<le> j \<and> j < a \<longrightarrow> placeholder_length (drop j s) = None"
  proof (intro allI impI)
    fix j
    assume "p \<le> j \<and> j < a"
    with i(2,5) have "placeholder_length (drop (p + (j - p)) s) = None" by (metis less_diff_conv2 add.commute)
    with \<open>p \<le> j \<and> j < a\<close> show "placeholder_length (drop j s) = None" by simp
  qed
  have le: "p \<le> a" "a \<le> length s" using i(1,2) by simp_all
  have sub: "substr s a b = take n (drop a s)" by (simp add: substr_def n(2) drop_take)
  show thesis
  proof (rule that [OF n])
    show "p \<le> a" "a + 6 \<le> b" "b \<le> length s" using le bounds n(2) by linarith+
    show "tpl_subst f (drop p s) = substr s p a @ f (substr s a b) @ tpl_subst f (drop b s)" for f
      unfolding tpl_skip_subst [OF le none] using n sub by (subst tpl_subst.simps) (simp add: add.commute)
    show "tpl_matches (drop p s) = substr s a b # tpl_matches (drop b s)"
      unfolding tpl_skip_matches [OF le none] using n sub by (subst tpl_matches.simps) (simp add: add.commute)
  qed
qed

lemma decode_rune_width_le: "snd (decode_rune s) \<le> 4"
  by (simp add: decode_rune_def Let_def)

lemma replace_placeholders:
  "p \<le> length s \<Longrightarrow> replace_all tplVarRe s (\<lambda>pos a b. f (substr s a b)) p p = tpl_subst f (drop p s)"
proof (induction "length s - p" arbitrary: p rule: less_induct)
  case less
  show ?case
  proof (cases "placeholder_exec s p")
    case None
    with less.prems placeholder_exec_None(1) [OF None less.prems] show ?thesis
      by (subst replace_all.simps) (simp add: tplVarRe_def)
  next
    case (Some ab)
    obtain a b where ab: "ab = (a, b)" by fastforce
    from placeholder_exec_Some [OF Some [unfolded ab]] obtain
      le: "p \<le> a" "a + 6 \<le> b" "b \<le> length s"
      and sub: "tpl_subst f (drop p s) = substr s p a @ f (substr s a b) @ tpl_subst f (drop b s)" by metis
    have "snd (decode_rune (drop p s)) \<le> 4" by (rule decode_rune_width_le)
    then have adv: "max (if p < length s then p + snd (decode_rune (drop p s)) else p + 1) b = b" using le by simp
    have "replace_all tplVarRe s (\<lambda>pos a b. f (substr s a b)) b b = tpl_subst f (drop b s)"
      using less.hyps [of b] le by simp
    then show ?thesis
      using less.prems le Some ab adv unfolding sub
      by (subst replace_all.simps) (simp add: tplVarRe_def Let_def)
  qed
qed

lemma find_placeholders:
  "p \<le> length s \<Longrightarrow> map (\<lambda>(q, a, b). substr s a b) (all_matches tplVarRe s prev p) = tpl_matches (drop p s)"
proof (induction "length s - p" arbitrary: p prev rule: less_induct)
  case less
  show ?case
  proof (cases "placeholder_exec s p")
    case None
    with less.prems placeholder_exec_None(2) [OF None less.prems] show ?thesis
      by (subst all_matches.simps) (simp add: tplVarRe_def)
  next
    case (Some ab)
    obtain a b where ab: "ab = (a, b)" by fastforce
    from placeholder_exec_Some [OF Some [unfolded ab]] obtain
      le: "p \<le> a" "a + 6 \<le> b" "b \<le> length s"
      and m: "tpl_matches (drop p s) = substr s a b # tpl_matches (drop b s)" by metis
    have "map (\<lambda>(q, a, b). substr s a b) (all_matches tplVarRe s (Some b) b) = tpl_matches (drop b s)"
      using less.hyps [of b] le by simp
    then show ?thesis
      using less.prems le Some ab unfolding m by (subst all_matches.simps) (simp add: tplVarRe_def)
  qed
qed

text \<open>Templates in parts: text without an opening brace, and placeholders\<close>

datatype tpl_part = Lit string | Var string

fun render_part :: "tpl_part \<Rightarrow> string" where
  "render_part (Lit s) = s"
| "render_part (Var v) = ''{{.'' @ v @ ''}}''"

definition render_template :: "tpl_part list \<Rightarrow> string" where
  "render_template ps = concat (map render_part ps)"

fun part_ok :: "tpl_part \<Rightarrow> bool" where
  "part_ok (Lit s) = (CHR ''{'' \<notin> set s)"
| "part_ok (Var v) = (v \<noteq> [] \<and> list_all is_word_char v)"

fun part_vars :: "tpl_part \<Rightarrow> string list" where
  "part_vars (Lit s) = []"
| "part_vars (Var v) = [v]"

lemma placeholder_length_Var:
  assumes "v \<noteq> []" and "list_all is_word_char v"
  shows "placeholder_length (render_part (Var v) @ rest) = Some (length v + 5)"
proof -
  have "\<not> is_word_char (CHR ''}'')" by code_simp
  moreover have "takeWhile is_word_char (v @ ''}}'' @ rest) = v @ takeWhile is_word_char (''}}'' @ rest)"
    using assms(2) by (intro takeWhile_append2) (simp add: list_all_iff)
  moreover have "drop (3 + length v) (CHR ''{'' # CHR ''{'' # CHR ''.'' # v @ CHR ''}'' # CHR ''}'' # rest) = ''}}'' @ rest"
    by (simp add: numeral_3_eq_3)
  ultimately show ?thesis using assms(1) by (simp add: placeholder_length_def Let_def)
qed

lemma placeholder_length_other: "CHR ''{'' \<noteq> c \<Longrightarrow> placeholder_length (c # s) = None"
  by (simp add: placeholder_length_def)

lemma placeholder_field_Var [simp]: "placeholder_field (render_part (Var v)) = v"
  by (simp add: placeholder_field_def)

lemma tpl_subst_Lit: "CHR ''{'' \<notin> set l \<Longrightarrow> tpl_subst f (l @ s) = l @ tpl_subst f s"
  by (induction l) (simp_all add: tpl_subst.simps [of f "_ # _"] placeholder_length_other)

lemma tpl_matches_Lit: "CHR ''{'' \<notin> set l \<Longrightarrow> tpl_matches (l @ s) = tpl_matches s"
  by (induction l) (simp_all add: tpl_matches.simps [of "_ # _"] placeholder_length_other)

lemma tpl_Var:
  assumes "v \<noteq> []" and "list_all is_word_char v"
  shows "tpl_subst f (render_part (Var v) @ s) = f (render_part (Var v)) @ tpl_subst f s"
    and "tpl_matches (render_part (Var v) @ s) = render_part (Var v) # tpl_matches s"
proof -
  note n = placeholder_length_Var [OF assms, of s]
  have len: "length (render_part (Var v)) = length v + 5" by simp
  show "tpl_subst f (render_part (Var v) @ s) = f (render_part (Var v)) @ tpl_subst f s"
    by (subst tpl_subst.simps, unfold n, simp only: option.case flip: len) (simp del: render_part.simps)
  show "tpl_matches (render_part (Var v) @ s) = render_part (Var v) # tpl_matches s"
    by (subst tpl_matches.simps, unfold n, simp only: option.case flip: len) (simp del: render_part.simps)
qed

lemma tpl_render:
  assumes "\<forall>p \<in> set ps. part_ok p"
  shows "tpl_subst f (render_template ps) = concat (map (\<lambda>p. case p of Lit s \<Rightarrow> s | Var v \<Rightarrow> f (render_part p)) ps)"
    and "map placeholder_field (tpl_matches (render_template ps)) = concat (map part_vars ps)"
  using assms
proof (induction ps)
  case Nil
  have "placeholder_length [] = None" by (simp add: placeholder_length_def)
  case 1 show ?case by (subst tpl_subst.simps) (simp add: render_template_def \<open>placeholder_length [] = None\<close>)
  case 2 show ?case by (subst tpl_matches.simps) (simp add: render_template_def \<open>placeholder_length [] = None\<close>)
next
  case (Cons p ps)
  have r: "render_template (p # ps) = render_part p @ render_template ps" by (simp add: render_template_def)
  case 1 with Cons.IH(1) r show ?case
    by (cases p) (simp_all add: tpl_subst_Lit tpl_Var del: render_part.simps(2))
  case 2 with Cons.IH(2) r show ?case
    by (cases p) (simp_all add: tpl_matches_Lit tpl_Var del: render_part.simps(2))
qed

text \<open>The errors left by \<open>drop_on_error\<close>: a drop, or a panic\<close>

definition dropped :: "gerror \<Rightarrow> bool" where
  "dropped err \<longleftrightarrow> err = ErrDrop \<or> (\<exists>p. err = ErrPanic p)"

lemma or_drop_dropped [simp]: "d \<longrightarrow> dropped (or_drop d msg err)"
  by (simp add: dropped_def or_drop_def split: gerror.split)

lemma enrich_finish_cases:
  "enrich_finish parse_json cfg ev body = res \<Longrightarrow>
   case res of
     Inl err \<Rightarrow> EnrichDropOnError cfg \<longrightarrow> dropped err
   | Inr out \<Rightarrow> \<exists>b v. body = Inr b \<and> parse_json b = Inr v \<and> out = IEvent (SetField ev (EnrichTargetField cfg) v)"
  by (auto simp: enrich_finish_def split: sum.splits)

section \<open>Properties\<close>

text \<open>C35: a template made of text and placeholders becomes the text with the values of the fields in their places,
  as \<open>%v\<close> prints them; when fields are missing, an error names them in their order.\<close>

theorem interpolate_parts:
  assumes "\<forall>p \<in> set ps. part_ok p"
  shows "interpolateTemplate r (render_template ps) ev =
    (let missing = filter (\<lambda>v. GetField ev v = None) (concat (map part_vars ps))
     in if missing \<noteq> [] then
          Inl (Errorf ''template interpolation failed: placeholder fields not found in event: %v''
                 [VTyped ''[]string'' (Some (map VStr missing))])
        else Inr (concat (map (\<lambda>p. case p of Lit s \<Rightarrow> s | Var v \<Rightarrow> fmt_v r (the (GetField ev v))) ps)))"
proof -
  let ?f = "\<lambda>m. case GetField ev (placeholder_field m) of None \<Rightarrow> m | Some v \<Rightarrow> fmt_v r v"
  have result: "ReplaceAllStringFunc tplVarRe (render_template ps) ?f =
      concat (map (\<lambda>p. case p of Lit s \<Rightarrow> s | Var v \<Rightarrow> ?f (render_part p)) ps)"
    using replace_placeholders [of 0 "render_template ps" ?f] tpl_render(1) [OF assms, of ?f]
    by (simp add: ReplaceAllStringFunc_def)
  have vars: "map placeholder_field (FindAllString tplVarRe (render_template ps)) = concat (map part_vars ps)"
    using find_placeholders [of 0 "render_template ps" None] tpl_render(2) [OF assms] by (simp add: FindAllString_def)
  have "concat (map (\<lambda>p. case p of Lit s \<Rightarrow> s | Var v \<Rightarrow> ?f (render_part p)) ps) =
      concat (map (\<lambda>p. case p of Lit s \<Rightarrow> s | Var v \<Rightarrow> fmt_v r (the (GetField ev v))) ps)"
    if "filter (\<lambda>v. GetField ev v = None) (concat (map part_vars ps)) = []"
    using that by (induction ps) (auto simp del: render_part.simps split: tpl_part.split option.split)
  then show ?thesis unfolding interpolateTemplate_def result vars Let_def by simp
qed

theorem interpolate_parts_witness:
  "interpolateTemplate (\<lambda>v. []) ''http://h/{{.id}}?x'' (sample_event (fmupd ''id'' (VStr ''7'') fmempty)) = Inr ''http://h/7?x''"
proof -
  let ?ps = "[Lit ''http://h/'', Var ''id'', Lit ''?x'']"
  have "\<forall>p \<in> set ?ps. part_ok p" "render_template ?ps = ''http://h/{{.id}}?x''"
    "GetField (sample_event (fmupd ''id'' (VStr ''7'') fmempty)) ''id'' = Some (VStr ''7'')" by code_simp+
  with interpolate_parts [of ?ps "\<lambda>v. []" "sample_event (fmupd ''id'' (VStr ''7'') fmempty)"] show ?thesis by simp
qed

text \<open>With \<open>drop_on_error\<close> a failed enrichment drops the event, whatever failed; a successful one changes nothing
  but the target field, which holds the parsed body that the client answered.\<close>

theorem http_enrich_outcome:
  assumes "http_enrich_Execute with_timeout io parse_json r (Some cfg) (c, w) (IEvent ev) = (s', res)"
  shows "case res of
      Inl err \<Rightarrow> EnrichDropOnError cfg \<longrightarrow> dropped err
    | Inr out \<Rightarrow> \<exists>url body v. interpolateTemplate r (EnrichURL cfg) ev = Inr url \<and> parse_json body = Inr v \<and>
        out = IEvent (SetField ev (EnrichTargetField cfg) v) \<and>
        ((\<exists>rq. Post io c (with_timeout w (EnrichTimeout cfg)) url ''application/json'' rq = (fst s', snd s', Inr body)) \<or>
         http_GetJSON io c (with_timeout w (EnrichTimeout cfg)) url = (fst s', snd s', Inr body))"
proof (cases "interpolateTemplate r (EnrichURL cfg) ev")
  case (Inl err)
  with assms show ?thesis by (auto simp: http_enrich_Execute_def http_enrich_event_def)
next
  case (Inr url)
  let ?w = "with_timeout w (EnrichTimeout cfg)"
  consider err where "res = Inl (or_drop (EnrichDropOnError cfg) ''enrich.http: body interpolation failed: %w'' err)"
    | rq c' w' body where "Post io c ?w url ''application/json'' rq = (c', w', body)" "s' = (c', w')"
        "enrich_finish parse_json cfg ev body = res"
    | c' w' body where "http_GetJSON io c ?w url = (c', w', body)" "s' = (c', w')"
        "enrich_finish parse_json cfg ev body = res"
    using assms Inr
    by (auto simp: http_enrich_Execute_def http_enrich_event_def Let_def split: sum.splits if_splits prod.splits)
  then show ?thesis
  proof cases
    case (2 rq c' w' body)
    with enrich_finish_cases [OF 2(3)] Inr show ?thesis by (auto split: sum.splits)
  next
    case (3 c' w' body)
    with enrich_finish_cases [OF 3(3)] Inr show ?thesis by (auto split: sum.splits)
  qed simp
qed

definition sample_enrich :: http_enrich_config where
  "sample_enrich = \<lparr>EnrichURL = ''u'', EnrichMethod = ''GET'', EnrichBody = [], EnrichTimeout = 5, EnrichTargetField = ''t'',
     EnrichCacheTTL = 5, EnrichDropOnError = True\<rparr>"

theorem http_enrich_outcome_witness:
  "\<exists>body. snd (http_enrich_Execute (\<lambda>w d. w) sample_http (\<lambda>s. Inr (VStr s)) (\<lambda>v. []) (Some sample_enrich)
      (NewClient None, 0) (IEvent (sample_event fmempty))) = Inr (IEvent (SetField (sample_event fmempty) ''t'' (VStr body)))"
proof -
  obtain s' res where run: "http_enrich_Execute (\<lambda>w d. w) sample_http (\<lambda>s. Inr (VStr s)) (\<lambda>v. []) (Some sample_enrich)
      (NewClient None, 0) (IEvent (sample_event fmempty)) = (s', res)" by (metis prod.exhaust)
  have "\<not> isl (snd (http_enrich_Execute (\<lambda>w d. w) sample_http (\<lambda>s. Inr (VStr s)) (\<lambda>v. []) (Some sample_enrich)
      (NewClient None, 0) (IEvent (sample_event fmempty))))" by code_simp
  with http_enrich_outcome [OF run] run show ?thesis by (auto simp: sample_enrich_def split: sum.splits)
qed

end
