(* ===== verification/Redis.thy ===== *)
theory Redis
  imports Cache Transform
begin

text \<open>
  \<open>internal/enrichment/redis\<close>: the client, a cache in front of a Redis server (\<open>client.go\<close>), and the
  transform \<open>enrich.redis\<close> (\<open>enrichment.go\<close>). The server is an argument: what each command answers.
\<close>

section \<open>The client\<close>

record redis_settings =
  RedisServer :: string
  RedisSecret :: string
  RedisNumber :: int
  RedisRetries :: "int option"
  RedisPool :: "int option"
  RedisTTL :: "64 word option"
  RedisCacheCap :: "64 word"

text \<open>The settings with the defaults of the fields that are not given\<close>

definition redis_defaults :: "redis_settings option \<Rightarrow> redis_settings" where
  "redis_defaults cfg =
     (case cfg of
        None \<Rightarrow> \<lparr>RedisServer = ''localhost:6379'', RedisSecret = [], RedisNumber = 0, RedisRetries = Some 3,
                 RedisPool = Some 10, RedisTTL = Some (minutes 5), RedisCacheCap = 1000\<rparr>
      | Some c \<Rightarrow>
          c\<lparr>RedisServer := (if RedisServer c = [] then ''localhost:6379'' else RedisServer c),
            RedisRetries := (case RedisRetries c of None \<Rightarrow> Some 3 | Some n \<Rightarrow> Some n),
            RedisPool := (case RedisPool c of None \<Rightarrow> Some 10 | Some n \<Rightarrow> Some n),
            RedisTTL := (case RedisTTL c of None \<Rightarrow> Some (minutes 5) | Some t \<Rightarrow> Some t),
            RedisCacheCap := (if RedisCacheCap c = 0 then 1000 else RedisCacheCap c)\<rparr>)"

text \<open>
  The commands of the server \<open>go-redis\<close> talks to, on the state \<open>'w\<close> of the world. \<open>ErrRedisNil\<close> is
  \<open>redis.Nil\<close>, the answer for what does not exist.
\<close>

record 'w redis_io =
  RedisClock :: "'w \<Rightarrow> gtime"
  Ping :: "'w \<Rightarrow> redis_settings \<Rightarrow> 'w \<times> gerror option"
  CmdGet :: "'w \<Rightarrow> string \<Rightarrow> 'w \<times> (gerror + string)"
  CmdSet :: "'w \<Rightarrow> string \<Rightarrow> string \<Rightarrow> 64 word \<Rightarrow> 'w \<times> gerror option"
  CmdDel :: "'w \<Rightarrow> string list \<Rightarrow> 'w \<times> gerror option"
  CmdExists :: "'w \<Rightarrow> string list \<Rightarrow> 'w \<times> (gerror + int)"
  CmdHGet :: "'w \<Rightarrow> string \<Rightarrow> string \<Rightarrow> 'w \<times> (gerror + string)"
  CmdHSet :: "'w \<Rightarrow> string \<Rightarrow> string \<Rightarrow> string \<Rightarrow> 'w \<times> gerror option"
  CmdHGetAll :: "'w \<Rightarrow> string \<Rightarrow> 'w \<times> (gerror + (string, string) fmap)"
  CloseRedis :: "'w \<Rightarrow> 'w \<times> gerror option"

record redis_client =
  RedisCache :: lru_cache
  RedisConfig :: redis_settings
  RedisClientTTL :: "64 word"

definition NewRedisClient :: "'w redis_io \<Rightarrow> redis_settings option \<Rightarrow> 'w \<Rightarrow> 'w \<times> (gerror + redis_client)" where
  "NewRedisClient io cfg w =
     (let cfg = redis_defaults cfg; ttl = (case RedisTTL cfg of Some t \<Rightarrow> t | None \<Rightarrow> 0)
      in case Ping io w cfg of
           (w', Some err) \<Rightarrow> (w', Inl (wrap_err ''redis: connection test failed: %w'' [] err))
         | (w', None) \<Rightarrow>
             (w', Inr \<lparr>RedisCache = NewLRUCache (RedisCacheCap cfg) ttl, RedisConfig = cfg, RedisClientTTL = ttl\<rparr>))"

type_synonym 'w redis_state = "redis_client \<times> 'w"

text \<open>The start of the reads: a cached string answers, an entry that is not a string is removed.\<close>

definition redis_cached :: "'w redis_io \<Rightarrow> string \<Rightarrow> 'w redis_state \<Rightarrow> 'w redis_state \<times> string option" where
  "redis_cached io key s =
     (case cache_get (RedisClock io (snd s)) key (RedisCache (fst s)) of
        (ch, VNil) \<Rightarrow> (((fst s)\<lparr>RedisCache := ch\<rparr>, snd s), None)
      | (ch, VStr str) \<Rightarrow> (((fst s)\<lparr>RedisCache := ch\<rparr>, snd s), Some str)
      | (ch, _) \<Rightarrow> (((fst s)\<lparr>RedisCache := cache_delete key ch\<rparr>, snd s), None))"

definition redis_forget :: "string \<Rightarrow> 'w redis_state \<Rightarrow> 'w redis_state" where
  "redis_forget key s = ((fst s)\<lparr>RedisCache := cache_delete key (RedisCache (fst s))\<rparr>, snd s)"

definition redis_remember :: "'w redis_io \<Rightarrow> string \<Rightarrow> string \<Rightarrow> 64 word \<Rightarrow> 'w redis_state \<Rightarrow> 'w redis_state" where
  "redis_remember io key v t s =
     ((fst s)\<lparr>RedisCache := SetWithTTL (RedisClock io (snd s)) key (VStr v) t (RedisCache (fst s))\<rparr>, snd s)"

text \<open>What \<open>GetWithTTL\<close> and \<open>HGetWithTTL\<close> share: \<open>cmd\<close> asks the server, \<open>msg\<close> is the text of the error.\<close>

definition redis_read ::
  "'w redis_io \<Rightarrow> ('w \<Rightarrow> 'w \<times> (gerror + string)) \<Rightarrow> string \<Rightarrow> string \<Rightarrow> 64 word \<Rightarrow> 'w redis_state \<Rightarrow>
   'w redis_state \<times> (gerror + string)" where
  "redis_read io cmd msg cacheKey t s =
     (case redis_cached io cacheKey s of
        (s, Some str) \<Rightarrow> (s, Inr str)
      | (s, None) \<Rightarrow>
          (case cmd (snd s) of
             (w, Inl err) \<Rightarrow> ((fst s, w), if error_is err ErrRedisNil then Inr [] else Inl (wrap_err msg [] err))
           | (w, Inr v) \<Rightarrow> (redis_remember io cacheKey v t (fst s, w), Inr v)))"

definition GetWithTTL :: "'w redis_io \<Rightarrow> string \<Rightarrow> 64 word \<Rightarrow> 'w redis_state \<Rightarrow> 'w redis_state \<times> (gerror + string)" where
  "GetWithTTL io key t = redis_read io (\<lambda>w. CmdGet io w key) ''redis: get failed: %w'' key t"

definition redis_Get :: "'w redis_io \<Rightarrow> string \<Rightarrow> 'w redis_state \<Rightarrow> 'w redis_state \<times> (gerror + string)" where
  "redis_Get io key s = GetWithTTL io key (RedisClientTTL (fst s)) s"

definition hash_key :: "string \<Rightarrow> string \<Rightarrow> string" where
  "hash_key key field = key @ '':'' @ field"

definition HGetWithTTL ::
  "'w redis_io \<Rightarrow> string \<Rightarrow> string \<Rightarrow> 64 word \<Rightarrow> 'w redis_state \<Rightarrow> 'w redis_state \<times> (gerror + string)" where
  "HGetWithTTL io key field t = redis_read io (\<lambda>w. CmdHGet io w key field) ''redis: hget failed: %w'' (hash_key key field) t"

definition redis_HGet :: "'w redis_io \<Rightarrow> string \<Rightarrow> string \<Rightarrow> 'w redis_state \<Rightarrow> 'w redis_state \<times> (gerror + string)" where
  "redis_HGet io key field s = HGetWithTTL io key field (RedisClientTTL (fst s)) s"

text \<open>
  \<open>GetJSON\<close>: \<open>unmarshal\<close> decodes into the destination, whose new value is the answer; a key that does not
  exist leaves it, which is \<open>None\<close>. The error of decoding a cached string is not wrapped.
\<close>

definition redis_GetJSON ::
  "'w redis_io \<Rightarrow> (string \<Rightarrow> gerror + 'd) \<Rightarrow> string \<Rightarrow> 'w redis_state \<Rightarrow> 'w redis_state \<times> (gerror + 'd option)" where
  "redis_GetJSON io unmarshal key s =
     (case redis_cached io key s of
        (s, Some str) \<Rightarrow> (s, bind_res (unmarshal str) (\<lambda>d. Inr (Some d)))
      | (s, None) \<Rightarrow>
          (case CmdGet io (snd s) key of
             (w, Inl err) \<Rightarrow>
               ((fst s, w), if error_is err ErrRedisNil then Inr None else Inl (wrap_err ''redis: getjson failed: %w'' [] err))
           | (w, Inr v) \<Rightarrow>
               (case unmarshal v of
                  Inl err \<Rightarrow> ((fst s, w), Inl (wrap_err ''redis: json unmarshal failed: %w'' [] err))
                | Inr d \<Rightarrow> (redis_remember io key v (ttl (RedisCache (fst s))) (fst s, w), Inr (Some d)))))"

definition redis_Set ::
  "'w redis_io \<Rightarrow> string \<Rightarrow> string \<Rightarrow> 64 word \<Rightarrow> 'w redis_state \<Rightarrow> 'w redis_state \<times> gerror option" where
  "redis_Set io key v expiration s =
     (case CmdSet io (snd s) key v expiration of
        (w, Some err) \<Rightarrow> ((fst s, w), Some (wrap_err ''redis: set failed: %w'' [] err))
      | (w, None) \<Rightarrow> (redis_forget key (fst s, w), None))"

definition redis_SetJSON ::
  "'w redis_io \<Rightarrow> ('d \<Rightarrow> gerror + string) \<Rightarrow> string \<Rightarrow> 'd \<Rightarrow> 64 word \<Rightarrow> 'w redis_state \<Rightarrow> 'w redis_state \<times> gerror option" where
  "redis_SetJSON io marshal key v expiration s =
     (case marshal v of
        Inl err \<Rightarrow> (s, Some (wrap_err ''redis: json marshal failed: %w'' [] err))
      | Inr d \<Rightarrow>
          (case CmdSet io (snd s) key d expiration of
             (w, Some err) \<Rightarrow> ((fst s, w), Some (wrap_err ''redis: setjson failed: %w'' [] err))
           | (w, None) \<Rightarrow> (redis_forget key (fst s, w), None)))"

definition redis_Delete :: "'w redis_io \<Rightarrow> string list \<Rightarrow> 'w redis_state \<Rightarrow> 'w redis_state \<times> gerror option" where
  "redis_Delete io keys s =
     (if length keys = 0 then (s, None)
      else case CmdDel io (snd s) keys of
             (w, Some err) \<Rightarrow> ((fst s, w), Some (wrap_err ''redis: delete failed: %w'' [] err))
           | (w, None) \<Rightarrow> (fold redis_forget keys (fst s, w), None))"

definition redis_Exists :: "'w redis_io \<Rightarrow> string list \<Rightarrow> 'w redis_state \<Rightarrow> 'w redis_state \<times> (gerror + int)" where
  "redis_Exists io keys s =
     (case CmdExists io (snd s) keys of
        (w, Inl err) \<Rightarrow> ((fst s, w), Inl (wrap_err ''redis: exists failed: %w'' [] err))
      | (w, Inr n) \<Rightarrow> ((fst s, w), Inr n))"

definition redis_HSet ::
  "'w redis_io \<Rightarrow> string \<Rightarrow> string \<Rightarrow> string \<Rightarrow> 'w redis_state \<Rightarrow> 'w redis_state \<times> gerror option" where
  "redis_HSet io key field v s =
     (case CmdHSet io (snd s) key field v of
        (w, Some err) \<Rightarrow> ((fst s, w), Some (wrap_err ''redis: hset failed: %w'' [] err))
      | (w, None) \<Rightarrow> (redis_forget (hash_key key field) (fst s, w), None))"

definition redis_HGetAll ::
  "'w redis_io \<Rightarrow> string \<Rightarrow> 'w redis_state \<Rightarrow> 'w redis_state \<times> (gerror + (string, string) fmap)" where
  "redis_HGetAll io key s =
     (case CmdHGetAll io (snd s) key of
        (w, Inl err) \<Rightarrow> ((fst s, w), Inl (wrap_err ''redis: hgetall failed: %w'' [] err))
      | (w, Inr m) \<Rightarrow> ((fst s, w), Inr m))"

definition redis_Close :: "'w redis_io \<Rightarrow> 'w redis_state \<Rightarrow> 'w redis_state \<times> gerror option" where
  "redis_Close io s =
     (case CloseRedis io (snd s) of (w, e) \<Rightarrow> (((fst s)\<lparr>RedisCache := cache_clear (RedisCache (fst s))\<rparr>, w), e))"

definition redis_CacheStats :: "'w redis_state \<Rightarrow> nat" where
  "redis_CacheStats s = cache_size (RedisCache (fst s))"

section \<open>\<open>enrich.redis\<close>\<close>

record redis_enrich_config =
  KeyField :: string
  RedisTargetField :: string
  RedisConfigName :: string
  HashField :: string
  CacheTTLText :: string
  RedisDropOnError :: bool

definition redis_enrich_Configure ::
  "redis_enrich_config unmarshal \<Rightarrow> string \<Rightarrow> gerror + redis_enrich_config \<times> 64 word" where
  "redis_enrich_Configure unmarshal raw =
     (if length raw = 0 then Inl (Errorf ''enrich.redis: config required'' [])
      else case unmarshal raw of
        Inl err \<Rightarrow> Inl (wrap_err ''enrich.redis: config parse failed: %w'' [] err)
      | Inr cfg \<Rightarrow>
          if KeyField cfg = [] then Inl (Errorf ''enrich.redis: key_field required'' [])
          else if RedisTargetField cfg = [] then Inl (Errorf ''enrich.redis: target_field required'' [])
          else
            (let cfg = (if RedisConfigName cfg = [] then cfg\<lparr>RedisConfigName := ''default''\<rparr> else cfg)
             in if CacheTTLText cfg \<noteq> [] then
                  (case ParseDuration (CacheTTLText cfg) of
                     Inl err \<Rightarrow> Inl (wrap_err ''enrich.redis: invalid cache_ttl: %w'' [] err)
                   | Inr t \<Rightarrow> Inr (cfg, of_int t))
                else Inr (cfg, minutes 5)))"

text \<open>A string that looks like an object or an array is replaced by its parsed value when it parses.\<close>

definition redis_value :: "(string \<Rightarrow> gerror + gval) \<Rightarrow> string \<Rightarrow> gval" where
  "redis_value parse_json str =
     (if str \<noteq> [] \<and> (hd str = CHR ''{'' \<or> hd str = CHR ''['') then
        (case parse_json str of Inr parsed \<Rightarrow> parsed | Inl _ \<Rightarrow> VStr str)
      else VStr str)"

definition redis_enrich_event ::
  "'w redis_io \<Rightarrow> (string \<Rightarrow> gerror + gval) \<Rightarrow> renderer \<Rightarrow> redis_enrich_config \<times> 64 word \<Rightarrow>
   'w redis_state \<Rightarrow> event \<Rightarrow> 'w redis_state \<times> (gerror + item)" where
  "redis_enrich_event io parse_json r conf s ev =
     (let cfg = fst conf
      in case GetField ev (KeyField cfg) of
           None \<Rightarrow> (s, if RedisDropOnError cfg then Inl ErrDrop else Inr (IEvent ev))
         | Some keyValue \<Rightarrow>
             (let key = (case keyValue of VStr k \<Rightarrow> k | _ \<Rightarrow> fmt_v r keyValue)
              in case (if HashField cfg \<noteq> [] then HGetWithTTL io key (HashField cfg) (snd conf) s
                       else GetWithTTL io key (snd conf) s) of
                   (s', Inl err) \<Rightarrow>
                     (s', if RedisDropOnError cfg then Inl ErrDrop else Inr (IEvent ev))
                 | (s', Inr str) \<Rightarrow>
                     (s', if str = [] then Inr (IEvent ev)
                          else Inr (IEvent (SetField ev (RedisTargetField cfg) (redis_value parse_json str))))))"

definition redis_enrich_Execute ::
  "'w redis_io \<Rightarrow> (string \<Rightarrow> gerror + gval) \<Rightarrow> renderer \<Rightarrow> redis_enrich_config \<times> 64 word \<Rightarrow>
   'w redis_state \<Rightarrow> item \<Rightarrow> 'w redis_state \<times> (gerror + item)" where
  "redis_enrich_Execute io parse_json r conf s x =
     (if KeyField (fst conf) = [] then (s, Inl (Errorf ''enrich.redis: not configured'' []))
      else case x of
             IEvent ev \<Rightarrow> redis_enrich_event io parse_json r conf s ev
           | _ \<Rightarrow> (s, Inl (Errorf ''enrich.redis: unexpected payload type'' [])))"

definition redis_enrich_factory ::
  "'w redis_io \<Rightarrow> (string \<Rightarrow> gerror + gval) \<Rightarrow> renderer \<Rightarrow> redis_enrich_config unmarshal \<Rightarrow> ('w redis_state) factory" where
  "redis_enrich_factory io parse_json r unmarshal raw =
     bind_res (redis_enrich_Configure unmarshal raw) (\<lambda>conf. Inr
       \<lparr>Name = ''enrich.redis'', Exec = redis_enrich_Execute io parse_json r conf\<rparr>)"

definition RegisterRedisEnrichment ::
  "'w redis_io \<Rightarrow> (string \<Rightarrow> gerror + gval) \<Rightarrow> renderer \<Rightarrow> redis_enrich_config unmarshal \<Rightarrow> redis_enrichment \<Rightarrow> 'w \<Rightarrow>
   ('w redis_state) registry \<Rightarrow> 'w \<times> (gerror + redis_client \<times> ('w redis_state) registry)" where
  "RegisterRedisEnrichment io parse_json r unmarshal cfg w reg =
     (let t = (if RedisCacheTTL cfg = 0 then minutes 5 else of_int (RedisCacheTTL cfg));
          cacheSize = (if RedisCacheSize cfg = 0 then 1000 else of_int (RedisCacheSize cfg))
      in case NewRedisClient io (Some
                \<lparr>RedisServer = RedisAddr cfg, RedisSecret = RedisPassword cfg, RedisNumber = RedisDB cfg,
                 RedisRetries = Some (RedisMaxRetries cfg), RedisPool = Some (RedisPoolSize cfg), RedisTTL = Some t,
                 RedisCacheCap = cacheSize\<rparr>) w of
           (w', Inl err) \<Rightarrow> (w', Inl err)
         | (w', Inr c) \<Rightarrow>
             (w', Inr (c, Register ''enrich.redis'' (redis_enrich_factory io parse_json r unmarshal) reg)))"

section \<open>What the cache answers\<close>

definition cache_has :: "string \<Rightarrow> 'w redis_state \<Rightarrow> bool" where
  "cache_has k s \<longleftrightarrow> fmlookup (data (RedisCache (fst s))) k \<noteq> None"

lemma forget_has: "cache_has k (redis_forget j s) \<longleftrightarrow> cache_has k s \<and> k \<noteq> j"
  by (auto simp: cache_has_def redis_forget_def cache_delete_def removeEntry_def split: option.split)

lemma forget_all_has: "cache_has k (fold redis_forget ks s) \<longleftrightarrow> cache_has k s \<and> k \<notin> set ks"
  by (induction ks arbitrary: s) (auto simp: forget_has)

lemma world_forget [simp]: "snd (redis_forget k s) = snd s" "snd (fold redis_forget ks s) = snd s"
proof -
  show "snd (redis_forget k s) = snd s" for k and s :: "'a redis_state" by (simp add: redis_forget_def)
  then show "snd (fold redis_forget ks s) = snd s" by (induction ks arbitrary: s) simp_all
qed

lemma not_cached: "\<not> cache_has k s \<Longrightarrow> redis_cached io k s = (s, None)"
  by (cases s) (simp add: cache_has_def redis_cached_def cache_get_def)

text \<open>The answer of the server, as the client reports it\<close>

definition reported :: "string \<Rightarrow> gerror + string \<Rightarrow> gerror + string" where
  "reported msg r = (case r of Inl err \<Rightarrow> if error_is err ErrRedisNil then Inr [] else Inl (wrap_err msg [] err) | Inr v \<Rightarrow> Inr v)"

lemma read_server: "\<not> cache_has k s \<Longrightarrow> snd (redis_read io cmd msg k t s) = reported msg (snd (cmd (snd s)))"
  by (auto simp: redis_read_def not_cached reported_def split: prod.split sum.split)

lemma remembered:
  assumes "cmd (snd s) = (w, Inr v)" and "\<not> cache_has k s" and "RedisClock io w' \<le> RedisClock io w + sint t"
  shows "redis_cached io k (fst (fst (redis_read io cmd msg k t s)), w') =
    (((fst (fst (redis_read io cmd msg k t s)))\<lparr>RedisCache := move_to_front k (RedisCache (fst (fst (redis_read io cmd msg k t s))))\<rparr>, w'), Some v)"
proof -
  let ?c = "RedisCache (fst (redis_remember io k v t (fst s, w)))"
  have "redis_read io cmd msg k t s = (redis_remember io k v t (fst s, w), Inr v)"
    using assms(1,2) by (simp add: redis_read_def not_cached)
  moreover have "fmlookup (data ?c) k = Some \<lparr>Value = VStr v, Expiry = RedisClock io w + sint t\<rparr>"
    by (simp add: redis_remember_def SetWithTTL_def Let_def move_to_front_def split: option.split)
  ultimately show ?thesis using assms(3) by (simp add: redis_cached_def cache_get_def)
qed

section \<open>How old an answer may be\<close>

text \<open>
  What a command reads or writes at the server: a key, or a field of a hash. The cache knows both by one string,
  which does not tell them apart.
\<close>

datatype redis_place = AtKey string | AtField string string

fun place_key :: "redis_place \<Rightarrow> string" where
  "place_key (AtKey k) = k"
| "place_key (AtField k f) = hash_key k f"

text \<open>
  A server that records, the last first, what it answered to the reads of a place, with the time, and which
  places were written or deleted successfully
\<close>

datatype redis_event = Answered redis_place string gtime | Wrote redis_place

definition logged_redis :: "'w redis_io \<Rightarrow> ('w \<times> redis_event list) redis_io" where
  "logged_redis io =
     \<lparr>RedisClock = (\<lambda>s. RedisClock io (fst s)),
      Ping = (\<lambda>s cfg. case Ping io (fst s) cfg of (w, e) \<Rightarrow> ((w, snd s), e)),
      CmdGet = (\<lambda>s k. case CmdGet io (fst s) k of
         (w, Inl e) \<Rightarrow> ((w, snd s), Inl e) | (w, Inr v) \<Rightarrow> ((w, Answered (AtKey k) v (RedisClock io w) # snd s), Inr v)),
      CmdSet = (\<lambda>s k v t. case CmdSet io (fst s) k v t of
         (w, Some e) \<Rightarrow> ((w, snd s), Some e) | (w, None) \<Rightarrow> ((w, Wrote (AtKey k) # snd s), None)),
      CmdDel = (\<lambda>s ks. case CmdDel io (fst s) ks of
         (w, Some e) \<Rightarrow> ((w, snd s), Some e) | (w, None) \<Rightarrow> ((w, map (\<lambda>k. Wrote (AtKey k)) ks @ snd s), None)),
      CmdExists = (\<lambda>s ks. case CmdExists io (fst s) ks of (w, r) \<Rightarrow> ((w, snd s), r)),
      CmdHGet = (\<lambda>s k f. case CmdHGet io (fst s) k f of
         (w, Inl e) \<Rightarrow> ((w, snd s), Inl e) | (w, Inr v) \<Rightarrow> ((w, Answered (AtField k f) v (RedisClock io w) # snd s), Inr v)),
      CmdHSet = (\<lambda>s k f v. case CmdHSet io (fst s) k f v of
         (w, Some e) \<Rightarrow> ((w, snd s), Some e) | (w, None) \<Rightarrow> ((w, Wrote (AtField k f) # snd s), None)),
      CmdHGetAll = (\<lambda>s k. case CmdHGetAll io (fst s) k of (w, r) \<Rightarrow> ((w, snd s), r)),
      CloseRedis = (\<lambda>s. case CloseRedis io (fst s) of (w, e) \<Rightarrow> ((w, snd s), e))\<rparr>"

text \<open>
  The server answered \<open>v\<close> at the time \<open>t\<close> or later for a place with the cache key \<open>k\<close>, and no place with this
  cache key was written since.
\<close>

fun answered_since :: "gtime \<Rightarrow> string \<Rightarrow> string \<Rightarrow> redis_event list \<Rightarrow> bool" where
  "answered_since t k v [] = False"
| "answered_since t k v (Answered q v' t' # l) = (place_key q = k \<and> v' = v \<and> t \<le> t' \<or> answered_since t k v l)"
| "answered_since t k v (Wrote q # l) = (place_key q \<noteq> k \<and> answered_since t k v l)"

lemma answered_since_mono: "answered_since t k v l \<Longrightarrow> t' \<le> t \<Longrightarrow> answered_since t' k v l"
  by (induction t k v l rule: answered_since.induct) auto

lemma answered_since_writes:
  "answered_since t k v (map Wrote qs @ l) \<longleftrightarrow> k \<notin> place_key ` set qs \<and> answered_since t k v l"
  by (induction qs) auto

text \<open>Every entry of the cache is an answer of the server, at most \<open>T\<close> before it expires.\<close>

definition redis_fresh :: "int \<Rightarrow> ('w \<times> redis_event list) redis_state \<Rightarrow> bool" where
  "redis_fresh T s \<longleftrightarrow> sint (RedisClientTTL (fst s)) \<le> T \<and> sint (ttl (RedisCache (fst s))) \<le> T \<and>
     (\<forall>k e. fmlookup (data (RedisCache (fst s))) k = Some e \<longrightarrow>
        (\<exists>v. Value e = VStr v \<and> answered_since (Expiry e - T) k v (snd (snd s))))"

lemma redis_freshI:
  assumes "redis_fresh T s" and "RedisClientTTL (fst s') = RedisClientTTL (fst s)"
    and "ttl (RedisCache (fst s')) = ttl (RedisCache (fst s))"
    and "\<And>k e. fmlookup (data (RedisCache (fst s'))) k = Some e \<Longrightarrow>
      \<exists>v. Value e = VStr v \<and> answered_since (Expiry e - T) k v (snd (snd s'))"
  shows "redis_fresh T s'"
  using assms by (simp add: redis_fresh_def)

lemma redis_freshD:
  "redis_fresh T s \<Longrightarrow> fmlookup (data (RedisCache (fst s))) k = Some e \<Longrightarrow>
   \<exists>v. Value e = VStr v \<and> answered_since (Expiry e - T) k v (snd (snd s))"
  by (simp add: redis_fresh_def)

lemma fresh_cached:
  assumes "redis_cached io k s = (s', r)" and "redis_fresh T s"
  shows "redis_fresh T s' \<and> snd s' = snd s \<and>
    (case r of None \<Rightarrow> True | Some v \<Rightarrow> answered_since (RedisClock io (snd s) - T) k v (snd (snd s)))"
proof -
  let ?get = "cache_get (RedisClock io (snd s)) k (RedisCache (fst s))"
  let ?P = "\<lambda>k (e :: cache_entry). \<exists>v. Value e = VStr v \<and> answered_since (Expiry e - T) k v (snd (snd s))"
  have P: "fmlookup (data (RedisCache (fst s))) j = Some e \<Longrightarrow> ?P j e" for j e using assms(2) by (simp add: redis_fresh_def)
  have inv: "redis_fresh T ((fst s)\<lparr>RedisCache := fst ?get\<rparr>, snd s)"
    by (rule redis_freshI [OF assms(2)]) (use lru_store.all_get(1) [of "RedisCache (fst s)" ?P, OF P] in simp_all)
  show ?thesis
  proof (cases "snd ?get = VNil")
    case True
    with assms(1) inv show ?thesis by (auto simp: redis_cached_def split: prod.splits)
  next
    case False
    have "\<exists>e :: cache_entry. ?P k e \<and> Value e = snd ?get \<and> RedisClock io (snd s) \<le> Expiry e"
      by (rule lru_store.all_get(2) [OF _ False]) (rule P)
    then obtain v and e :: cache_entry where e: "snd ?get = VStr v"
        "answered_since (Expiry e - T) k v (snd (snd s))" "RedisClock io (snd s) \<le> Expiry e" by (metis (no_types, lifting))
    then have "answered_since (RedisClock io (snd s) - T) k v (snd (snd s))" using answered_since_mono by simp
    with assms(1) inv e(1) show ?thesis by (auto simp: redis_cached_def split: prod.splits)
  qed
qed

text \<open>The command that reads a place, and its trace in the log\<close>

fun ask_place :: "'w redis_io \<Rightarrow> redis_place \<Rightarrow> 'w \<Rightarrow> 'w \<times> (gerror + string)" where
  "ask_place io (AtKey k) w = CmdGet io w k"
| "ask_place io (AtField k f) w = CmdHGet io w k f"

lemma ask_place_fun: "ask_place io (AtKey k) = (\<lambda>w. CmdGet io w k)" "ask_place io (AtField k f) = (\<lambda>w. CmdHGet io w k f)"
  by (simp_all add: fun_eq_iff)

lemma logged_ask:
  "ask_place (logged_redis io) q x = (x', r) \<Longrightarrow>
     snd x' = (case r of Inl err \<Rightarrow> snd x | Inr v \<Rightarrow> Answered q v (RedisClock io (fst x')) # snd x)"
  by (cases q) (auto simp: logged_redis_def split: prod.splits sum.splits)

lemma logged_clock [simp]: "RedisClock (logged_redis io) x = RedisClock io (fst x)"
  by (simp add: logged_redis_def)

text \<open>
  Where an answer for a place comes from: the cache, with an answer of the server at most \<open>T\<close> old; the server,
  now; or it is the empty one, for a place the server does not have.
\<close>

definition redis_source ::
  "int \<Rightarrow> 'w redis_io \<Rightarrow> redis_place \<Rightarrow> string \<Rightarrow> ('w \<times> redis_event list) redis_state \<Rightarrow>
   ('w \<times> redis_event list) redis_state \<Rightarrow> bool" where
  "redis_source T io q v s s' \<longleftrightarrow>
     snd s' = snd s \<and> answered_since (RedisClock io (fst (snd s)) - T) (place_key q) v (snd (snd s)) \<or>
     (\<exists>t'. snd (snd s') = Answered q v t' # snd (snd s)) \<or>
     v = [] \<and> snd (snd s') = snd (snd s) \<and>
       (\<exists>err. snd (ask_place (logged_redis io) q (snd s)) = Inl err \<and> error_is err ErrRedisNil)"

lemma fresh_asked:
  assumes "redis_fresh T s" and "ask_place (logged_redis io) q (snd s) = (w, r)"
  shows "redis_fresh T (fst s, w)"
proof (rule redis_freshI [OF assms(1)])
  fix j e
  assume "fmlookup (data (RedisCache (fst (fst s, w)))) j = Some e"
  with redis_freshD [OF assms(1)] obtain v where "Value e = VStr v" "answered_since (Expiry e - T) j v (snd (snd s))" by fastforce
  then show "\<exists>v. Value e = VStr v \<and> answered_since (Expiry e - T) j v (snd (snd (fst s, w)))"
    by (auto simp: logged_ask [OF assms(2)] split: sum.split)
qed simp_all

lemma fresh_remember:
  assumes "redis_fresh T s" and "ask_place (logged_redis io) q (snd s) = (w, Inr v)" and "sint t \<le> T"
  shows "redis_fresh T (redis_remember (logged_redis io) (place_key q) v t (fst s, w))"
proof (rule redis_freshI [OF fresh_asked [OF assms(1,2)]])
  fix j e
  assume "fmlookup (data (RedisCache (fst (redis_remember (logged_redis io) (place_key q) v t (fst s, w))))) j = Some e"
  then show "\<exists>x. Value e = VStr x \<and> answered_since (Expiry e - T) j x
      (snd (snd (redis_remember (logged_redis io) (place_key q) v t (fst s, w))))"
    using lru_store.put_entry [of "RedisClock io (fst w)" "place_key q" "VStr v" t "RedisCache (fst s)" j e]
      fresh_asked [OF assms(1,2)] logged_ask [OF assms(2)] assms(3)
    by (auto simp: redis_remember_def redis_fresh_def)
qed (simp_all add: redis_remember_def)

lemma fresh_read:
  assumes "redis_read (logged_redis io) (ask_place (logged_redis io) q) msg (place_key q) t s = (s', r)"
    and "redis_fresh T s" and "sint t \<le> T"
  shows "redis_fresh T s' \<and> (\<forall>v. r = Inr v \<longrightarrow> redis_source T io q v s s')"
proof -
  obtain s1 c where c: "redis_cached (logged_redis io) (place_key q) s = (s1, c)" by fastforce
  note f = fresh_cached [OF c assms(2)]
  show ?thesis
  proof (cases c)
    case (Some str)
    with assms(1) c f show ?thesis by (auto simp: redis_read_def redis_source_def)
  next
    case None
    obtain w a where a: "ask_place (logged_redis io) q (snd s1) = (w, a)" by fastforce
    have fresh: "redis_fresh T s1" and same: "snd s1 = snd s" using f by auto
    show ?thesis
    proof (cases a)
      case (Inl err)
      with assms(1) c None a fresh_asked [OF fresh a] logged_ask [OF a] same show ?thesis
        by (auto simp: redis_read_def redis_source_def split: if_splits)
    next
      case (Inr x)
      then have s': "s' = redis_remember (logged_redis io) (place_key q) x t (fst s1, w)" "r = Inr x"
        using assms(1) c None a same by (auto simp: redis_read_def)
      have "snd (snd s') = Answered q x (RedisClock io (fst w)) # snd (snd s)"
        using logged_ask [OF a] Inr same by (simp add: s'(1) redis_remember_def)
      with s' fresh_remember [OF fresh a [unfolded Inr] assms(3)] show ?thesis by (auto simp: redis_source_def)
    qed
  qed
qed

text \<open>After a write the entries of the keys that were written are gone.\<close>

lemma fresh_forget:
  assumes "redis_fresh T s" and "snd w = map Wrote qs @ snd (snd s)"
  shows "redis_fresh T (fold redis_forget (map place_key qs) (fst s, w))"
proof -
  define ks where "ks = map place_key qs"
  have "redis_fresh T (fold redis_forget ks (c, w))"
    if "sint (RedisClientTTL c) \<le> T" "sint (ttl (RedisCache c)) \<le> T"
      "\<And>j e. fmlookup (data (RedisCache c)) j = Some e \<Longrightarrow> j \<notin> set ks \<Longrightarrow>
         \<exists>v. Value e = VStr v \<and> answered_since (Expiry e - T) j v (snd w)" for c
    using that
  proof (induction ks arbitrary: c)
    case Nil
    then show ?case by (simp add: redis_fresh_def)
  next
    case (Cons k ks)
    have "fold redis_forget (k # ks) (c, w) = fold redis_forget ks (c\<lparr>RedisCache := cache_delete k (RedisCache c)\<rparr>, w)"
      by (simp add: redis_forget_def [of k])
    moreover have "redis_fresh T (fold redis_forget ks (c\<lparr>RedisCache := cache_delete k (RedisCache c)\<rparr>, w))"
    proof (rule Cons.IH)
      fix j e
      assume "fmlookup (data (RedisCache (c\<lparr>RedisCache := cache_delete k (RedisCache c)\<rparr>))) j = Some e" "j \<notin> set ks"
      with lru_store.del_entry [of k "RedisCache c" j e] Cons.prems(3) [of j e]
      show "\<exists>v. Value e = VStr v \<and> answered_since (Expiry e - T) j v (snd w)" by simp
    qed (use Cons.prems in simp_all)
    ultimately show ?case by simp
  qed
  from this [of "fst s"] assms show ?thesis by (simp add: redis_fresh_def answered_since_writes ks_def)
qed

lemma fresh_same:
  assumes "redis_fresh T s" and "snd w = snd (snd s)"
  shows "redis_fresh T (fst s, w)"
  using fresh_forget [of T s w "[]"] assms by simp

text \<open>Runs of a client; \<open>um\<close> and \<open>ma\<close> decode and encode JSON.\<close>

datatype redis_op =
    RedisGet string
  | RedisGetTTL string "64 word"
  | RedisHGet string string
  | RedisHGetTTL string string "64 word"
  | RedisGetJSON string
  | RedisSet string string "64 word"
  | RedisSetJSON string gval "64 word"
  | RedisDelete "string list"
  | RedisExists "string list"
  | RedisHSet string string string
  | RedisHGetAll string
  | RedisClose

fun redis_step ::
  "(string \<Rightarrow> gerror + gval) \<Rightarrow> (gval \<Rightarrow> gerror + string) \<Rightarrow> 'w redis_io \<Rightarrow> redis_op \<Rightarrow> 'w redis_state \<Rightarrow> 'w redis_state" where
  "redis_step um ma io (RedisGet k) s = fst (redis_Get io k s)"
| "redis_step um ma io (RedisGetTTL k t) s = fst (GetWithTTL io k t s)"
| "redis_step um ma io (RedisHGet k f) s = fst (redis_HGet io k f s)"
| "redis_step um ma io (RedisHGetTTL k f t) s = fst (HGetWithTTL io k f t s)"
| "redis_step um ma io (RedisGetJSON k) s = fst (redis_GetJSON io um k s)"
| "redis_step um ma io (RedisSet k v x) s = fst (redis_Set io k v x s)"
| "redis_step um ma io (RedisSetJSON k v x) s = fst (redis_SetJSON io ma k v x s)"
| "redis_step um ma io (RedisDelete ks) s = fst (redis_Delete io ks s)"
| "redis_step um ma io (RedisExists ks) s = fst (redis_Exists io ks s)"
| "redis_step um ma io (RedisHSet k f v) s = fst (redis_HSet io k f v s)"
| "redis_step um ma io (RedisHGetAll k) s = fst (redis_HGetAll io k s)"
| "redis_step um ma io RedisClose s = fst (redis_Close io s)"

text \<open>The times to live a caller gives\<close>

fun op_ttl_le :: "int \<Rightarrow> redis_op \<Rightarrow> bool" where
  "op_ttl_le T (RedisGetTTL k t) = (sint t \<le> T)"
| "op_ttl_le T (RedisHGetTTL k f t) = (sint t \<le> T)"
| "op_ttl_le T op = True"

lemma logged_commands:
  "CmdSet (logged_redis io) x k v t = (x', r) \<Longrightarrow> snd x' = (if r = None then [Wrote (AtKey k)] else []) @ snd x"
  "CmdHSet (logged_redis io) x k f v = (x', r) \<Longrightarrow> snd x' = (if r = None then [Wrote (AtField k f)] else []) @ snd x"
  "CmdDel (logged_redis io) x ks = (x', r) \<Longrightarrow> snd x' = (if r = None then map Wrote (map AtKey ks) else []) @ snd x"
  "CmdExists (logged_redis io) x ks = (x', n) \<Longrightarrow> snd x' = snd x"
  "CmdHGetAll (logged_redis io) x k = (x', m) \<Longrightarrow> snd x' = snd x"
  "CloseRedis (logged_redis io) x = (x', r) \<Longrightarrow> snd x' = snd x"
  by (auto simp: logged_redis_def split: prod.splits sum.splits option.splits)

text \<open>The reads that answer a string: the place and the answer\<close>

fun redis_reply ::
  "'w redis_io \<Rightarrow> redis_op \<Rightarrow> 'w redis_state \<Rightarrow> (redis_place \<times> 'w redis_state \<times> (gerror + string)) option" where
  "redis_reply io (RedisGet k) s = Some (AtKey k, redis_Get io k s)"
| "redis_reply io (RedisGetTTL k t) s = Some (AtKey k, GetWithTTL io k t s)"
| "redis_reply io (RedisHGet k f) s = Some (AtField k f, redis_HGet io k f s)"
| "redis_reply io (RedisHGetTTL k f t) s = Some (AtField k f, HGetWithTTL io k f t s)"
| "redis_reply io op s = None"

lemma fresh_reply:
  assumes "redis_reply (logged_redis io) op s = Some (q, s', r)" and "redis_fresh T s" and "op_ttl_le T op"
  shows "redis_fresh T s' \<and> (\<forall>v. r = Inr v \<longrightarrow> redis_source T io q v s s')"
proof -
  have read: "redis_fresh T s' \<and> (\<forall>v. r = Inr v \<longrightarrow> redis_source T io q v s s')"
    if "redis_read (logged_redis io) (ask_place (logged_redis io) q) msg (place_key q) t s = (s', r)" "sint t \<le> T" for msg t
    by (rule fresh_read [OF that(1) assms(2) that(2)])
  have client: "sint (RedisClientTTL (fst s)) \<le> T" using assms(2) by (simp add: redis_fresh_def)
  show ?thesis
  proof (cases op)
    case (RedisGet k)
    then have "q = AtKey k" using assms(1) by simp
    with RedisGet assms(1) read [of "''redis: get failed: %w''", OF _ client] show ?thesis by (simp add: redis_Get_def GetWithTTL_def ask_place_fun)
  next
    case (RedisGetTTL k t)
    then have "q = AtKey k" using assms(1) by simp
    with RedisGetTTL assms(1,3) read [of "''redis: get failed: %w''" t] show ?thesis by (simp add: GetWithTTL_def ask_place_fun)
  next
    case (RedisHGet k f)
    then have "q = AtField k f" using assms(1) by simp
    with RedisHGet assms(1) read [of "''redis: hget failed: %w''", OF _ client] show ?thesis by (simp add: redis_HGet_def HGetWithTTL_def ask_place_fun)
  next
    case (RedisHGetTTL k f t)
    then have "q = AtField k f" using assms(1) by simp
    with RedisHGetTTL assms(1,3) read [of "''redis: hget failed: %w''" t] show ?thesis by (simp add: HGetWithTTL_def ask_place_fun)
  qed (use assms(1) in simp_all)
qed

text \<open>\<open>GetJSON\<close> reads as \<open>GetWithTTL\<close> does, with the time to live of the cache, but keeps only what it can decode.\<close>

lemma fresh_GetJSON:
  assumes "redis_GetJSON (logged_redis io) um k s = (s', r)" and "redis_fresh T s"
  shows "redis_fresh T s' \<and> (\<forall>d. r = Inr (Some d) \<longrightarrow> (\<exists>v. um v = Inr d \<and> redis_source T io (AtKey k) v s s'))"
proof -
  obtain s1 c where c: "redis_cached (logged_redis io) k s = (s1, c)" by fastforce
  note f = fresh_cached [OF c assms(2)]
  show ?thesis
  proof (cases c)
    case (Some str)
    with assms(1) c f show ?thesis by (auto simp: redis_GetJSON_def redis_source_def bind_res_Inr_iff)
  next
    case None
    obtain w a where a: "ask_place (logged_redis io) (AtKey k) (snd s1) = (w, a)" by fastforce
    have fresh: "redis_fresh T s1" and same: "snd s1 = snd s" using f by auto
    have t: "sint (ttl (RedisCache (fst s1))) \<le> T" using fresh by (simp add: redis_fresh_def)
    show ?thesis
    proof (cases a)
      case (Inl err)
      with assms(1) c None a fresh_asked [OF fresh a] show ?thesis
        by (auto simp: redis_GetJSON_def split: if_splits)
    next
      case (Inr v)
      have "snd w = Answered (AtKey k) v (RedisClock io (fst w)) # snd (snd s)" using logged_ask [OF a] Inr same by simp
      with assms(1) c None a fresh_asked [OF fresh a] fresh_remember [OF fresh a [unfolded Inr] t] Inr show ?thesis
        by (auto simp: redis_GetJSON_def redis_source_def redis_remember_def split: sum.splits)
    qed
  qed
qed

lemma fresh_step:
  assumes "redis_fresh T s" and "op_ttl_le T op"
  shows "redis_fresh T (redis_step um ma (logged_redis io) op s)"
proof -
  show ?thesis
  proof (cases op)
    case (RedisGet k)
    with fresh_reply [OF _ assms, of io] show ?thesis by (metis redis_reply.simps(1) redis_step.simps(1) prod.collapse)
  next
    case (RedisGetTTL k t)
    with fresh_reply [OF _ assms, of io] show ?thesis by (metis redis_reply.simps(2) redis_step.simps(2) prod.collapse)
  next
    case (RedisHGet k f)
    with fresh_reply [OF _ assms, of io] show ?thesis by (metis redis_reply.simps(3) redis_step.simps(3) prod.collapse)
  next
    case (RedisHGetTTL k f t)
    with fresh_reply [OF _ assms, of io] show ?thesis by (metis redis_reply.simps(4) redis_step.simps(4) prod.collapse)
  next
    case (RedisGetJSON k)
    with conjunct1 [OF fresh_GetJSON [OF prod.collapse [symmetric] assms(1)]] show ?thesis by simp
  next
    case (RedisSet k v x)
    obtain w r where w: "CmdSet (logged_redis io) (snd s) k v x = (w, r)" by fastforce
    from logged_commands(1) [OF w] fresh_same [OF assms(1), of w] fresh_forget [OF assms(1), of w "[AtKey k]"] w RedisSet
    show ?thesis by (cases r) (simp_all add: redis_Set_def)
  next
    case (RedisSetJSON k v x)
    show ?thesis
    proof (cases "ma v")
      case (Inr d)
      obtain w r where w: "CmdSet (logged_redis io) (snd s) k d x = (w, r)" by fastforce
      from logged_commands(1) [OF w] fresh_same [OF assms(1), of w] fresh_forget [OF assms(1), of w "[AtKey k]"] w RedisSetJSON Inr
      show ?thesis by (cases r) (simp_all add: redis_SetJSON_def)
    qed (use RedisSetJSON assms(1) in \<open>simp add: redis_SetJSON_def\<close>)
  next
    case (RedisDelete ks)
    obtain w r where w: "CmdDel (logged_redis io) (snd s) ks = (w, r)" by fastforce
    from logged_commands(3) [OF w] fresh_same [OF assms(1), of w] fresh_forget [OF assms(1), of w "map AtKey ks"] w RedisDelete assms(1)
    show ?thesis by (cases r) (simp_all add: redis_Delete_def o_def)
  next
    case (RedisExists ks)
    obtain w r where w: "CmdExists (logged_redis io) (snd s) ks = (w, r)" by fastforce
    from logged_commands(4) [OF w] fresh_same [OF assms(1), of w] w RedisExists
    show ?thesis by (cases r) (simp_all add: redis_Exists_def)
  next
    case (RedisHSet k f v)
    obtain w r where w: "CmdHSet (logged_redis io) (snd s) k f v = (w, r)" by fastforce
    from logged_commands(2) [OF w] fresh_same [OF assms(1), of w] fresh_forget [OF assms(1), of w "[AtField k f]"] w RedisHSet
    show ?thesis by (cases r) (simp_all add: redis_HSet_def)
  next
    case (RedisHGetAll k)
    obtain w r where w: "CmdHGetAll (logged_redis io) (snd s) k = (w, r)" by fastforce
    from logged_commands(5) [OF w] fresh_same [OF assms(1), of w] w RedisHGetAll
    show ?thesis by (cases r) (simp_all add: redis_HGetAll_def)
  next
    case RedisClose
    obtain w r where w: "CloseRedis (logged_redis io) (snd s) = (w, r)" by fastforce
    have "redis_fresh T ((fst s)\<lparr>RedisCache := cache_clear (RedisCache (fst s))\<rparr>, w)"
      by (rule redis_freshI [OF assms(1)]) (simp_all add: lru_store.clear_entry)
    with w RedisClose show ?thesis by (simp add: redis_Close_def)
  qed
qed

lemma fresh_steps:
  "redis_fresh T s \<Longrightarrow> \<forall>op \<in> set ops. op_ttl_le T op \<Longrightarrow> redis_fresh T (fold (redis_step um ma (logged_redis io)) ops s)"
  by (induction ops arbitrary: s) (simp_all add: fresh_step)

text \<open>A server whose state is the map of its keys, with the fields of hashes beside it\<close>

definition sample_redis :: "((string, string) fmap \<times> (string \<times> string, string) fmap) redis_io" where
  "sample_redis =
     \<lparr>RedisClock = (\<lambda>w. 0), Ping = (\<lambda>w cfg. (w, None)),
      CmdGet = (\<lambda>w k. (w, case fmlookup (fst w) k of None \<Rightarrow> Inl ErrRedisNil | Some v \<Rightarrow> Inr v)),
      CmdSet = (\<lambda>w k v t. ((fmupd k v (fst w), snd w), None)),
      CmdDel = (\<lambda>w ks. ((fold fmdrop ks (fst w), fmfilter (\<lambda>(k, f). k \<notin> set ks) (snd w)), None)),
      CmdExists = (\<lambda>w ks. (w, Inr (int (length (filter (\<lambda>k. fmlookup (fst w) k \<noteq> None) ks))))),
      CmdHGet = (\<lambda>w k f. (w, case fmlookup (snd w) (k, f) of None \<Rightarrow> Inl ErrRedisNil | Some v \<Rightarrow> Inr v)),
      CmdHSet = (\<lambda>w k f v. ((fst w, fmupd (k, f) v (snd w)), None)),
      CmdHGetAll = (\<lambda>w k. (w, Inr fmempty)), CloseRedis = (\<lambda>w. (w, None))\<rparr>"

definition sample_redis_client :: redis_client where
  "sample_redis_client = \<lparr>RedisCache = NewLRUCache 10 5, RedisConfig = redis_defaults None, RedisClientTTL = 5\<rparr>"

definition sample_redis_run :: "(((string, string) fmap \<times> (string \<times> string, string) fmap) \<times> redis_event list) redis_state" where
  "sample_redis_run =
     fold (redis_step (\<lambda>j. Inr VNil) (\<lambda>v. Inr []) (logged_redis sample_redis)) [RedisSet ''k'' ''v'' 0, RedisGet ''k'']
       (\<lparr>RedisCache = NewLRUCache 1000 (minutes 5), RedisConfig = redis_defaults None, RedisClientTTL = minutes 5\<rparr>,
        ((fmempty, fmempty), []))"

lemma sample_redis_empty: "\<not> cache_has k (sample_redis_client, w)"
  by (simp add: cache_has_def sample_redis_client_def NewLRUCache_def)

lemma fresh_client:
  assumes "NewRedisClient (logged_redis io) cfg (w, []) = (s, Inr c)" and "sint (ttl (RedisCache c)) \<le> T"
  shows "redis_fresh T (c, s)"
proof -
  obtain t where c: "RedisClientTTL c = t" "RedisCache c = NewLRUCache (RedisCacheCap (RedisConfig c)) t"
    using assms(1) by (auto simp: NewRedisClient_def Let_def split: prod.splits option.splits)
  have "sint t \<le> sint (ttl (NewLRUCache n t))" for n by (simp add: NewLRUCache_def minutes_def)
  with c assms(2) show ?thesis by (simp add: redis_fresh_def) (simp add: NewLRUCache_def)
qed

section \<open>Properties\<close>

text \<open>C20: after any calls of a client, every read of it (\<open>Get\<close>, \<open>HGet\<close>, both with a time to live, \<open>GetJSON\<close>) that answers
  without an error does so from one of three sources: the server, asked now for just that key or field; the cache,
  with what the server answered, at most \<open>T\<close> ago, for a key or field with the same cache key, when no key or field
  with this cache key was written or deleted through this client since; or nothing, when the server does not
  have the key or field. \<open>T\<close> bounds the times to live in use. The cache key is what counts: a key and a field
  may share one (theorem \<open>redis_key_collision\<close>), and the deletion of a hash is not one of its fields
  (lemma \<open>deleted_hash_answers\<close>).\<close>

theorem redis_staleness:
  assumes "NewRedisClient (logged_redis io) cfg (w, []) = (s0, Inr c)"
    and "fold (redis_step um ma (logged_redis io)) ops (c, s0) = s"
    and "sint (ttl (RedisCache c)) \<le> T" and "\<forall>op \<in> set ops. op_ttl_le T op"
  shows "(\<forall>op q s' v. op_ttl_le T op \<longrightarrow> redis_reply (logged_redis io) op s = Some (q, s', Inr v) \<longrightarrow>
      redis_source T io q v s s') \<and>
    (\<forall>k s' d. redis_GetJSON (logged_redis io) um k s = (s', Inr (Some d)) \<longrightarrow>
      (\<exists>v. um v = Inr d \<and> redis_source T io (AtKey k) v s s'))"
proof -
  have "redis_fresh T s"
    using fresh_steps [OF fresh_client [OF assms(1,3)] assms(4), of um ma io] assms(2) by simp
  from fresh_reply [OF _ this] fresh_GetJSON [OF _ this] show ?thesis by blast
qed

theorem redis_staleness_witness:
  "\<exists>s'. GetWithTTL (logged_redis sample_redis) ''k'' 5 sample_redis_run = (s', Inr ''v'') \<and>
    redis_source (sint (minutes 5)) sample_redis (AtKey ''k'') ''v'' sample_redis_run s'"
proof -
  let ?io = "logged_redis sample_redis"
  let ?c = "\<lparr>RedisCache = NewLRUCache 1000 (minutes 5), RedisConfig = redis_defaults None, RedisClientTTL = minutes 5\<rparr>"
  have new: "NewRedisClient ?io None ((fmempty, fmempty), []) = (((fmempty, fmempty), []), Inr ?c)"
    by (simp add: NewRedisClient_def logged_redis_def sample_redis_def redis_defaults_def Let_def)
  have run: "fold (redis_step (\<lambda>j. Inr VNil) (\<lambda>v. Inr []) ?io) [RedisSet ''k'' ''v'' 0, RedisGet ''k''] (?c, ((fmempty, fmempty), [])) =
      sample_redis_run" by (simp add: sample_redis_run_def)
  have T: "sint (ttl (RedisCache ?c)) \<le> sint (minutes 5)" "op_ttl_le (sint (minutes 5)) (RedisGetTTL ''k'' 5)"
    by (simp_all add: NewLRUCache_def minutes_def)
  have "snd (GetWithTTL ?io ''k'' 5 sample_redis_run) = Inr ''v''" by code_simp
  then have get: "GetWithTTL ?io ''k'' 5 sample_redis_run = (fst (GetWithTTL ?io ''k'' 5 sample_redis_run), Inr ''v'')"
    by (metis prod.collapse)
  then have reply: "redis_reply ?io (RedisGetTTL ''k'' 5) sample_redis_run =
      Some (AtKey ''k'', fst (GetWithTTL ?io ''k'' 5 sample_redis_run), Inr ''v'')" by simp
  have ttls: "\<forall>op \<in> set [RedisSet ''k'' ''v'' 0, RedisGet ''k'']. op_ttl_le (sint (minutes 5)) op" by simp
  from redis_staleness [OF new run T(1) ttls] T(2) reply get show ?thesis by blast
qed

text \<open>A field of a hash that was deleted is still answered from the cache.\<close>

lemma deleted_hash_answers:
  fixes s
  defines "s \<equiv> fst (redis_Delete sample_redis [''a''] (fst (HGetWithTTL sample_redis ''a'' ''b'' 5
    (sample_redis_client, (fmempty, fmupd (''a'', ''b'') ''v'' fmempty)))))"
  shows "snd (HGetWithTTL sample_redis ''a'' ''b'' 5 s) = Inr ''v''"
    and "snd (CmdHGet sample_redis (snd s) ''a'' ''b'') = Inl ErrRedisNil"
  unfolding s_def by code_simp+

text \<open>After a successful write or delete of a key, or of a field of a hash, the next read of it asks the server
  and never answers from the cache.\<close>

theorem redis_write_then_read:
  assumes "redis_Set io key v expiration s = (s', None) \<or> redis_SetJSON io marshal key d expiration s = (s', None) \<or>
      key \<in> set keys \<and> redis_Delete io keys s = (s', None)"
    and "redis_HSet io hkey field hv hs = (hs', None)"
  shows "snd (GetWithTTL io key t s') = reported ''redis: get failed: %w'' (snd (CmdGet io (snd s') key)) \<and>
    snd (HGetWithTTL io hkey field t hs') = reported ''redis: hget failed: %w'' (snd (CmdHGet io (snd hs') hkey field))"
proof -
  have "\<not> cache_has key s'"
    using assms(1)
    by (auto simp: redis_Set_def redis_SetJSON_def redis_Delete_def forget_has forget_all_has
        split: prod.splits option.splits sum.splits if_splits)
  moreover have "\<not> cache_has (hash_key hkey field) hs'"
    using assms(2) by (auto simp: redis_HSet_def forget_has split: prod.splits option.splits)
  ultimately show ?thesis by (simp add: GetWithTTL_def HGetWithTTL_def read_server)
qed

theorem redis_write_then_read_witness:
  "snd (GetWithTTL sample_redis ''k'' 5 (fst (redis_Set sample_redis ''k'' ''v'' 0 (sample_redis_client, (fmempty, fmempty))))) = Inr ''v''"
proof -
  let ?s = "redis_Set sample_redis ''k'' ''v'' 0 (sample_redis_client, (fmempty, fmempty))"
  let ?h = "redis_HSet sample_redis ''h'' ''f'' ''v'' (sample_redis_client, (fmempty, fmempty))"
  have "snd ?s = None" "snd ?h = None" by (simp_all add: redis_Set_def redis_HSet_def sample_redis_def)
  then have "?s = (fst ?s, None)" "?h = (fst ?h, None)" by (metis prod.collapse)+
  from redis_write_then_read [OF disjI1 [OF this(1)] this(2), of 5] show ?thesis
    by (simp add: reported_def redis_Set_def sample_redis_def)
qed

text \<open>A plain key and a field of a hash share an entry of the cache when the key is the name of the hash, a colon
  and the field: after a read of the field, a read of the key answers the value of the field, without
  asking the server, until it expires.\<close>

theorem redis_key_collision:
  assumes "\<not> cache_has (hash_key key field) s" and "CmdHGet io (snd s) key field = (w, Inr v)"
    and "HGetWithTTL io key field t s = (s', r)" and "RedisClock io w' \<le> RedisClock io w + sint t"
  shows "\<exists>c. GetWithTTL io (hash_key key field) t' (fst s', w') = ((c, w'), Inr v)"
proof -
  have s': "redis_read io (\<lambda>w. CmdHGet io w key field) ''redis: hget failed: %w'' (hash_key key field) t s = (s', r)"
    using assms(3) by (simp add: HGetWithTTL_def)
  from remembered [where cmd = "\<lambda>w. CmdHGet io w key field" and msg = "''redis: hget failed: %w''",
      OF assms(2,1,4)]
  have "redis_cached io (hash_key key field) (fst s', w') =
      (((fst s')\<lparr>RedisCache := move_to_front (hash_key key field) (RedisCache (fst s'))\<rparr>, w'), Some v)"
    by (simp add: s')
  then show ?thesis by (simp add: GetWithTTL_def redis_read_def)
qed

theorem redis_key_collision_witness:
  "\<exists>c w. GetWithTTL sample_redis ''a:b'' 5 (fst (HGetWithTTL sample_redis ''a'' ''b'' 5
     (sample_redis_client, (fmempty, fmupd (''a'', ''b'') ''v'' fmempty)))) = ((c, w), Inr ''v'')"
proof -
  let ?w = "(fmempty, fmupd (''a'', ''b'') ''v'' fmempty) :: (string, string) fmap \<times> (string \<times> string, string) fmap"
  have get: "CmdHGet sample_redis (snd (sample_redis_client, ?w)) ''a'' ''b'' = (?w, Inr ''v'')" by (simp add: sample_redis_def)
  have "RedisClock sample_redis (snd s) \<le> RedisClock sample_redis ?w + sint (5 :: 64 word)" for s :: "redis_client \<times> _"
    by (simp add: sample_redis_def)
  from redis_key_collision [OF sample_redis_empty get prod.collapse [symmetric] this, of 5] show ?thesis
    by (simp add: hash_key_def) (metis prod.collapse)
qed

text \<open>The enrichment never reports a failure of the server: it drops the event or passes it on as it was, and a
  value that was found changes the target field only.\<close>

theorem redis_enrich_outcome:
  assumes "KeyField (fst conf) \<noteq> []"
    and "redis_enrich_Execute io parse_json r conf s (IEvent ev) = (s', res)"
  shows "res = Inr (IEvent ev) \<or> res = Inl ErrDrop \<and> RedisDropOnError (fst conf) \<or>
    (\<exists>str. str \<noteq> [] \<and> res = Inr (IEvent (SetField ev (RedisTargetField (fst conf)) (redis_value parse_json str))))"
  using assms
  by (auto simp: redis_enrich_Execute_def redis_enrich_event_def Let_def
      split: option.splits prod.splits sum.splits if_splits)

theorem redis_enrich_outcome_witness:
  "\<exists>res. snd (redis_enrich_Execute sample_redis (\<lambda>s. Inr VNil) (\<lambda>v. [])
      (\<lparr>KeyField = ''k'', RedisTargetField = ''t'', RedisConfigName = [], HashField = [], CacheTTLText = [], RedisDropOnError = False\<rparr>, 5)
      (sample_redis_client, (fmempty, fmempty)) (IEvent (sample_event fmempty))) = Inr res"
proof -
  let ?conf = "(\<lparr>KeyField = ''k'', RedisTargetField = ''t'', RedisConfigName = [], HashField = [], CacheTTLText = [], RedisDropOnError = False\<rparr>, 5 :: 64 word)"
  obtain s' res where run: "redis_enrich_Execute sample_redis (\<lambda>s. Inr VNil) (\<lambda>v. []) ?conf
      (sample_redis_client, (fmempty, fmempty)) (IEvent (sample_event fmempty)) = (s', res)" by fastforce
  from redis_enrich_outcome [OF _ run] run show ?thesis by auto
qed

end
