(* ===== verification/Postgres.thy ===== *)
theory Postgres
  imports Cache Transform "HOL-Library.Multiset"
begin

text \<open>
  \<open>internal/enrichment/postgres\<close>: the client with its cache of prepared statements (\<open>client.go\<close>) and the
  transform \<open>enrich.postgres\<close> (\<open>enrichment.go\<close>). The database is an argument; a prepared statement is known
  by a handle. The lock around every use of the statement cache makes it one step, so the second look into
  the cache, for a statement another goroutine prepared in between, finds nothing new and is left out.
\<close>

section \<open>The client\<close>

record pg_settings =
  PgURL :: string
  PgMaxOpen :: int
  PgMaxIdle :: int
  PgLifetime :: "64 word"
  PgCacheTTL :: "64 word"
  PgCacheSize :: "64 word"

definition pg_defaults :: pg_settings where
  "pg_defaults = \<lparr>PgURL = [], PgMaxOpen = 25, PgMaxIdle = 5, PgLifetime = minutes 5, PgCacheTTL = minutes 10, PgCacheSize = 1000\<rparr>"

text \<open>
  Rows: the column names or the error of asking for them, the values of each row or the error of scanning
  it, and the error that ended the iteration
\<close>

record pg_rows =
  Columns :: "gerror + string list"
  RowValues :: "(gerror + gval list) list"
  RowsErr :: "gerror option"

text \<open>
  What \<open>database/sql\<close> does with the world \<open>'w\<close>. \<open>StmtQueryRow\<close> has the answer a \<open>Scan\<close> into one value gives;
  \<open>PqCode\<close> is the code of an error of the driver.
\<close>

record 'w pg_io =
  OpenDB :: "'w \<Rightarrow> string \<Rightarrow> 'w \<times> gerror option"
  PingDB :: "'w \<Rightarrow> 'w \<times> gerror option"
  CloseDB :: "'w \<Rightarrow> 'w \<times> gerror option"
  Prepare :: "'w \<Rightarrow> string \<Rightarrow> 'w \<times> (gerror + nat)"
  CloseStmt :: "nat \<Rightarrow> 'w \<Rightarrow> 'w"
  StmtQuery :: "'w \<Rightarrow> nat \<Rightarrow> gval list \<Rightarrow> 'w \<times> (gerror + pg_rows)"
  StmtQueryRow :: "'w \<Rightarrow> nat \<Rightarrow> gval list \<Rightarrow> 'w \<times> (gerror + gval)"
  StmtExec :: "'w \<Rightarrow> nat \<Rightarrow> gval list \<Rightarrow> 'w \<times> (gerror + int)"
  PqCode :: "gerror \<Rightarrow> string option"

abbreviation maxPreparedStmts :: nat where "maxPreparedStmts \<equiv> 500"

text \<open>The statements, the order of use (the last used first), and the queries that have an element in it\<close>

record pg_client =
  PgCache :: lru_cache
  stmtCache :: "(string, nat) fmap"
  stmtLRU :: "string list"
  stmtElements :: "string fset"

type_synonym 'w pg_state = "pg_client \<times> 'w"

definition NewPgClient :: "'w pg_io \<Rightarrow> pg_settings option \<Rightarrow> 'w \<Rightarrow> 'w \<times> (gerror + pg_client)" where
  "NewPgClient io cfg w =
     (let cfg = (case cfg of None \<Rightarrow> pg_defaults | Some c \<Rightarrow> c)
      in if PgURL cfg = [] then (w, Inl (Errorf ''postgres: connection URL is required'' []))
         else case OpenDB io w (PgURL cfg) of
                (w, Some err) \<Rightarrow> (w, Inl (wrap_err ''postgres: open failed: %w'' [] err))
              | (w, None) \<Rightarrow>
                  (case PingDB io w of
                     (w, Some err) \<Rightarrow> (fst (CloseDB io w), Inl (wrap_err ''postgres: ping failed: %w'' [] err))
                   | (w, None) \<Rightarrow>
                       (w, Inr \<lparr>PgCache = NewLRUCache (PgCacheSize cfg) (PgCacheTTL cfg), stmtCache = fmempty,
                                stmtLRU = [], stmtElements = {||}\<rparr>)))"

definition stmt_to_front :: "string \<Rightarrow> pg_client \<Rightarrow> pg_client" where
  "stmt_to_front q c = (if q |\<in>| stmtElements c then c\<lparr>stmtLRU := q # remove1 q (stmtLRU c)\<rparr> else c)"

definition pg_evictLRU :: "'w pg_io \<Rightarrow> 'w pg_state \<Rightarrow> 'w pg_state" where
  "pg_evictLRU io s =
     (case s of (c, w) \<Rightarrow>
        (if stmtLRU c = [] then (c, w)
         else
           (let q = last (stmtLRU c);
                c = c\<lparr>stmtLRU := butlast (stmtLRU c), stmtElements := stmtElements c |-| {|q|}\<rparr>
            in case fmlookup (stmtCache c) q of
                 None \<Rightarrow> (c, w)
               | Some stmt \<Rightarrow> (c\<lparr>stmtCache := fmdrop q (stmtCache c)\<rparr>, CloseStmt io stmt w))))"

text \<open>The code looks a second time when it has the write lock; the whole call is one step here, so it is left out.\<close>

definition PreparedStmt :: "'w pg_io \<Rightarrow> string \<Rightarrow> 'w pg_state \<Rightarrow> 'w pg_state \<times> (gerror + nat)" where
  "PreparedStmt io q s =
     (case fmlookup (stmtCache (fst s)) q of
        Some stmt \<Rightarrow> ((stmt_to_front q (fst s), snd s), Inr stmt)
      | None \<Rightarrow>
          (let s = (if fcard (fmdom (stmtCache (fst s))) \<ge> maxPreparedStmts then pg_evictLRU io s else s)
           in case Prepare io (snd s) q of
                (w, Inl err) \<Rightarrow> ((fst s, w), Inl (wrap_err ''postgres: prepare failed: %w'' [] err))
              | (w, Inr stmt) \<Rightarrow>
                  (((fst s)\<lparr>stmtCache := fmupd q stmt (stmtCache (fst s)), stmtLRU := q # stmtLRU (fst s),
                      stmtElements := finsert q (stmtElements (fst s))\<rparr>, w), Inr stmt)))"

definition removeInvalidStmt :: "'w pg_io \<Rightarrow> string \<Rightarrow> gerror \<Rightarrow> 'w pg_state \<Rightarrow> 'w pg_state" where
  "removeInvalidStmt io q err s =
     (case s of (c, w) \<Rightarrow>
        (if PqCode io err = Some ''26000'' \<or> PqCode io err = Some ''42P14'' then
           (case fmlookup (stmtCache c) q of
              None \<Rightarrow> (c, w)
            | Some stmt \<Rightarrow>
                (let c = c\<lparr>stmtCache := fmdrop q (stmtCache c)\<rparr>
                 in (if q |\<in>| stmtElements c
                     then c\<lparr>stmtLRU := remove1 q (stmtLRU c), stmtElements := stmtElements c |-| {|q|}\<rparr> else c,
                     CloseStmt io stmt w)))
         else (c, w)))"

text \<open>
  The two implementations of \<open>Row\<close>: one that only has the error, and one around the row of the database, with
  the error of its last \<open>Scan\<close>
\<close>

datatype row = ErrorRow gerror | RowWrapper "gerror + gval" "gerror option"

fun row_Scan :: "row \<Rightarrow> row \<times> (gerror + gval)" where
  "row_Scan (ErrorRow err) = (ErrorRow err, Inl err)"
| "row_Scan (RowWrapper r err) = (RowWrapper r (case r of Inl e \<Rightarrow> Some e | Inr v \<Rightarrow> None), r)"

fun row_Err :: "row \<Rightarrow> gerror option" where
  "row_Err (ErrorRow err) = Some err"
| "row_Err (RowWrapper r err) = err"

lemma row_Scan_Err: "row_Err (fst (row_Scan r)) = (case snd (row_Scan r) of Inl e \<Rightarrow> Some e | Inr v \<Rightarrow> None)"
  by (cases r) simp_all

definition pg_QueryRow :: "'w pg_io \<Rightarrow> string \<Rightarrow> gval list \<Rightarrow> 'w pg_state \<Rightarrow> 'w pg_state \<times> row" where
  "pg_QueryRow io q args s =
     (case PreparedStmt io q s of
        (s, Inl err) \<Rightarrow> (s, ErrorRow err)
      | (s, Inr stmt) \<Rightarrow> (case StmtQueryRow io (snd s) stmt args of (w, r) \<Rightarrow> ((fst s, w), RowWrapper r None)))"

definition pg_Query :: "'w pg_io \<Rightarrow> string \<Rightarrow> gval list \<Rightarrow> 'w pg_state \<Rightarrow> 'w pg_state \<times> (gerror + pg_rows)" where
  "pg_Query io q args s =
     (case PreparedStmt io q s of
        (s, Inl err) \<Rightarrow> (s, Inl err)
      | (s, Inr stmt) \<Rightarrow>
          (case StmtQuery io (snd s) stmt args of
             (w, Inl err) \<Rightarrow> (removeInvalidStmt io q err (fst s, w), Inl err)
           | (w, Inr rows) \<Rightarrow> ((fst s, w), Inr rows)))"

definition pg_Exec :: "'w pg_io \<Rightarrow> string \<Rightarrow> gval list \<Rightarrow> 'w pg_state \<Rightarrow> 'w pg_state \<times> (gerror + int)" where
  "pg_Exec io q args s =
     (case PreparedStmt io q s of
        (s, Inl err) \<Rightarrow> (s, Inl err)
      | (s, Inr stmt) \<Rightarrow>
          (case StmtExec io (snd s) stmt args of
             (w, Inl err) \<Rightarrow> (removeInvalidStmt io q err (fst s, w), Inl err)
           | (w, Inr n) \<Rightarrow> ((fst s, w), Inr n)))"

text \<open>\<open>ord\<close> is the order in which the map of statements is visited.\<close>

definition pg_Close :: "iter \<Rightarrow> 'w pg_io \<Rightarrow> 'w pg_state \<Rightarrow> 'w pg_state \<times> gerror option" where
  "pg_Close ord io s =
     (case s of (c, w) \<Rightarrow>
        (let w = fold (\<lambda>q. case fmlookup (stmtCache c) q of Some stmt \<Rightarrow> CloseStmt io stmt | None \<Rightarrow> (\<lambda>w. w))
                   (ord (fmdom (stmtCache c))) w
         in case CloseDB io w of
              (w, e) \<Rightarrow> ((c\<lparr>stmtCache := fmempty, stmtLRU := [], stmtElements := {||},
                           PgCache := cache_clear (PgCache c)\<rparr>, w), e)))"

definition pg_CacheStats :: "pg_client \<Rightarrow> nat \<times> nat" where
  "pg_CacheStats c = (cache_size (PgCache c), fcard (fmdom (stmtCache c)))"

definition pg_Health :: "'w pg_io \<Rightarrow> 'w pg_state \<Rightarrow> 'w pg_state \<times> gerror option" where
  "pg_Health io s = (case PingDB io (snd s) of (w, e) \<Rightarrow> ((fst s, w), e))"

section \<open>\<open>enrich.postgres\<close>\<close>

record pg_enrich_config =
  PgQuery :: string
  PgParams :: "string list"
  PgTargetField :: string
  PgOutputFields :: "string list"
  PgDropOnError :: bool

definition pg_enrich_Configure :: "pg_enrich_config unmarshal \<Rightarrow> string \<Rightarrow> gerror + pg_enrich_config" where
  "pg_enrich_Configure unmarshal raw =
     (case unmarshal raw of
        Inl err \<Rightarrow> Inl (wrap_err ''enrich.postgres configure: %w'' [] err)
      | Inr cfg \<Rightarrow>
          if PgQuery cfg = [] then Inl (Errorf ''enrich.postgres configure: query required'' [])
          else if PgTargetField cfg = [] then Inl (Errorf ''enrich.postgres configure: target_field required'' [])
          else Inr cfg)"

definition pg_error :: "pg_enrich_config \<Rightarrow> string \<Rightarrow> gerror \<Rightarrow> gerror" where
  "pg_error cfg msg err = (if PgDropOnError cfg then ErrDrop else wrap_err msg [] err)"

text \<open>The arguments, up to the first parameter the event does not have\<close>

fun pg_args :: "pg_enrich_config \<Rightarrow> event \<Rightarrow> string list \<Rightarrow> gerror + gval list" where
  "pg_args cfg ev [] = Inr []"
| "pg_args cfg ev (p # ps) =
     (case GetField ev p of
        None \<Rightarrow> Inl (if PgDropOnError cfg then ErrDrop else Errorf ''enrich.postgres: missing parameter %s'' [VStr p])
      | Some v \<Rightarrow> bind_res (pg_args cfg ev ps) (\<lambda>vs. Inr (v # vs)))"

definition pg_row :: "string list \<Rightarrow> string list \<Rightarrow> gval list \<Rightarrow> gval" where
  "pg_row outs cols values =
     VMap (Some (fold (\<lambda>(col, v) m. if col \<in> set outs then fmupd col v m else m) (zip cols values) fmempty))"

fun pg_scan_rows :: "pg_enrich_config \<Rightarrow> string list \<Rightarrow> (gerror + gval list) list \<Rightarrow> gerror + gval list" where
  "pg_scan_rows cfg cols [] = Inr []"
| "pg_scan_rows cfg cols (r # rs) =
     (case r of
        Inl err \<Rightarrow> Inl (pg_error cfg ''enrich.postgres: scan failed: %w'' err)
      | Inr values \<Rightarrow>
          bind_res (pg_scan_rows cfg cols rs) (\<lambda>vs. Inr (pg_row (PgOutputFields cfg) cols values # vs)))"

definition pg_collect :: "pg_enrich_config \<Rightarrow> pg_rows \<Rightarrow> gerror + gval" where
  "pg_collect cfg rows =
     (case Columns rows of
        Inl err \<Rightarrow> Inl (pg_error cfg ''enrich.postgres: get columns failed: %w'' err)
      | Inr cols \<Rightarrow>
          bind_res (pg_scan_rows cfg cols (RowValues rows)) (\<lambda>vs.
            case RowsErr rows of
              Some err \<Rightarrow> Inl (pg_error cfg ''enrich.postgres: rows iteration failed: %w'' err)
            | None \<Rightarrow> Inr (VTyped ''[]map[string]interface {}'' (Some vs))))"

text \<open>\<open>with_timeout\<close> is the world in which the context ends after the timeout of the transform.\<close>

definition pg_enrich_event ::
  "('w \<Rightarrow> 64 word \<Rightarrow> 'w) \<Rightarrow> 'w pg_io \<Rightarrow> 64 word \<Rightarrow> pg_enrich_config \<Rightarrow> 'w pg_state \<Rightarrow> event \<Rightarrow> 'w pg_state \<times> (gerror + item)" where
  "pg_enrich_event with_timeout io queryTimeout cfg s ev =
     (case pg_args cfg ev (PgParams cfg) of
        Inl err \<Rightarrow> (s, Inl err)
      | Inr args \<Rightarrow>
          (let s = (fst s, with_timeout (snd s) queryTimeout)
           in if length (PgOutputFields cfg) > 1 then
                (case pg_Query io (PgQuery cfg) args s of
                   (s, Inl err) \<Rightarrow> (s, Inl (pg_error cfg ''enrich.postgres execute: %w'' err))
                 | (s, Inr rows) \<Rightarrow>
                     (s, bind_res (pg_collect cfg rows) (\<lambda>v. Inr (IEvent (SetField ev (PgTargetField cfg) v)))))
              else
                (case map_prod (\<lambda>s. s) (\<lambda>row. snd (row_Scan row)) (pg_QueryRow io (PgQuery cfg) args s) of
                   (s, Inr v) \<Rightarrow> (s, Inr (IEvent (SetField ev (PgTargetField cfg) v)))
                 | (s, Inl err) \<Rightarrow>
                     (s, if error_is err ErrNoRows then Inr (IEvent (SetField ev (PgTargetField cfg) VNil))
                         else Inl (pg_error cfg ''enrich.postgres: scan failed: %w'' err)))))"

definition pg_enrich_Execute ::
  "('w \<Rightarrow> 64 word \<Rightarrow> 'w) \<Rightarrow> 'w pg_io \<Rightarrow> 64 word \<Rightarrow> pg_enrich_config option \<Rightarrow> 'w pg_state \<Rightarrow> item \<Rightarrow>
   'w pg_state \<times> (gerror + item)" where
  "pg_enrich_Execute with_timeout io queryTimeout config s x =
     (case config of
        None \<Rightarrow> (s, Inl (Errorf ''enrich.postgres: not configured'' []))
      | Some cfg \<Rightarrow>
          (case x of
             IEvent ev \<Rightarrow> pg_enrich_event with_timeout io queryTimeout cfg s ev
           | _ \<Rightarrow> (s, Inl (Errorf ''enrich.postgres: payload is not an event'' []))))"

definition query_timeout :: "64 word \<Rightarrow> 64 word" where
  "query_timeout t = (if sint t \<le> 0 then 10 * 10 ^ 9 else t)"

definition pg_enrich_factory ::
  "('w \<Rightarrow> 64 word \<Rightarrow> 'w) \<Rightarrow> 'w pg_io \<Rightarrow> 64 word \<Rightarrow> pg_enrich_config unmarshal \<Rightarrow> ('w pg_state) factory" where
  "pg_enrich_factory with_timeout io timeout unmarshal raw =
     bind_res (pg_enrich_Configure unmarshal raw) (\<lambda>cfg. Inr
       \<lparr>Name = ''enrich.postgres'', Exec = pg_enrich_Execute with_timeout io (query_timeout timeout) (Some cfg)\<rparr>)"

definition RegisterPostgresEnrichment ::
  "('w \<Rightarrow> 64 word \<Rightarrow> 'w) \<Rightarrow> 'w pg_io \<Rightarrow> pg_enrich_config unmarshal \<Rightarrow> enrichment_config \<Rightarrow> 'w \<Rightarrow> ('w pg_state) registry \<Rightarrow>
   'w \<times> (gerror + pg_client \<times> ('w pg_state) registry)" where
  "RegisterPostgresEnrichment with_timeout io unmarshal cfg w reg =
     (let p = Postgres cfg
      in case NewPgClient io (Some \<lparr>PgURL = PostgresURL p, PgMaxOpen = MaxOpenConns p, PgMaxIdle = PostgresMaxIdleConns p,
                PgLifetime = of_int (ConnMaxLifetime p), PgCacheTTL = minutes 10, PgCacheSize = 1000\<rparr>) w of
           (w', Inl err) \<Rightarrow> (w', Inl (wrap_err ''enrich.postgres: create client failed: %w'' [] err))
         | (w', Inr c) \<Rightarrow>
             (w', Inr (c, Register ''enrich.postgres''
                            (pg_enrich_factory with_timeout io (query_timeout (of_int (QueryTimeout p))) unmarshal) reg)))"

section \<open>The statements that are open\<close>

text \<open>A database that records the statements prepared and not closed\<close>

definition tracked_pg :: "'w pg_io \<Rightarrow> ('w \<times> nat multiset) pg_io" where
  "tracked_pg io =
     \<lparr>OpenDB = (\<lambda>s u. case OpenDB io (fst s) u of (w, e) \<Rightarrow> ((w, snd s), e)),
      PingDB = (\<lambda>s. case PingDB io (fst s) of (w, e) \<Rightarrow> ((w, snd s), e)),
      CloseDB = (\<lambda>s. case CloseDB io (fst s) of (w, e) \<Rightarrow> ((w, snd s), e)),
      Prepare = (\<lambda>s q. case Prepare io (fst s) q of
         (w, Inl e) \<Rightarrow> ((w, snd s), Inl e) | (w, Inr stmt) \<Rightarrow> ((w, add_mset stmt (snd s)), Inr stmt)),
      CloseStmt = (\<lambda>stmt s. (CloseStmt io stmt (fst s), snd s - {#stmt#})),
      StmtQuery = (\<lambda>s stmt args. case StmtQuery io (fst s) stmt args of (w, r) \<Rightarrow> ((w, snd s), r)),
      StmtQueryRow = (\<lambda>s stmt args. case StmtQueryRow io (fst s) stmt args of (w, r) \<Rightarrow> ((w, snd s), r)),
      StmtExec = (\<lambda>s stmt args. case StmtExec io (fst s) stmt args of (w, r) \<Rightarrow> ((w, snd s), r)),
      PqCode = PqCode io\<rparr>"

text \<open>The three structures hold the same queries, at most as many as allowed, and the open statements are theirs.\<close>

definition cached_stmts :: "pg_client \<Rightarrow> nat multiset" where
  "cached_stmts c = mset (map (\<lambda>q. the (fmlookup (stmtCache c) q)) (stmtLRU c))"

definition stmts_agree :: "pg_client \<Rightarrow> bool" where
  "stmts_agree c \<longleftrightarrow> distinct (stmtLRU c) \<and> set (stmtLRU c) = fset (fmdom (stmtCache c)) \<and> stmtElements c = fmdom (stmtCache c)"

definition pg_ok :: "('w \<times> nat multiset) pg_state \<Rightarrow> bool" where
  "pg_ok s \<longleftrightarrow> stmts_agree (fst s) \<and> length (stmtLRU (fst s)) \<le> maxPreparedStmts \<and> snd (snd s) = cached_stmts (fst s)"

lemma stmts_card: "stmts_agree c \<Longrightarrow> fcard (fmdom (stmtCache c)) = length (stmtLRU c)"
  using distinct_card [of "stmtLRU c"] by (simp add: stmts_agree_def fcard.rep_eq)

lemma agree_lookup: "stmts_agree c \<Longrightarrow> q \<in> set (stmtLRU c) \<longleftrightarrow> fmlookup (stmtCache c) q \<noteq> None"
  by (simp add: stmts_agree_def fmlookup_dom_iff)

lemma cached_stmts_drop:
  assumes "q \<in> set qs" and "distinct qs" and "fmlookup m q = Some stmt"
  shows "mset (map (\<lambda>r. the (fmlookup (fmdrop q m) r)) (remove1 q qs)) = mset (map (\<lambda>r. the (fmlookup m r)) qs) - {#stmt#}"
proof -
  have "map (\<lambda>r. the (fmlookup (fmdrop q m) r)) (remove1 q qs) = map (\<lambda>r. the (fmlookup m r)) (remove1 q qs)"
    using assms(2) by (intro map_cong) auto
  moreover have "mset qs = add_mset q (mset (remove1 q qs))" using assms(1) by simp
  ultimately show ?thesis
    using assms(3) by (metis (no_types, lifting) add_mset_remove_trivial image_mset_add_mset mset_map option.sel)
qed

lemma drop_stmt_ok:
  assumes "stmts_agree c" and "fmlookup (stmtCache c) q = Some stmt"
    and "c' = c\<lparr>stmtCache := fmdrop q (stmtCache c), stmtLRU := remove1 q (stmtLRU c), stmtElements := stmtElements c |-| {|q|}\<rparr>"
  shows "stmts_agree c' \<and> cached_stmts c' = cached_stmts c - {#stmt#} \<and> length (stmtLRU c') < length (stmtLRU c)"
proof -
  have q: "q \<in> set (stmtLRU c)" "distinct (stmtLRU c)" using assms(1,2) agree_lookup [OF assms(1), of q] by (simp_all add: stmts_agree_def)
  then have "length (stmtLRU c') < length (stmtLRU c)"
    using assms(3) length_pos_if_in_set [OF q(1)] by (simp add: length_remove1)
  with assms(1,3) q cached_stmts_drop [OF q assms(2)] show ?thesis
    by (auto simp: stmts_agree_def cached_stmts_def set_remove1_eq)
qed

lemma butlast_remove1: "distinct qs \<Longrightarrow> qs \<noteq> [] \<Longrightarrow> butlast qs = remove1 (last qs) qs"
  by (induction qs) auto

lemma evict_stmt_ok:
  assumes "pg_ok s" and "stmtLRU (fst s) \<noteq> []" and "pg_evictLRU (tracked_pg io) s = s'"
  shows "pg_ok s' \<and> length (stmtLRU (fst s')) < maxPreparedStmts \<and>
    (\<forall>q. fmlookup (stmtCache (fst s')) q \<noteq> None \<longrightarrow> fmlookup (stmtCache (fst s)) q \<noteq> None)"
proof -
  obtain c w l where s: "s = (c, (w, l))" by (metis prod.exhaust)
  let ?q = "last (stmtLRU c)"
  have c: "stmts_agree c" "length (stmtLRU c) \<le> maxPreparedStmts" "l = cached_stmts c" "stmtLRU c \<noteq> []"
    using assms(1,2) by (simp_all add: pg_ok_def s)
  obtain stmt where stmt: "fmlookup (stmtCache c) ?q = Some stmt" using c(1,4) agree_lookup [of c ?q] by auto
  have b: "butlast (stmtLRU c) = remove1 ?q (stmtLRU c)" using c(1,4) by (intro butlast_remove1) (simp_all add: stmts_agree_def)
  have "s' = (c\<lparr>stmtCache := fmdrop ?q (stmtCache c), stmtLRU := remove1 ?q (stmtLRU c), stmtElements := stmtElements c |-| {|?q|}\<rparr>,
      (CloseStmt io stmt w, l - {#stmt#}))"
    using assms(3) c(4) stmt by (auto simp: pg_evictLRU_def s b tracked_pg_def Let_def)
  with drop_stmt_ok [OF c(1) stmt refl] c(2,3) show ?thesis by (auto simp: pg_ok_def s)
qed

lemma remove1_mset_map: "q \<in> set qs \<Longrightarrow> mset (map f (q # remove1 q qs)) = mset (map f qs)"
proof -
  assume "q \<in> set qs"
  then have "mset qs = add_mset q (mset (remove1 q qs))" by simp
  then have "image_mset f (mset qs) = add_mset (f q) (image_mset f (mset (remove1 q qs)))" by (metis image_mset_add_mset)
  then show ?thesis by (simp add: mset_map)
qed

lemma PreparedStmt_new:
  assumes "fmlookup (stmtCache (fst s)) q = None"
    and "(if fcard (fmdom (stmtCache (fst s))) \<ge> maxPreparedStmts then pg_evictLRU io s else s) = (c, w)"
    and "Prepare io w q = (w', r)"
  shows "PreparedStmt io q s =
    (case r of Inl err \<Rightarrow> ((c, w'), Inl (wrap_err ''postgres: prepare failed: %w'' [] err))
     | Inr stmt \<Rightarrow> ((c\<lparr>stmtCache := fmupd q stmt (stmtCache c), stmtLRU := q # stmtLRU c,
                        stmtElements := finsert q (stmtElements c)\<rparr>, w'), Inr stmt))"
  unfolding PreparedStmt_def assms(1) Let_def assms(2) option.case snd_conv assms(3)
  by (simp split: sum.split)

lemma PreparedStmt_ok:
  assumes "pg_ok s" and "PreparedStmt (tracked_pg io) q s = (s', r)"
  shows "pg_ok s' \<and> (\<forall>stmt. r = Inr stmt \<longrightarrow> fmlookup (stmtCache (fst s')) q = Some stmt)"
proof (cases "fmlookup (stmtCache (fst s)) q")
  case (Some stmt)
  have a: "stmts_agree (fst s)" using assms(1) by (simp add: pg_ok_def)
  have q: "q \<in> set (stmtLRU (fst s))" "q |\<in>| stmtElements (fst s)" using a Some by (auto simp: stmts_agree_def fmlookup_dom_iff)
  have s': "s' = ((fst s)\<lparr>stmtLRU := q # remove1 q (stmtLRU (fst s))\<rparr>, snd s)" "r = Inr stmt"
    using assms(2) Some q(2) by (auto simp: PreparedStmt_def stmt_to_front_def)
  have "pg_ok s'"
    using assms(1) q(1) length_pos_if_in_set [OF q(1)] remove1_mset_map [OF q(1), of "\<lambda>q. the (fmlookup (stmtCache (fst s)) q)"]
    by (auto simp: s' pg_ok_def stmts_agree_def cached_stmts_def length_remove1 set_remove1_eq)
  with s' Some show ?thesis by simp
next
  case None
  let ?s = "if fcard (fmdom (stmtCache (fst s))) \<ge> maxPreparedStmts then pg_evictLRU (tracked_pg io) s else s"
  have a: "stmts_agree (fst s)" using assms(1) by (simp add: pg_ok_def)
  have ok: "pg_ok ?s" and room: "length (stmtLRU (fst ?s)) < maxPreparedStmts" and new: "fmlookup (stmtCache (fst ?s)) q = None"
  proof -
    have "stmtLRU (fst s) \<noteq> []" if "fcard (fmdom (stmtCache (fst s))) \<ge> maxPreparedStmts"
      using that stmts_card [OF a] by auto
    note e = evict_stmt_ok [OF assms(1) _ refl, of io] and n = this
    show "pg_ok ?s" "length (stmtLRU (fst ?s)) < maxPreparedStmts" using e n assms(1) stmts_card [OF a] by auto
    have "fmlookup (stmtCache (fst (pg_evictLRU (tracked_pg io) s))) q = None" if "stmtLRU (fst s) \<noteq> []"
      using e [OF that] None by blast
    with n None show "fmlookup (stmtCache (fst ?s)) q = None" by simp
  qed
  obtain c w l where s: "?s = (c, (w, l))" by (metis prod.exhaust)
  obtain w1 l1 r1 where p: "Prepare (tracked_pg io) (w, l) q = ((w1, l1), r1)" by (metis prod.exhaust)
  note n = PreparedStmt_new [OF None s p]
  have l1: "l1 = (case r1 of Inl _ \<Rightarrow> l | Inr stmt \<Rightarrow> add_mset stmt l)"
    using p by (auto simp: tracked_pg_def split: prod.splits sum.splits)
  show ?thesis
  proof (cases r1)
    case (Inl err)
    then have "s' = (c, (w1, l))" "\<exists>e. r = Inl e"
      using assms(2) n l1 by auto
    with ok show ?thesis by (auto simp: pg_ok_def s)
  next
    case (Inr stmt)
    let ?c = "c\<lparr>stmtCache := fmupd q stmt (stmtCache c), stmtLRU := q # stmtLRU c, stmtElements := finsert q (stmtElements c)\<rparr>"
    have s': "s' = (?c, (w1, add_mset stmt l))" "r = Inr stmt"
      using assms(2) n l1 Inr by auto
    have notin: "q \<notin> set (stmtLRU c)" using new ok agree_lookup [of c q] by (simp add: pg_ok_def s)
    then have "map (\<lambda>r. the (fmlookup (fmupd q stmt (stmtCache c)) r)) (stmtLRU c) = map (\<lambda>r. the (fmlookup (stmtCache c) r)) (stmtLRU c)"
      by (intro map_cong) auto
    then have "cached_stmts ?c = add_mset stmt (cached_stmts c)" by (simp add: cached_stmts_def del: mset_map map_eq_conv)
    with ok room notin show ?thesis
      by (auto simp: s' pg_ok_def s stmts_agree_def)
  qed
qed

lemma removeInvalidStmt_ok:
  assumes "pg_ok s"
  shows "pg_ok (removeInvalidStmt (tracked_pg io) q err s)"
proof -
  obtain c w l where s: "s = (c, (w, l))" by (metis prod.exhaust)
  have c: "stmts_agree c" "length (stmtLRU c) \<le> maxPreparedStmts" "l = cached_stmts c" using assms by (simp_all add: pg_ok_def s)
  show ?thesis
  proof (cases "fmlookup (stmtCache c) q")
    case None
    with assms show ?thesis by (simp add: removeInvalidStmt_def s)
  next
    case (Some stmt)
    have q: "q |\<in>| stmtElements c" using c(1) Some by (simp add: stmts_agree_def fmdomI)
    from drop_stmt_ok [OF c(1) Some refl] c(2,3) assms q Some show ?thesis
      by (auto simp: removeInvalidStmt_def s pg_ok_def tracked_pg_def Let_def)
  qed
qed

text \<open>What a caller may do with the client\<close>

datatype pg_op = PgPrepare string | PgQueryRow string "gval list" | PgQueryRows string "gval list" | PgExec string "gval list" | PgHealth | PgClose

fun pg_step :: "iter \<Rightarrow> 'w pg_io \<Rightarrow> pg_op \<Rightarrow> 'w pg_state \<Rightarrow> 'w pg_state" where
  "pg_step ord io (PgPrepare q) s = fst (PreparedStmt io q s)"
| "pg_step ord io (PgQueryRow q args) s = fst (pg_QueryRow io q args s)"
| "pg_step ord io (PgQueryRows q args) s = fst (pg_Query io q args s)"
| "pg_step ord io (PgExec q args) s = fst (pg_Exec io q args s)"
| "pg_step ord io PgHealth s = fst (pg_Health io s)"
| "pg_step ord io PgClose s = fst (pg_Close ord io s)"

lemma tracked_world:
  "StmtQueryRow (tracked_pg io) w stmt args = (w', r) \<Longrightarrow> snd w' = snd w"
  "StmtQuery (tracked_pg io) w stmt args = (w', r') \<Longrightarrow> snd w' = snd w"
  "StmtExec (tracked_pg io) w stmt args = (w', r'') \<Longrightarrow> snd w' = snd w"
  "PingDB (tracked_pg io) w = (w', e) \<Longrightarrow> snd w' = snd w"
  "CloseDB (tracked_pg io) w = (w', e) \<Longrightarrow> snd w' = snd w"
  by (auto simp: tracked_pg_def split: prod.splits)

lemma pg_same: "pg_ok (c, w) \<Longrightarrow> snd w' = snd w \<Longrightarrow> pg_ok (c, w')"
  by (simp add: pg_ok_def)

lemma Prepared_ok:
  "pg_ok s \<Longrightarrow> PreparedStmt (tracked_pg io) q s = ((c, w), r) \<Longrightarrow> snd w' = snd w \<Longrightarrow> pg_ok (c, w')"
  using PreparedStmt_ok [of s io q "(c, w)" r] pg_same by blast

lemma QueryRow_ok:
  assumes "pg_ok s"
  shows "pg_ok (fst (pg_QueryRow (tracked_pg io) q args s))"
proof -
  obtain c w r where p: "PreparedStmt (tracked_pg io) q s = ((c, w), r)" by (metis prod.exhaust)
  note ok = Prepared_ok [OF assms p]
  show ?thesis
    by (cases r; cases "StmtQueryRow (tracked_pg io) w (projr r) args")
      (simp_all add: pg_QueryRow_def p ok tracked_world(1))
qed

lemma Query_ok:
  assumes "pg_ok s"
  shows "pg_ok (fst (pg_Query (tracked_pg io) q args s))"
proof -
  obtain c w r where p: "PreparedStmt (tracked_pg io) q s = ((c, w), r)" by (metis prod.exhaust)
  note ok = Prepared_ok [OF assms p]
  obtain w' r' where q: "StmtQuery (tracked_pg io) w (projr r) args = (w', r')" by fastforce
  show ?thesis
    using removeInvalidStmt_ok [OF ok [OF tracked_world(2) [OF q]], of io q] ok [OF tracked_world(2) [OF q]] ok [OF refl] q
    by (cases r; cases r') (simp_all add: pg_Query_def p)
qed

lemma Exec_ok:
  assumes "pg_ok s"
  shows "pg_ok (fst (pg_Exec (tracked_pg io) q args s))"
proof -
  obtain c w r where p: "PreparedStmt (tracked_pg io) q s = ((c, w), r)" by (metis prod.exhaust)
  note ok = Prepared_ok [OF assms p]
  obtain w' r' where q: "StmtExec (tracked_pg io) w (projr r) args = (w', r')" by fastforce
  show ?thesis
    using removeInvalidStmt_ok [OF ok [OF tracked_world(3) [OF q]], of io q] ok [OF tracked_world(3) [OF q]] ok [OF refl] q
    by (cases r; cases r') (simp_all add: pg_Exec_def p)
qed

lemma close_stmts:
  "snd (fold (\<lambda>q. case fmlookup m q of Some stmt \<Rightarrow> CloseStmt (tracked_pg io) stmt | None \<Rightarrow> (\<lambda>w. w)) qs w) =
   snd w - mset (map (\<lambda>q. the (fmlookup m q)) (filter (\<lambda>q. fmlookup m q \<noteq> None) qs))"
  by (induction qs arbitrary: w) (auto simp: tracked_pg_def split: option.splits)

lemma Close_ok:
  assumes "iter_ok ord" and "pg_ok s"
  shows "pg_ok (fst (pg_Close ord (tracked_pg io) s)) \<and> snd (snd (fst (pg_Close ord (tracked_pg io) s))) = {#}"
proof -
  obtain c w where s: "s = (c, w)" by (metis prod.exhaust)
  let ?f = "\<lambda>q. the (fmlookup (stmtCache c) q)" and ?qs = "ord (fmdom (stmtCache c))"
  have qs: "distinct ?qs" "set ?qs = fset (fmdom (stmtCache c))" using iter_okD [OF assms(1)] by simp_all
  have "filter (\<lambda>q. fmlookup (stmtCache c) q \<noteq> None) ?qs = ?qs" using qs(2) by (auto simp: filter_id_conv fmlookup_dom_iff)
  moreover have "mset ?qs = mset (stmtLRU c)"
    using qs assms(2) by (simp add: pg_ok_def s stmts_agree_def set_eq_iff_mset_eq_distinct [symmetric])
  then have "mset (map ?f ?qs) = snd w" using assms(2) by (simp add: pg_ok_def s cached_stmts_def mset_map)
  ultimately have "snd (fold (\<lambda>q. case fmlookup (stmtCache c) q of Some stmt \<Rightarrow> CloseStmt (tracked_pg io) stmt | None \<Rightarrow> (\<lambda>w. w)) ?qs w) = {#}"
    using close_stmts [of io "stmtCache c" ?qs w] by simp
  then show ?thesis
    by (auto simp: pg_Close_def s Let_def pg_ok_def stmts_agree_def cached_stmts_def split: prod.splits dest: tracked_world(5))
qed

lemma pg_step_ok:
  assumes "iter_ok ord" and "pg_ok s"
  shows "pg_ok (pg_step ord (tracked_pg io) op s)"
proof (cases op)
  case (PgPrepare q)
  then show ?thesis using PreparedStmt_ok [OF assms(2), of io q] by (cases "PreparedStmt (tracked_pg io) q s") simp
next
  case PgHealth
  obtain c w w' e where "s = (c, w)" "PingDB (tracked_pg io) w = (w', e)" by (metis prod.exhaust)
  then show ?thesis using assms(2) PgHealth pg_same [of c w w'] tracked_world(4) [of io w w' e] by (simp add: pg_Health_def)
qed (simp_all only: pg_step.simps QueryRow_ok [OF assms(2)] Query_ok [OF assms(2)] Exec_ok [OF assms(2)] Close_ok [OF assms])

lemma pg_run_ok: "iter_ok ord \<Longrightarrow> pg_ok s \<Longrightarrow> pg_ok (fold (pg_step ord (tracked_pg io)) ops s)"
proof (induction ops arbitrary: s)
  case (Cons op ops)
  from Cons.IH [OF Cons.prems(1) pg_step_ok [OF Cons.prems]] show ?case by simp
qed simp

lemma NewPgClient_ok:
  assumes "NewPgClient (tracked_pg io) cfg (w, {#}) = (w', Inr c)"
  shows "pg_ok (c, w')"
proof -
  have "snd w' = {#} \<and> stmtCache c = fmempty \<and> stmtLRU c = [] \<and> stmtElements c = {||}"
    using assms by (auto simp: NewPgClient_def Let_def tracked_pg_def split: if_splits prod.splits option.splits)
  then show ?thesis by (simp add: pg_ok_def stmts_agree_def cached_stmts_def)
qed

lemma pg_args_missing: "(\<exists>p \<in> set ps. GetField ev p = None) \<longleftrightarrow> (\<exists>err. pg_args cfg ev ps = Inl err)"
  by (induction ps) (auto simp: bind_res_def split: option.splits sum.splits)

lemma pg_args_error: "pg_args cfg ev ps = Inl err \<Longrightarrow> PgDropOnError cfg \<Longrightarrow> err = ErrDrop"
  by (induction ps arbitrary: err) (auto simp: bind_res_def split: option.splits sum.splits)

definition only_fields :: "string list \<Rightarrow> gval \<Rightarrow> bool" where
  "only_fields outs v \<longleftrightarrow> (\<exists>m. v = VMap (Some m) \<and> fset (fmdom m) \<subseteq> set outs)"

lemma pg_row_fields: "only_fields outs (pg_row outs cols values)"
proof -
  have "fset (fmdom (fold (\<lambda>(col, v) m. if col \<in> set outs then fmupd col v m else m) kvs m)) \<subseteq> fset (fmdom m) \<union> set outs" for kvs m
  proof (induction kvs arbitrary: m)
    case (Cons kv kvs)
    obtain k v where kv: "kv = (k, v)" by fastforce
    from Cons [of "if k \<in> set outs then fmupd k v m else m"] show ?case by (auto simp: kv split: if_splits)
  qed simp
  from this [of "zip cols values" fmempty] show ?thesis by (simp add: only_fields_def pg_row_def)
qed

lemma pg_scan_rows_result:
  "pg_scan_rows cfg cols rs = r \<Longrightarrow>
   (case r of Inl err \<Rightarrow> PgDropOnError cfg \<longrightarrow> err = ErrDrop
    | Inr vs \<Rightarrow> length vs = length rs \<and> (\<forall>v \<in> set vs. only_fields (PgOutputFields cfg) v))"
  by (induction rs arbitrary: r)
    (force simp: bind_res_def pg_error_def pg_row_fields split: sum.splits)+

lemma pg_collect_result:
  "pg_collect cfg rows = r \<Longrightarrow>
   (case r of Inl err \<Rightarrow> PgDropOnError cfg \<longrightarrow> err = ErrDrop
    | Inr v \<Rightarrow> \<exists>vs. v = VTyped ''[]map[string]interface {}'' (Some vs) \<and> length vs = length (RowValues rows) \<and>
        (\<forall>u \<in> set vs. only_fields (PgOutputFields cfg) u))"
  using pg_scan_rows_result [of cfg _ "RowValues rows"]
  by (force simp: pg_collect_def bind_res_def pg_error_def split: sum.splits option.splits)

section \<open>Properties\<close>

text \<open>C16: Whatever the callers of a new client do and whatever the database answers, the three structures of its
  cache hold the same queries, never more than 500 of them, and the statements open at the database are those
  of the cache, each once: evicting, dropping and closing leak none.\<close>

theorem pg_statements_owned:
  assumes "NewPgClient (tracked_pg io) cfg (w, {#}) = (w', Inr c)" and "iter_ok ord"
    and "fold (pg_step ord (tracked_pg io)) ops (c, w') = (c2, (w2, opened))"
  shows "distinct (stmtLRU c2) \<and> set (stmtLRU c2) = fset (fmdom (stmtCache c2)) \<and> stmtElements c2 = fmdom (stmtCache c2) \<and>
    length (stmtLRU c2) \<le> maxPreparedStmts \<and>
    opened = mset (map (\<lambda>q. the (fmlookup (stmtCache c2) q)) (stmtLRU c2))"
  using pg_run_ok [OF assms(2) NewPgClient_ok [OF assms(1)], of io ops] assms(3)
  by (simp add: pg_ok_def stmts_agree_def cached_stmts_def)

text \<open>A database that numbers its statements and knows every one of them but the first\<close>

definition sample_pg :: "nat pg_io" where
  "sample_pg =
     \<lparr>OpenDB = (\<lambda>w u. (w, None)), PingDB = (\<lambda>w. (w, None)), CloseDB = (\<lambda>w. (w, None)),
      Prepare = (\<lambda>w q. (w + 1, Inr w)), CloseStmt = (\<lambda>stmt w. w),
      StmtQuery = (\<lambda>w stmt args. (w, if stmt = 0 then Inl (Errorf ''pq'' []) else Inr \<lparr>Columns = Inr [], RowValues = [], RowsErr = None\<rparr>)),
      StmtQueryRow = (\<lambda>w stmt args. (w, if stmt = 0 then Inl (Errorf ''pq'' []) else Inr VNil)),
      StmtExec = (\<lambda>w stmt args. (w, Inr 1)), PqCode = (\<lambda>e. Some ''26000'')\<rparr>"

definition sample_pg_client :: pg_client where
  "sample_pg_client = \<lparr>PgCache = NewLRUCache 10 0, stmtCache = fmupd ''q'' 0 fmempty, stmtLRU = [''q''], stmtElements = {|''q''|}\<rparr>"

theorem pg_statements_owned_witness:
  "\<exists>c w2. fold (pg_step sorted_keys (tracked_pg sample_pg)) [PgPrepare ''a'']
     (\<lparr>PgCache = NewLRUCache 1000 (minutes 10), stmtCache = fmempty, stmtLRU = [], stmtElements = {||}\<rparr>, (0, {#})) = (c, (w2, {#0#}))"
proof -
  let ?c = "\<lparr>PgCache = NewLRUCache 1000 (minutes 10), stmtCache = fmempty, stmtLRU = [], stmtElements = {||}\<rparr>"
  have new: "NewPgClient (tracked_pg sample_pg) (Some (pg_defaults\<lparr>PgURL := ''u''\<rparr>)) (0, {#}) = ((0, {#}), Inr ?c)"
    by (simp add: NewPgClient_def tracked_pg_def sample_pg_def pg_defaults_def)
  have "PreparedStmt (tracked_pg sample_pg) ''a'' (?c, (0, {#})) =
      ((?c\<lparr>stmtCache := fmupd ''a'' 0 fmempty, stmtLRU := [''a''], stmtElements := {|''a''|}\<rparr>, (1, {#0#})), Inr 0)"
    by (subst PreparedStmt_new [where c = ?c and w = "(0, {#})" and w' = "(1, {#0#})" and r = "Inr 0"])
      (simp_all add: tracked_pg_def sample_pg_def fcard_fempty)
  then have run: "fold (pg_step sorted_keys (tracked_pg sample_pg)) [PgPrepare ''a''] (?c, (0, {#})) =
      (?c\<lparr>stmtCache := fmupd ''a'' 0 fmempty, stmtLRU := [''a''], stmtElements := {|''a''|}\<rparr>, (1, {#0#}))" by simp
  from pg_statements_owned [OF new iter_ok_sorted run] run show ?thesis by auto
qed

text \<open>A statement the server has forgotten (26000 or 42P14) is dropped after a failed \<open>Query\<close> or \<open>Exec\<close>, so the
  next use prepares it again; \<open>QueryRow\<close>, whose error only comes with the \<open>Scan\<close>, keeps it and uses it for ever.\<close>

theorem pg_invalid_statement:
  assumes "fmlookup (stmtCache c) q = Some stmt" and "q |\<in>| stmtElements c" and "PqCode io err = Some ''26000''"
    and "StmtQuery io w stmt args = (w1, Inl err)" and "StmtQueryRow io w stmt args = (w2, Inl err)"
    and "stmtLRU c = q # qs"
  shows "(\<exists>c1. pg_Query io q args (c, w) = ((c1, CloseStmt io stmt w1), Inl err) \<and> fmlookup (stmtCache c1) q = None) \<and>
    pg_QueryRow io q args (c, w) = ((c, w2), RowWrapper (Inl err) None) \<and> PreparedStmt io q (c, w2) = ((c, w2), Inr stmt)"
  using assms by (auto simp: pg_Query_def pg_QueryRow_def PreparedStmt_def stmt_to_front_def removeInvalidStmt_def Let_def)

theorem pg_invalid_statement_witness:
  "pg_QueryRow sample_pg ''q'' [] (sample_pg_client, 7) = ((sample_pg_client, 7), RowWrapper (Inl (Errorf ''pq'' [])) None) \<and>
   (\<exists>c1. pg_Query sample_pg ''q'' [] (sample_pg_client, 7) = ((c1, 7), Inl (Errorf ''pq'' [])) \<and> fmlookup (stmtCache c1) ''q'' = None)"
  using pg_invalid_statement [of sample_pg_client "''q''" 0 sample_pg "Errorf ''pq'' []" 7 "[]" 7 7 "[]"]
  by (simp add: sample_pg_def sample_pg_client_def)

text \<open>C36: An enriched event differs in the target field only, which holds one map per row with none but the output
  fields where several were asked for; a missing parameter is an error before the database is used, and with
  \<open>drop_on_error\<close> every error drops the event.\<close>

theorem pg_enrich_outcome:
  assumes "pg_enrich_Execute with_timeout io t (Some cfg) s (IEvent ev) = (s', res)"
  shows "(case res of
        Inr x \<Rightarrow> (\<exists>v. x = IEvent (SetField ev (PgTargetField cfg) v) \<and>
          (length (PgOutputFields cfg) > 1 \<longrightarrow>
            (\<exists>vs. v = VTyped ''[]map[string]interface {}'' (Some vs) \<and> (\<forall>u \<in> set vs. only_fields (PgOutputFields cfg) u))))
      | Inl err \<Rightarrow> PgDropOnError cfg \<longrightarrow> err = ErrDrop) \<and>
    ((\<exists>p \<in> set (PgParams cfg). GetField ev p = None) \<longrightarrow> s' = s \<and> (\<exists>err. res = Inl err))"
proof (cases "pg_args cfg ev (PgParams cfg)")
  case (Inl err)
  with assms pg_args_error [OF Inl] show ?thesis by (auto simp: pg_enrich_Execute_def pg_enrich_event_def)
next
  case (Inr args)
  then have present: "\<not> (\<exists>p \<in> set (PgParams cfg). GetField ev p = None)" using pg_args_missing [of "PgParams cfg" ev cfg] by simp
  show ?thesis
    using assms Inr present pg_collect_result [of cfg _ _, OF refl]
    by (fastforce simp: pg_enrich_Execute_def pg_enrich_event_def Let_def bind_res_def pg_error_def
        split: if_splits prod.splits sum.splits)
qed

definition sample_pg_config :: pg_enrich_config where
  "sample_pg_config = \<lparr>PgQuery = ''q'', PgParams = [''missing''], PgTargetField = ''t'', PgOutputFields = [], PgDropOnError = True\<rparr>"

theorem pg_enrich_outcome_witness:
  "pg_enrich_Execute (\<lambda>w t. w) sample_pg 1 (Some sample_pg_config) (sample_pg_client, 0) (IEvent (sample_event fmempty)) =
     ((sample_pg_client, 0), Inl ErrDrop)"
proof -
  obtain s' res where run: "pg_enrich_Execute (\<lambda>w t. w) sample_pg 1 (Some sample_pg_config) (sample_pg_client, 0)
      (IEvent (sample_event fmempty)) = (s', res)" by fastforce
  have "GetField (sample_event fmempty) ''missing'' = None" by code_simp
  with pg_enrich_outcome [OF run] run show ?thesis by (auto simp: sample_pg_config_def split: sum.splits)
qed

end
