(* ===== verification/Processor.thy ===== *)
theory Processor
  imports Go_Value "HOL-Library.Multiset"
begin

text \<open>
  \<open>internal/consumer/processor.go\<close>: the pool of handlers behind a semaphore. Callers of \<open>Enqueue\<close>, the
  goroutines of the handlers and a caller of \<open>Stop\<close> run at the same time; each access to the flag, to the
  channel and to the wait group is a step of its own, so the steps of all of them interleave freely.
\<close>

section \<open>The processor\<close>

text \<open>The places of the semaphore, those taken, the counter of the wait group and the flag of the shutdown\<close>

record processor =
  Capacity :: int
  InUse :: nat
  WaitGroup :: nat
  ShutFlag :: bool

definition NewProcessor :: "int \<Rightarrow> bool \<Rightarrow> gerror + processor" where
  "NewProcessor concurrency has_handler =
     (if \<not> has_handler then Inl (ErrPanic ''handler cannot be nil'')
      else Inr \<lparr>Capacity = (if concurrency < 1 then 1 else concurrency), InUse = 0, WaitGroup = 0, ShutFlag = False\<rparr>)"

text \<open>The guards \<open>Enqueue\<close> starts with\<close>

definition enqueue_guard :: "processor option \<Rightarrow> gerror option" where
  "enqueue_guard p =
     (case p of
        None \<Rightarrow> Some (Errorf ''processor is nil'' [])
      | Some p \<Rightarrow> if ShutFlag p then Some (Errorf ''processor is shutting down'' []) else None)"

section \<open>Steps\<close>

text \<open>
  The callers that passed the guards and wait in the \<open>select\<close>, those that have a place and have not yet
  called \<open>wg.Add\<close>, the events whose handler runs, the goroutines between giving back their place and
  \<open>wg.Done\<close>, the events whose handler has returned, those \<open>Enqueue\<close> returned nil for, and whether \<open>Stop\<close> was
  called and has returned nil.
\<close>

record 'e pool =
  Proc :: processor
  Waiting :: "'e multiset"
  Holding :: "'e multiset"
  Running :: "'e multiset"
  Leaving :: nat
  Handled :: "'e multiset"
  Accepted :: "'e multiset"
  Stopping :: bool
  Stopped :: bool

definition start_pool :: "processor \<Rightarrow> 'e pool" where
  "start_pool p = \<lparr>Proc = p, Waiting = {#}, Holding = {#}, Running = {#}, Leaving = 0, Handled = {#}, Accepted = {#},
                  Stopping = False, Stopped = False\<rparr>"

datatype 'e action =
    Pass 'e | Refuse 'e gerror | Acquire 'e | Cancel 'e | Spawn 'e | Return 'e | Done | StopCall | StopReturn | StopTimeout

definition with_proc :: "(processor \<Rightarrow> processor) \<Rightarrow> 'e pool \<Rightarrow> 'e pool" where
  "with_proc f s = s\<lparr>Proc := f (Proc s)\<rparr>"

inductive pool_step :: "'e pool \<Rightarrow> 'e action \<Rightarrow> 'e pool \<Rightarrow> bool" where
  pass: "enqueue_guard (Some (Proc s)) = None \<Longrightarrow> pool_step s (Pass e) (s\<lparr>Waiting := add_mset e (Waiting s)\<rparr>)"
| refuse: "enqueue_guard (Some (Proc s)) = Some err \<Longrightarrow> pool_step s (Refuse e err) s"
| acquire: "e \<in># Waiting s \<Longrightarrow> int (InUse (Proc s)) < Capacity (Proc s) \<Longrightarrow>
    pool_step s (Acquire e) (with_proc (\<lambda>p. p\<lparr>InUse := InUse p + 1\<rparr>)
      (s\<lparr>Waiting := Waiting s - {#e#}, Holding := add_mset e (Holding s)\<rparr>))"
| cancel: "e \<in># Waiting s \<Longrightarrow> pool_step s (Cancel e) (s\<lparr>Waiting := Waiting s - {#e#}\<rparr>)"
| spawn: "e \<in># Holding s \<Longrightarrow>
    pool_step s (Spawn e) (with_proc (\<lambda>p. p\<lparr>WaitGroup := WaitGroup p + 1\<rparr>)
      (s\<lparr>Holding := Holding s - {#e#}, Running := add_mset e (Running s), Accepted := add_mset e (Accepted s)\<rparr>))"
| give_back: "e \<in># Running s \<Longrightarrow>
    pool_step s (Return e) (with_proc (\<lambda>p. p\<lparr>InUse := InUse p - 1\<rparr>)
      (s\<lparr>Running := Running s - {#e#}, Handled := add_mset e (Handled s), Leaving := Leaving s + 1\<rparr>))"
| leave: "Leaving s > 0 \<Longrightarrow>
    pool_step s Done (with_proc (\<lambda>p. p\<lparr>WaitGroup := WaitGroup p - 1\<rparr>) (s\<lparr>Leaving := Leaving s - 1\<rparr>))"
| stop_call: "pool_step s StopCall (with_proc (\<lambda>p. p\<lparr>ShutFlag := True\<rparr>) (s\<lparr>Stopping := True\<rparr>))"
| stop_return: "Stopping s \<Longrightarrow> WaitGroup (Proc s) = 0 \<Longrightarrow> pool_step s StopReturn (s\<lparr>Stopped := True\<rparr>)"
| stop_timeout: "Stopping s \<Longrightarrow> pool_step s StopTimeout s"

inductive_cases pool_stepE: "pool_step s a s'"

inductive pool_run :: "'e pool \<Rightarrow> 'e action list \<Rightarrow> 'e pool \<Rightarrow> bool" where
  nil: "pool_run s [] s"
| cons: "pool_step s a s1 \<Longrightarrow> pool_run s1 acts s2 \<Longrightarrow> pool_run s (a # acts) s2"

inductive_simps pool_run_simps: "pool_run s [] s'" "pool_run s (a # acts) s'"

lemma pool_run_append: "pool_run s acts s1 \<Longrightarrow> pool_run s1 bs s2 \<Longrightarrow> pool_run s (acts @ bs) s2"
  by (induction rule: pool_run.induct) (auto intro: pool_run.cons)

lemma run_invariant:
  assumes "pool_run s acts s'" and "I s" and "\<And>s a s'. I s \<Longrightarrow> pool_step s a s' \<Longrightarrow> I s'"
  shows "I s'"
  using assms(1,2) by (induction rule: pool_run.induct) (auto intro: assms(3))

section \<open>The invariant\<close>

definition pool_ok :: "int \<Rightarrow> 'e pool \<Rightarrow> bool" where
  "pool_ok n s \<longleftrightarrow>
     Capacity (Proc s) = n \<and> int (InUse (Proc s)) \<le> n \<and>
     InUse (Proc s) = size (Holding s) + size (Running s) \<and>
     WaitGroup (Proc s) = size (Running s) + Leaving s \<and>
     Accepted s = Running s + Handled s \<and> ShutFlag (Proc s) = Stopping s"

lemma size_remove: "e \<in># M \<Longrightarrow> size M = Suc (size (M - {#e#}))"
  by (metis insert_DiffM size_add_mset)

lemma pool_step_ok: "pool_ok n s \<Longrightarrow> pool_step s a s' \<Longrightarrow> pool_ok n s'"
  by (erule pool_stepE) (auto simp: pool_ok_def with_proc_def size_remove)

lemma NewProcessor_ok: "NewProcessor concurrency True = Inr p \<Longrightarrow> pool_ok (max 1 concurrency) (start_pool p)"
  by (auto simp: NewProcessor_def pool_ok_def start_pool_def max_def split: if_splits)

lemma reached_ok:
  "NewProcessor concurrency True = Inr p \<Longrightarrow> pool_run (start_pool p) acts s \<Longrightarrow> pool_ok (max 1 concurrency) s"
  by (rule run_invariant) (auto intro: NewProcessor_ok pool_step_ok)

section \<open>Draining\<close>

text \<open>A pool whose flag is set and that no caller is about to enter\<close>

definition sealed :: "'e pool \<Rightarrow> bool" where
  "sealed s \<longleftrightarrow> ShutFlag (Proc s) \<and> Waiting s = {#} \<and> Holding s = {#} \<and> (Stopped s \<longrightarrow> Running s = {#})"

lemma sealed_step: "sealed s \<and> pool_ok n s \<Longrightarrow> pool_step s a s' \<Longrightarrow> sealed s' \<and> pool_ok n s'"
  using pool_step_ok [of n s a s']
  by (auto elim!: pool_stepE simp: sealed_def with_proc_def enqueue_guard_def) (auto simp: pool_ok_def)

lemma drain:
  assumes "pool_ok n s"
  shows "\<exists>acts s'. pool_run s acts s' \<and> length acts = 2 * size (Running s) + Leaving s \<and> Running s' = {#} \<and> Leaving s' = 0 \<and>
    Waiting s' = Waiting s \<and> Holding s' = Holding s \<and> Handled s' = Accepted s \<and> pool_ok n s'"
  using assms
proof (induction "2 * size (Running s) + Leaving s" arbitrary: s)
  case 0
  then show ?case by (intro exI [of _ "[]"] exI [of _ s]) (auto simp: pool_run_simps pool_ok_def)
next
  case (Suc k)
  show ?case
  proof (cases "Leaving s > 0")
    case True
    let ?s = "with_proc (\<lambda>p. p\<lparr>WaitGroup := WaitGroup p - 1\<rparr>) (s\<lparr>Leaving := Leaving s - 1\<rparr>)"
    have step: "pool_step s Done ?s" using True by (rule pool_step.leave)
    have "k = 2 * size (Running ?s) + Leaving ?s" using Suc.hyps(2) True by (simp add: with_proc_def)
    from Suc.hyps(1) [OF this pool_step_ok [OF Suc.prems step]] obtain acts s' where
      "pool_run ?s acts s'" "length acts = k" "Running s' = {#}" "Leaving s' = 0" "Waiting s' = Waiting s" "Holding s' = Holding s"
      "Handled s' = Accepted s" "pool_ok n s'" using Suc.hyps(2) True by (auto simp: with_proc_def)
    with step Suc.hyps(2) show ?thesis by (intro exI [of _ "Done # acts"] exI [of _ s']) (auto intro: pool_run.cons)
  next
    case False
    with Suc.hyps(2) obtain e where e: "e \<in># Running s" by (metis Suc_neq_Zero add_is_0 gr0I mult_is_0 multiset_nonemptyE size_eq_0_iff_empty)
    let ?s = "with_proc (\<lambda>p. p\<lparr>InUse := InUse p - 1\<rparr>)
      (s\<lparr>Running := Running s - {#e#}, Handled := add_mset e (Handled s), Leaving := Leaving s + 1\<rparr>)"
    have step: "pool_step s (Return e) ?s" using e by (rule pool_step.give_back)
    have "k = 2 * size (Running ?s) + Leaving ?s" using Suc.hyps(2) size_remove [OF e] by (simp add: with_proc_def)
    from Suc.hyps(1) [OF this pool_step_ok [OF Suc.prems step]] obtain acts s' where
      "pool_run ?s acts s'" "length acts = k" "Running s' = {#}" "Leaving s' = 0" "Waiting s' = Waiting s" "Holding s' = Holding s"
      "Handled s' = Accepted s" "pool_ok n s'" using Suc.hyps(2) size_remove [OF e] by (auto simp: with_proc_def)
    with step Suc.hyps(2) show ?thesis by (intro exI [of _ "Return e # acts"] exI [of _ s']) (auto intro: pool_run.cons)
  qed
qed

lemma spawn_all:
  "\<exists>acts s'. pool_run s acts s' \<and> Holding s' = {#} \<and> Waiting s' = Waiting s"
proof (induction "size (Holding s)" arbitrary: s)
  case 0
  then show ?case by (intro exI [of _ "[]"] exI [of _ s]) (auto simp: pool_run_simps)
next
  case (Suc k)
  then obtain e where e: "e \<in># Holding s" by (metis Zero_not_Suc multiset_nonemptyE size_empty)
  let ?s = "with_proc (\<lambda>p. p\<lparr>WaitGroup := WaitGroup p + 1\<rparr>)
      (s\<lparr>Holding := Holding s - {#e#}, Running := add_mset e (Running s), Accepted := add_mset e (Accepted s)\<rparr>)"
  have "k = size (Holding ?s)" using Suc.hyps(2) size_remove [OF e] by (simp add: with_proc_def)
  from Suc.hyps(1) [OF this] obtain acts s' where "pool_run ?s acts s'" "Holding s' = {#}" "Waiting s' = Waiting s"
    by (auto simp: with_proc_def)
  with pool_step.spawn [OF e] show ?case by (intro exI [of _ "Spawn e # acts"] exI [of _ s']) (auto intro: pool_run.cons)
qed

section \<open>Properties\<close>

text \<open>C38: However the callers, the handlers and \<open>Stop\<close> interleave, never more handlers run than the processor was made
  for (and than one, for a limit below one), and every accepted event is handled once: it runs or it has been handled.\<close>

theorem processor_invariant:
  assumes "NewProcessor concurrency True = Inr p" and "pool_run (start_pool p) acts s"
  shows "int (size (Running s)) \<le> max 1 concurrency \<and> Accepted s = Running s + Handled s \<and>
    WaitGroup (Proc s) = size (Running s) + Leaving s"
  using reached_ok [OF assms] by (auto simp: pool_ok_def)

text \<open>C39: When \<open>Stop\<close> returns nil and no caller of \<open>Enqueue\<close> was past its guards when the flag was set, no handler
  runs then or later, and everything that was accepted has been handled.\<close>

theorem stop_waits:
  assumes "NewProcessor concurrency True = Inr p" and "pool_run (start_pool p) acts s"
    and "Waiting s = {#}" and "Holding s = {#}" and "pool_run s (StopCall # later) s'" and "\<not> Stopped s" and "Stopped s'"
  shows "Running s' = {#} \<and> Handled s' = Accepted s'"
proof -
  obtain s1 where s1: "pool_step s StopCall s1" "pool_run s1 later s'" using assms(5) by (auto simp: pool_run_simps)
  have "sealed s1" using s1(1) assms(3,4,6) by (auto elim!: pool_stepE simp: sealed_def with_proc_def)
  with pool_step_ok [OF reached_ok [OF assms(1,2)] s1(1)] have "sealed s1 \<and> pool_ok (max 1 concurrency) s1" by simp
  from run_invariant [where I = "\<lambda>s. sealed s \<and> pool_ok (max 1 concurrency) s", OF s1(2) this sealed_step]
  have "sealed s' \<and> pool_ok (max 1 concurrency) s'" .
  with assms(7) show ?thesis by (auto simp: sealed_def pool_ok_def)
qed

text \<open>A caller that passed the guards before \<open>Stop\<close> was called is not waited for: its handler can start after
  \<open>Stop\<close> has returned nil.\<close>

theorem stop_misses_late_enqueue:
  assumes "NewProcessor concurrency True = Inr p"
  shows "\<exists>s. pool_run (start_pool p) [Pass e, StopCall, StopReturn, Acquire e, Spawn e] s \<and> Stopped s \<and> e \<in># Running s"
proof -
  have p: "ShutFlag p = False" "InUse p = 0" "WaitGroup p = 0" "0 < Capacity p"
    using assms by (auto simp: NewProcessor_def split: if_splits)
  let ?s1 = "(start_pool p)\<lparr>Waiting := {#e#}\<rparr>"
  let ?s2 = "with_proc (\<lambda>p. p\<lparr>ShutFlag := True\<rparr>) (?s1\<lparr>Stopping := True\<rparr>)"
  let ?s3 = "?s2\<lparr>Stopped := True\<rparr>"
  let ?s4 = "with_proc (\<lambda>p. p\<lparr>InUse := InUse p + 1\<rparr>) (?s3\<lparr>Waiting := Waiting ?s3 - {#e#}, Holding := add_mset e (Holding ?s3)\<rparr>)"
  let ?s5 = "with_proc (\<lambda>p. p\<lparr>WaitGroup := WaitGroup p + 1\<rparr>)
      (?s4\<lparr>Holding := Holding ?s4 - {#e#}, Running := add_mset e (Running ?s4), Accepted := add_mset e (Accepted ?s4)\<rparr>)"
  have "pool_step (start_pool p) (Pass e) ?s1"
    using pool_step.pass [of "start_pool p" e] p by (simp add: enqueue_guard_def start_pool_def)
  moreover have "pool_step ?s1 StopCall ?s2" by (rule pool_step.stop_call)
  moreover have "pool_step ?s2 StopReturn ?s3" using p by (intro pool_step.stop_return) (simp_all add: with_proc_def start_pool_def)
  moreover have "pool_step ?s3 (Acquire e) ?s4" using p by (intro pool_step.acquire) (simp_all add: with_proc_def start_pool_def)
  moreover have "pool_step ?s4 (Spawn e) ?s5" by (intro pool_step.spawn) (simp add: with_proc_def)
  ultimately have "pool_run (start_pool p) [Pass e, StopCall, StopReturn, Acquire e, Spawn e] ?s5"
    by (blast intro: pool_run.intros)
  moreover have "Stopped ?s5" "e \<in># Running ?s5" by (simp_all add: with_proc_def)
  ultimately show ?thesis by blast
qed

text \<open>A caller waiting in \<open>Enqueue\<close> is never stuck: from every state the handlers that run can return and give it
  a place.\<close>

theorem waiting_caller_proceeds:
  assumes "NewProcessor concurrency True = Inr p" and "pool_run (start_pool p) acts s" and "e \<in># Waiting s"
  shows "\<exists>more s'. pool_run s (more @ [Acquire e]) s'"
proof -
  obtain acts1 s1 where s1: "pool_run s acts1 s1" "Holding s1 = {#}" "Waiting s1 = Waiting s" using spawn_all by blast
  note ok = reached_ok [OF assms(1) pool_run_append [OF assms(2) s1(1)]]
  obtain acts2 s2 where s2: "pool_run s1 acts2 s2" "Running s2 = {#}" "Waiting s2 = Waiting s1" "Holding s2 = Holding s1"
      "pool_ok (max 1 concurrency) s2" using drain [OF ok] by blast
  have "e \<in># Waiting s2" "int (InUse (Proc s2)) < Capacity (Proc s2)"
    using s1 s2 assms(3) by (auto simp: pool_ok_def)
  from pool_run.cons [OF pool_step.acquire [OF this] pool_run.nil]
  obtain s3 where "pool_run s2 [Acquire e] s3" by blast
  from pool_run_append [OF pool_run_append [OF s1(1) s2(1)] this] show ?thesis by blast
qed

section \<open>Samples\<close>

definition sample_processor :: processor where
  "sample_processor = \<lparr>Capacity = 1, InUse = 0, WaitGroup = 0, ShutFlag = False\<rparr>"

lemma sample_new: "NewProcessor 0 True = Inr sample_processor"
  by (simp add: NewProcessor_def sample_processor_def)

lemma sample_pass: "pool_run (start_pool sample_processor) [Pass e] ((start_pool sample_processor)\<lparr>Waiting := {#e#}\<rparr>)"
  using pool_step.pass [of "start_pool sample_processor" e]
  by (auto simp: enqueue_guard_def start_pool_def sample_processor_def intro!: pool_run.intros)

theorem processor_invariant_witness:
  "int (size (Running ((start_pool sample_processor)\<lparr>Waiting := {#5 :: nat#}\<rparr>))) \<le> 1"
  using processor_invariant [OF sample_new sample_pass [of "5 :: nat"]] by simp

theorem stop_waits_witness:
  "\<exists>s. pool_run (start_pool sample_processor) [StopCall, StopReturn] s \<and> Running s = ({#} :: nat multiset)"
proof -
  let ?s1 = "with_proc (\<lambda>p. p\<lparr>ShutFlag := True\<rparr>) ((start_pool sample_processor)\<lparr>Stopping := True\<rparr>) :: nat pool"
  have "pool_step (start_pool sample_processor) StopCall ?s1" by (rule pool_step.stop_call)
  moreover have "pool_step ?s1 StopReturn (?s1\<lparr>Stopped := True\<rparr>)"
    by (intro pool_step.stop_return) (simp_all add: with_proc_def start_pool_def sample_processor_def)
  ultimately have run: "pool_run (start_pool sample_processor) [StopCall, StopReturn] (?s1\<lparr>Stopped := True\<rparr>)"
    by (blast intro: pool_run.intros)
  from stop_waits [OF sample_new pool_run.nil _ _ run] run show ?thesis by (auto simp: start_pool_def)
qed

theorem stop_misses_late_enqueue_witness:
  "\<exists>s. pool_run (start_pool sample_processor) [Pass (5 :: nat), StopCall, StopReturn, Acquire 5, Spawn 5] s \<and> 5 \<in># Running s"
  using stop_misses_late_enqueue [OF sample_new, of "5 :: nat"] by blast

theorem waiting_caller_proceeds_witness:
  "\<exists>more s'. pool_run ((start_pool sample_processor)\<lparr>Waiting := {#5 :: nat#}\<rparr>) (more @ [Acquire 5]) s'"
  by (rule waiting_caller_proceeds [OF sample_new sample_pass]) simp

end
