(* ===== verification/Consumer.thy ===== *)
theory Consumer
  imports Event Runs
begin

text \<open>
  \<open>internal/consumer\<close> and \<open>internal/producer\<close>: the Kafka consumer with its fetch loop (\<open>kafka.go\<close>), the
  in-memory offset manager (\<open>offset_manager.go\<close>) and the producer. The Kafka client is outside the
  repository: what it answers is an argument. Here is which records the loop commits and when it stops.
\<close>

section \<open>Data\<close>

record krecord =
  RecTopic :: string
  RecPartition :: "32 word"
  RecOffset :: "64 word"
  RecKey :: "string option"
  RecValue :: string
  RecTime :: gtime

record consumer_settings =
  Brokers :: "string list"
  Group :: string
  Topics :: "string list"
  HandlerTimeout :: "64 word"
  FetchMax :: int
  PollInterval :: int

type_synonym assignment = "string \<times> 32 word"

text \<open>The fields of \<open>Consumer\<close> that its methods change; \<open>'cb\<close> is the type of the rebalance callback\<close>

record 'cb kconsumer =
  settings :: consumer_settings
  handlerTimeout :: "64 word"
  started :: bool
  errCh :: "gerror list"
  rebalanceCb :: "'cb option"
  loop_cancelled :: bool
  client_closed :: bool

section \<open>The consumer\<close>

text \<open>\<open>new_client\<close> is \<open>kgo.NewClient\<close> with the options built from the configuration.\<close>

definition NewConsumer :: "(consumer_settings \<Rightarrow> gerror option) \<Rightarrow> consumer_settings \<Rightarrow> bool \<Rightarrow> gerror + 'cb kconsumer" where
  "NewConsumer new_client cfg logger =
     (if \<not> logger then Inl (Errorf ''logger is required'' [])
      else if Brokers cfg = [] then Inl (Errorf ''at least one broker is required'' [])
      else if Group cfg = [] then Inl (Errorf ''group id is required'' [])
      else if Topics cfg = [] then Inl (Errorf ''at least one topic is required'' [])
      else case new_client cfg of
             Some err \<Rightarrow> Inl (wrap_err ''failed to create franz-go client: %w'' [] err)
           | None \<Rightarrow> Inr
               \<lparr>settings = cfg,
                handlerTimeout = (if sint (HandlerTimeout cfg) > 0 then HandlerTimeout cfg else 30 * 10 ^ 9),
                started = False, errCh = [], rebalanceCb = None, loop_cancelled = False, client_closed = False\<rparr>)"

definition fetch_max :: "consumer_settings \<Rightarrow> int" where
  "fetch_max cfg = (if FetchMax cfg \<le> 0 then 1024 else FetchMax cfg)"

text \<open>The pause between polls, in milliseconds\<close>

definition poll_interval :: "consumer_settings \<Rightarrow> int" where
  "poll_interval cfg = (if PollInterval cfg \<le> 0 then 10 else PollInterval cfg)"

text \<open>\<open>Start\<close> up to the start of the loop: at most one loop per consumer.\<close>

definition Start :: "'cb kconsumer option \<Rightarrow> bool \<Rightarrow> gerror + 'cb kconsumer" where
  "Start c handler =
     (case c of
        None \<Rightarrow> Inl (Errorf ''consumer is nil'' [])
      | Some c \<Rightarrow>
          if \<not> handler then Inl (Errorf ''handler is required'' [])
          else if started c then Inl (Errorf ''consumer already started'' [])
          else Inr (c\<lparr>started := True\<rparr>))"

text \<open>\<open>None\<close> is the nil consumer, here and below.\<close>

definition RegisterRebalanceHandler :: "'cb \<Rightarrow> 'cb kconsumer option \<Rightarrow> 'cb kconsumer option" where
  "RegisterRebalanceHandler cb c = map_option (\<lambda>c. c\<lparr>rebalanceCb := Some cb\<rparr>) c"

text \<open>The partitions of a rebalance, topic after topic\<close>

definition assignments :: "(string \<times> 32 word list) list \<Rightarrow> assignment list" where
  "assignments as = concat (map (\<lambda>(t, ps). map (\<lambda>p. (t, p)) ps) as)"

definition notifyRebalance ::
  "('w \<Rightarrow> assignment list \<Rightarrow> assignment list \<Rightarrow> 'w) kconsumer \<Rightarrow> assignment list \<Rightarrow> assignment list \<Rightarrow> 'w \<Rightarrow> 'w" where
  "notifyRebalance c assigned revoked w =
     (case rebalanceCb c of None \<Rightarrow> w | Some cb \<Rightarrow> cb w assigned revoked)"

definition on_assigned ::
  "('w \<Rightarrow> assignment list \<Rightarrow> assignment list \<Rightarrow> 'w) kconsumer \<Rightarrow> (string \<times> 32 word list) list \<Rightarrow> 'w \<Rightarrow> 'w" where
  "on_assigned c parts w = notifyRebalance c (assignments parts) [] w"

text \<open>The callback of both the revoked and the lost partitions\<close>

definition on_revoked ::
  "('w \<Rightarrow> assignment list \<Rightarrow> assignment list \<Rightarrow> 'w) kconsumer \<Rightarrow> (string \<times> 32 word list) list \<Rightarrow> 'w \<Rightarrow> 'w" where
  "on_revoked c parts w = notifyRebalance c [] (assignments parts) w"

text \<open>
  \<open>Stop\<close> waits for the end of the loop, which only the loop itself reports: \<open>ends\<close> tells whether a loop
  that was started ends once it is cancelled, \<open>ctx\<close> is the error with which the context given ends the
  wait, if it ever does. The answer \<open>None\<close> is a call that never returns.
\<close>

definition Stop :: "bool \<Rightarrow> gerror option \<Rightarrow> 'cb kconsumer option \<Rightarrow> ('cb kconsumer option \<times> gerror option) option" where
  "Stop ends ctx c =
     (case c of
        None \<Rightarrow> Some (None, None)
      | Some c \<Rightarrow>
          (let c = c\<lparr>loop_cancelled := True\<rparr>
           in if started c \<and> ends then Some (Some (c\<lparr>client_closed := True\<rparr>), None)
              else case ctx of
                     Some err \<Rightarrow> Some (Some c, Some err)
                   | None \<Rightarrow> None))"

section \<open>The fetch loop\<close>

text \<open>
  The state \<open>'w\<close> is the world the handler and the client act on. A fetch lists topics, their
  partitions and the records of each.
\<close>

type_synonym fetches = "(string \<times> (32 word \<times> krecord list) list) list"

text \<open>A panic of the handler, which nothing recovers, ends the process with the record that raised it.\<close>

definition panicked :: "gerror option \<Rightarrow> bool" where
  "panicked e = (case e of Some (ErrPanic p) \<Rightarrow> True | _ \<Rightarrow> False)"

definition each_record ::
  "('w \<Rightarrow> krecord \<Rightarrow> 'w \<times> gerror option) \<Rightarrow> ('w \<Rightarrow> krecord \<Rightarrow> 'w \<times> gerror option) \<Rightarrow>
   'w \<times> gerror option \<Rightarrow> krecord \<Rightarrow> 'w \<times> gerror option" where
  "each_record handler commit s r =
     (if panicked (snd s) then s
      else case handler (fst s) r of
             (w, Some err) \<Rightarrow> (w, Some err)
           | (w, None) \<Rightarrow> (fst (commit w r), snd s))"

definition process_fetches ::
  "('w \<Rightarrow> krecord \<Rightarrow> 'w \<times> gerror option) \<Rightarrow> ('w \<Rightarrow> krecord \<Rightarrow> 'w \<times> gerror option) \<Rightarrow>
   'w \<Rightarrow> fetches \<Rightarrow> 'w \<times> gerror option" where
  "process_fetches handler commit w fs =
     foldl (\<lambda>s ft. foldl (\<lambda>s fp. foldl (each_record handler commit) s (snd fp)) s (snd ft)) (w, None) fs"

text \<open>
  How the loop ends: the context was cancelled, or a handler's error that the caller can read (or a panic,
  with which the process ends).
\<close>

datatype loop_end = Cancelled | Aborted gerror

text \<open>
  The loop over what the polls answer, until the context is cancelled, which is the end of the list;
  \<open>rest\<close> is what happens while it sleeps. The answer has the number of polls.
\<close>

fun fetch_loop ::
  "('w \<Rightarrow> krecord \<Rightarrow> 'w \<times> gerror option) \<Rightarrow> ('w \<Rightarrow> krecord \<Rightarrow> 'w \<times> gerror option) \<Rightarrow> ('w \<Rightarrow> 'w) \<Rightarrow>
   'w \<Rightarrow> fetches list \<Rightarrow> 'w \<times> loop_end \<times> nat" where
  "fetch_loop handler commit rest w [] = (w, Cancelled, 0)"
| "fetch_loop handler commit rest w (fs # polls) =
     (case process_fetches handler commit w fs of
        (w', Some err) \<Rightarrow> (w', Aborted err, 1)
      | (w', None) \<Rightarrow>
          (case fetch_loop handler commit rest (rest w') polls of (w'', e, n) \<Rightarrow> (w'', e, n + 1)))"

text \<open>
  The error of an aborted loop goes to a channel with ten places and is dropped when they are taken;
  \<open>Errors\<close> is what a reader of the channel finds.
\<close>

definition report_end :: "loop_end \<Rightarrow> 'cb kconsumer \<Rightarrow> 'cb kconsumer" where
  "report_end e c =
     (case e of
        Cancelled \<Rightarrow> c
      | Aborted err \<Rightarrow> if length (errCh c) < 10 then c\<lparr>errCh := errCh c @ [err]\<rparr> else c)"

definition Errors :: "'cb kconsumer \<Rightarrow> gerror list" where
  "Errors c = errCh c"

section \<open>The offset manager\<close>

type_synonym offsets = "(string, 64 word) fmap"

definition NewOffsetManager :: offsets where
  "NewOffsetManager = fmempty"

definition offset_Commit :: "offsets option \<Rightarrow> string \<Rightarrow> 64 word \<Rightarrow> gerror + offsets" where
  "offset_Commit om key offset =
     (case om of
        None \<Rightarrow> Inl (Errorf ''offset manager is nil'' [])
      | Some m \<Rightarrow> Inr (fmupd key offset m))"

definition offset_Get :: "offsets option \<Rightarrow> string \<Rightarrow> 64 word option" where
  "offset_Get om key = (case om of None \<Rightarrow> None | Some m \<Rightarrow> fmlookup m key)"

section \<open>The producer\<close>

datatype acks = NoAck | LeaderAck | AllISRAcks

definition parseAcks :: "string \<Rightarrow> acks" where
  "parseAcks s = (if s = ''0'' then NoAck else if s = ''1'' then LeaderAck else AllISRAcks)"

text \<open>\<open>new_client\<close> is \<open>kgo.NewClient\<close>; of its client a producer keeps what it was made with.\<close>

record kproducer =
  ProdBrokers :: "string list"
  ProdAcks :: acks
  prod_closed :: bool

definition NewProducer :: "(string list \<Rightarrow> acks \<Rightarrow> gerror option) \<Rightarrow> string list \<Rightarrow> string \<Rightarrow> bool \<Rightarrow> gerror + kproducer" where
  "NewProducer new_client brokers ack logger =
     (if \<not> logger then Inl (Errorf ''logger is required'' [])
      else if brokers = [] then Inl (Errorf ''at least one broker is required'' [])
      else case new_client brokers (parseAcks ack) of
             Some err \<Rightarrow> Inl (wrap_err ''failed to create franz-go client: %w'' [] err)
           | None \<Rightarrow> Inr \<lparr>ProdBrokers = brokers, ProdAcks = parseAcks ack, prod_closed = False\<rparr>)"

definition producer_Close :: "kproducer option \<Rightarrow> kproducer option" where
  "producer_Close p = map_option (\<lambda>p. p\<lparr>prod_closed := True\<rparr>) p"

record message =
  MsgTopic :: string
  MsgKey :: "string option"
  MsgValue :: string

text \<open>\<open>produce\<close> is \<open>ProduceSync\<close> with the first error of its results.\<close>

definition Send ::
  "('w \<Rightarrow> message \<Rightarrow> 'w \<times> gerror option) option \<Rightarrow> 'w \<Rightarrow> string \<Rightarrow> string option \<Rightarrow> string \<Rightarrow> 'w \<times> gerror option" where
  "Send p w topic key v =
     (case p of
        None \<Rightarrow> (w, Some (Errorf ''producer is nil'' []))
      | Some produce \<Rightarrow> produce w \<lparr>MsgTopic = topic, MsgKey = key, MsgValue = v\<rparr>)"

section \<open>What is committed\<close>

definition fetched_records :: "fetches \<Rightarrow> krecord list" where
  "fetched_records fs = concat (map (\<lambda>ft. concat (map snd (snd ft))) fs)"

lemma process_fetches_flat:
  "process_fetches handler commit w fs = foldl (each_record handler commit) (w, None) (fetched_records fs)"
proof -
  have parts: "foldl (\<lambda>s fp. foldl (each_record handler commit) s (snd fp)) s ps =
      foldl (each_record handler commit) s (concat (map snd ps))" for s and ps :: "(32 word \<times> krecord list) list"
    by (induction ps arbitrary: s) simp_all
  show ?thesis
    unfolding process_fetches_def fetched_records_def parts
    by (induction fs arbitrary: w rule: rev_induct) simp_all
qed

text \<open>A client that records the commits it is asked for, each with its answer\<close>

type_synonym commit_log = "(krecord \<times> gerror option) list"

definition logging_commit ::
  "('w \<Rightarrow> krecord \<Rightarrow> 'w \<times> gerror option) \<Rightarrow> 'w \<times> commit_log \<Rightarrow> krecord \<Rightarrow> ('w \<times> commit_log) \<times> gerror option" where
  "logging_commit commit s r = (case commit (fst s) r of (w, e) \<Rightarrow> ((w, snd s @ [(r, e)]), e))"

definition lift_handler ::
  "('w \<Rightarrow> krecord \<Rightarrow> 'w \<times> gerror option) \<Rightarrow> 'w \<times> 'l \<Rightarrow> krecord \<Rightarrow> ('w \<times> 'l) \<times> gerror option" where
  "lift_handler handler s r = (case handler (fst s) r of (w, e) \<Rightarrow> ((w, snd s), e))"

text \<open>
  The answers of the handler to the records of a list, each in the world the loop calls it in, up to a
  panic
\<close>

fun handler_answers ::
  "('w \<Rightarrow> krecord \<Rightarrow> 'w \<times> gerror option) \<Rightarrow> ('w \<Rightarrow> krecord \<Rightarrow> 'w \<times> gerror option) \<Rightarrow> 'w \<Rightarrow> krecord list \<Rightarrow>
   (krecord \<times> gerror option) list" where
  "handler_answers handler commit w [] = []"
| "handler_answers handler commit w (r # rs) =
     (case handler w r of
        (w', Some e) \<Rightarrow> (r, Some e) # (if panicked (Some e) then [] else handler_answers handler commit w' rs)
      | (w', None) \<Rightarrow> (r, None) # handler_answers handler commit (fst (commit w' r)) rs)"

definition successes :: "(krecord \<times> gerror option) list \<Rightarrow> krecord list" where
  "successes as = map fst (filter (\<lambda>(r, e). e = None) as)"

definition failures :: "(krecord \<times> gerror option) list \<Rightarrow> gerror list" where
  "failures as = List.map_filter snd as"

lemma successes_simps [simp]:
  "successes [] = []" "successes ((r, None) # as) = r # successes as" "successes ((r, Some e) # as) = successes as"
  "failures [] = []" "failures ((r, None) # as) = failures as" "failures ((r, Some e) # as) = e # failures as"
  by (simp_all add: successes_def failures_def)

text \<open>
  The same of the log of commits: the records whose commit was answered without an error are committed, the
  other answers are refusals, which the loop only logs.
\<close>

abbreviation (input) committed :: "commit_log \<Rightarrow> krecord list" where
  "committed \<equiv> successes"

abbreviation (input) refused :: "commit_log \<Rightarrow> gerror list" where
  "refused \<equiv> failures"

lemma handler_answers_records:
  "prefix (map fst (handler_answers handler commit w rs)) rs"
  "failures (handler_answers handler commit w rs) = [] \<Longrightarrow> map fst (handler_answers handler commit w rs) = rs"
  by (induction rs arbitrary: w) (auto split: prod.split option.split)

lemma panicked_simps [simp]: "panicked None = False" "panicked (Some (ErrPanic p)) = True"
  by (simp_all add: panicked_def)

lemma fold_panicked: "panicked (snd s) \<Longrightarrow> foldl (each_record handler commit) s rs = s"
  by (induction rs) (simp_all add: each_record_def)

lemma panicked_ErrLib [simp]: "panicked (Some (ErrLib m)) = False"
  by (simp add: panicked_def)

text \<open>One record, with the commits in a list\<close>

lemma each_record_log:
  "each_record (lift_handler handler) (logging_commit commit) ((w, cs), err) r =
     (if panicked err then ((w, cs), err)
      else case handler w r of
             (w', Some e) \<Rightarrow> ((w', cs), Some e)
           | (w', None) \<Rightarrow> ((fst (commit w' r), cs @ [(r, snd (commit w' r))]), err))"
  by (auto simp: each_record_def lift_handler_def logging_commit_def split: prod.split option.split)

lemma each_record_fold:
  "foldl (each_record (lift_handler handler) (logging_commit commit)) ((w, cs), err) rs = ((w', cs'), err') \<Longrightarrow>
   \<not> panicked err \<Longrightarrow>
   map fst cs' = map fst cs @ successes (handler_answers handler commit w rs) \<and>
   err' = (if failures (handler_answers handler commit w rs) = [] then err
           else Some (last (failures (handler_answers handler commit w rs)))) \<and>
   foldl (each_record handler commit) (w, err) rs = (w', err')"
proof (induction rs arbitrary: w cs err)
  case (Cons r rs)
  obtain w1 e where h: "handler w r = (w1, e)" by fastforce
  have plain: "each_record handler commit (w, err) r =
      (case e of Some x \<Rightarrow> (w1, Some x) | None \<Rightarrow> (fst (commit w1 r), err))"
    using h Cons.prems(2) by (auto simp: each_record_def split: option.split)
  show ?case
  proof (cases e)
    case None
    with h Cons.prems Cons.IH [of "fst (commit w1 r)" "cs @ [(r, snd (commit w1 r))]" err] plain show ?thesis
      by (simp add: each_record_log)
  next
    case (Some x)
    have run: "foldl (each_record (lift_handler handler) (logging_commit commit)) ((w1, cs), Some x) rs = ((w', cs'), err')"
      using h Some Cons.prems by (simp add: each_record_log)
    show ?thesis
    proof (cases "panicked (Some x)")
      case True
      with run have "w' = w1" "cs' = cs" "err' = Some x" by (simp_all add: fold_panicked)
      with h Some plain True show ?thesis by (simp add: fold_panicked)
    next
      case False
      from Cons.IH [OF run False] h Some plain False show ?thesis by simp
    qed
  qed
qed simp

lemma process_fetches_log:
  assumes "process_fetches (lift_handler handler) (logging_commit commit) (w, cs) fs = ((w', cs'), err)"
  shows "map fst cs' = map fst cs @ successes (handler_answers handler commit w (fetched_records fs)) \<and>
    (err = None \<longleftrightarrow> failures (handler_answers handler commit w (fetched_records fs)) = []) \<and>
    process_fetches handler commit w fs = (w', err)"
  using each_record_fold [OF assms [unfolded process_fetches_flat]] by (auto simp: process_fetches_flat)

lemma no_failures: "failures as = [] \<longleftrightarrow> successes as = map fst as"
proof (induction as)
  case (Cons a as)
  have "length (successes as) \<le> length as" by (simp add: successes_def)
  then have "successes as \<noteq> x # map fst as" for x by (metis impossible_Cons length_map)
  with Cons show ?case by (cases a; cases "snd a") auto
qed simp

lemma all_succeeded:
  assumes "failures (handler_answers handler commit w rs) = []"
  shows "successes (handler_answers handler commit w rs) = rs"
  using no_failures [THEN iffD1, OF assms] handler_answers_records(2) [OF assms] by simp

lemma successes_bound: "length (successes as) \<le> length as" "failures as \<noteq> [] \<Longrightarrow> length (successes as) < length as"
proof -
  show "length (successes as) \<le> length as" for as by (simp add: successes_def)
  then show "failures as \<noteq> [] \<Longrightarrow> length (successes as) < length as"
  proof (induction as)
    case (Cons a as)
    then show ?case by (cases a; cases "snd a") (auto simp: less_Suc_eq_le)
  qed simp
qed

lemma answers_length: "length (handler_answers handler commit w rs) \<le> length rs"
  using prefix_length_le [OF handler_answers_records(1)] by simp

text \<open>The run of the loop, with the commits so far\<close>

lemma fetch_loop_log:
  assumes "fetch_loop (lift_handler handler) (logging_commit commit) (map_prod rest (\<lambda>l. l)) (w, cs) polls = ((w', cs'), e, n)"
  shows "n \<le> length polls \<and>
    (case e of
       Cancelled \<Rightarrow> n = length polls \<and> map fst cs' = map fst cs @ concat (map fetched_records polls)
     | Aborted err \<Rightarrow> 0 < n \<and>
         (\<exists>part. map fst cs' = map fst cs @ concat (map fetched_records (take (n - 1) polls)) @ part \<and>
            length part < length (fetched_records (polls ! (n - 1)))))"
  using assms
proof (induction polls arbitrary: w cs n)
  case (Cons fs polls)
  obtain w1 cs1 r where p: "process_fetches (lift_handler handler) (logging_commit commit) (w, cs) fs = ((w1, cs1), r)"
    by (metis prod.exhaust)
  let ?as = "handler_answers handler commit w (fetched_records fs)"
  note flog = process_fetches_log [OF p]
  show ?case
  proof (cases r)
    case None
    with flog have "failures ?as = []" by simp
    with flog have cs1: "map fst cs1 = map fst cs @ fetched_records fs" by (simp add: all_succeeded)
    obtain m where m: "n = Suc m"
      "fetch_loop (lift_handler handler) (logging_commit commit) (map_prod rest (\<lambda>l. l)) (rest w1, cs1) polls = ((w', cs'), e, m)"
      using Cons.prems p None by (auto split: prod.splits)
    from Cons.IH [OF m(2)] show ?thesis
    proof (cases e)
      case (Aborted err)
      with Cons.IH [OF m(2)] obtain k where "m = Suc k" by (auto simp: gr0_conv_Suc)
      with Cons.IH [OF m(2)] Aborted show ?thesis by (simp add: m(1) cs1)
    qed (simp add: m(1) cs1)
  next
    case (Some err)
    then have r: "cs' = cs1" "e = Aborted err" "n = 1" using Cons.prems p by auto
    have "failures ?as \<noteq> []" using flog Some by simp
    then have "length (successes ?as) < length (fetched_records fs)"
      using successes_bound(2) [of ?as] answers_length [of handler commit w "fetched_records fs"] by simp
    with flog r show ?thesis by simp
  qed
qed simp

lemma successes_mem:
  assumes "i < length as"
  shows "snd (as ! i) = None \<Longrightarrow> fst (as ! i) \<in> set (successes as)"
    and "distinct (map fst as) \<Longrightarrow> snd (as ! i) \<noteq> None \<Longrightarrow> fst (as ! i) \<notin> set (successes as)"
proof -
  show "snd (as ! i) = None \<Longrightarrow> fst (as ! i) \<in> set (successes as)"
    using nth_mem [OF assms] by (force simp: successes_def)
next
  assume d: "distinct (map fst as)" and f: "snd (as ! i) \<noteq> None"
  show "fst (as ! i) \<notin> set (successes as)"
  proof
    assume "fst (as ! i) \<in> set (successes as)"
    then obtain a where "a \<in> set as" "fst a = fst (as ! i)" "snd a = None" by (auto simp: successes_def)
    moreover have "inj_on fst (set as)" using d by (simp add: distinct_map)
    ultimately have "a = as ! i" using nth_mem [OF assms] by (auto dest: inj_onD)
    with f \<open>snd a = None\<close> show False by simp
  qed
qed

lemma failures_nonempty: "i < length as \<Longrightarrow> snd (as ! i) \<noteq> None \<Longrightarrow> failures as \<noteq> []"
proof (induction as arbitrary: i)
  case (Cons a as)
  obtain r e where a: "a = (r, e)" by fastforce
  show ?case
  proof (cases e)
    case None
    with Cons.prems a obtain k where "i = Suc k" by (cases i) auto
    with Cons None a show ?thesis by simp
  qed (simp add: a)
qed simp

section \<open>Commits and what a handler has to show for them\<close>

text \<open>
  A handler that adds to an account with every success, in a world where neither commits nor pauses take
  from it, has something to show for every record that the loop asks to be committed.
\<close>

locale accounting =
  fixes acct :: "'w \<Rightarrow> nat" and known :: "krecord \<Rightarrow> bool"
    and handler commit :: "'w \<Rightarrow> krecord \<Rightarrow> 'w \<times> gerror option" and rest :: "'w \<Rightarrow> 'w"
  assumes success: "known r \<Longrightarrow> handler w r = (w', None) \<Longrightarrow> acct w < acct w'"
    and failure: "handler w r = (w', Some err) \<Longrightarrow> acct w \<le> acct w'"
    and committing: "acct (fst (commit w r)) = acct w"
    and resting: "acct (rest w) = acct w"
begin

lemma fold_accounts:
  "foldl (each_record (lift_handler handler) (logging_commit commit)) ((w, cs), err) rs = ((w', cs'), err') \<Longrightarrow>
   \<forall>r \<in> set rs. known r \<Longrightarrow> length cs' + acct w \<le> length cs + acct w'"
proof (induction rs arbitrary: w cs err)
  case (Cons r rs)
  obtain w1 e where h: "handler w r = (w1, e)" by fastforce
  show ?case
  proof (cases e)
    case None
    with h Cons.prems Cons.IH [of "fst (commit w1 r)" "cs @ [(r, snd (commit w1 r))]" err] success [of r w w1] committing [of w1 r]
      fold_panicked [of "((w, cs), err)"] show ?thesis
      by (cases "panicked err") (auto simp: each_record_log)
  next
    case (Some x)
    with h Cons.prems Cons.IH [of w1 cs "Some x"] failure [of w r w1 x] fold_panicked [of "((w, cs), err)"] show ?thesis
      by (cases "panicked err") (auto simp: each_record_log)
  qed
qed simp

lemma loop_accounts:
  assumes "fetch_loop (lift_handler handler) (logging_commit commit) (map_prod rest (\<lambda>l. l)) (w, cs) polls = ((w', cs'), e, n)"
    and "\<forall>fs \<in> set polls. \<forall>r \<in> set (fetched_records fs). known r"
  shows "length cs' + acct w \<le> length cs + acct w'"
  using assms
proof (induction polls arbitrary: w cs n)
  case (Cons fs polls)
  obtain w1 cs1 r where p: "process_fetches (lift_handler handler) (logging_commit commit) (w, cs) fs = ((w1, cs1), r)"
    by (metis prod.exhaust)
  from fold_accounts [OF p [unfolded process_fetches_flat]] Cons.prems(2)
  have first: "length cs1 + acct w \<le> length cs + acct w1" by simp
  show ?case
  proof (cases r)
    case None
    then obtain m where
      "fetch_loop (lift_handler handler) (logging_commit commit) (map_prod rest (\<lambda>l. l)) (rest w1, cs1) polls = ((w', cs'), e, m)"
      using Cons.prems(1) p by (auto split: prod.splits)
    from Cons.IH [OF this] Cons.prems(2) first show ?thesis by (simp add: resting)
  next
    case (Some err)
    then show ?thesis using Cons.prems(1) p first by simp
  qed
qed simp

end

section \<open>Properties\<close>

text \<open>Of a fetch the loop asks for the commit of exactly the records whose handler succeeded, in the order they were fetched, also
  those after a record that failed without a panic; and it reports an error exactly when a handler failed.\<close>

theorem fetch_commits_successes:
  assumes "process_fetches (lift_handler handler) (logging_commit commit) (w, []) fs = ((w', cs), err)"
  shows "map fst cs = successes (handler_answers handler commit w (fetched_records fs)) \<and>
    prefix (map fst (handler_answers handler commit w (fetched_records fs))) (fetched_records fs) \<and>
    (err = None \<longleftrightarrow> map fst cs = fetched_records fs)"
proof -
  let ?as = "handler_answers handler commit w (fetched_records fs)"
  have "failures ?as = [] \<longleftrightarrow> successes ?as = fetched_records fs"
    using all_succeeded [of handler commit w "fetched_records fs"]
      successes_bound(2) [of ?as] answers_length [of handler commit w "fetched_records fs"] by fastforce
  then show ?thesis using process_fetches_log [OF assms] handler_answers_records(1) by simp
qed

theorem fetch_commits_successes_witness:
  "successes (handler_answers (\<lambda>w r. (w, if RecValue r = [] then Some (ErrLib ''refused'') else None)) (\<lambda>w r. (w, None)) ()
     (fetched_records [(''t'', [(0, [\<lparr>RecTopic = ''t'', RecPartition = 0, RecOffset = 5, RecKey = None, RecValue = [], RecTime = 0\<rparr>])])])) = []"
proof -
  let ?h = "\<lambda>w r. (w :: unit, if RecValue r = [] then Some (ErrLib ''refused'') else None)"
  let ?c = "\<lambda>w r. (w :: unit, None)"
  let ?fs = "[(''t'', [(0, [\<lparr>RecTopic = ''t'', RecPartition = 0, RecOffset = 5, RecKey = None, RecValue = [], RecTime = 0\<rparr>])])]"
  have "process_fetches (lift_handler ?h) (logging_commit ?c) ((), []) ?fs = (((), []), Some (ErrLib ''refused''))"
    by (simp add: process_fetches_def each_record_def lift_handler_def)
  from fetch_commits_successes [OF this] show ?thesis by simp
qed



text \<open>When the handler fails for a record of a fetch and succeeds for a later one, the loop asks for the commit of
  the later one and not of the failed one, which is not handled again: the loop has ended.\<close>

theorem failed_record_skipped:
  assumes "fetch_loop (lift_handler handler) (logging_commit commit) (map_prod rest (\<lambda>l. l)) (w, []) (fs # polls) = ((w', cs), e, n)"
    and "distinct (fetched_records fs)" and "i < j"
    and "j < length (handler_answers handler commit w (fetched_records fs))"
    and "snd (handler_answers handler commit w (fetched_records fs) ! i) \<noteq> None"
    and "snd (handler_answers handler commit w (fetched_records fs) ! j) = None"
  shows "fetched_records fs ! j \<in> fst ` set cs \<and> fetched_records fs ! i \<notin> fst ` set cs \<and> n = 1 \<and> e \<noteq> Cancelled"
proof -
  define as where "as = handler_answers handler commit w (fetched_records fs)"
  obtain w1 cs1 r where p: "process_fetches (lift_handler handler) (logging_commit commit) (w, []) fs = ((w1, cs1), r)"
    by (metis prod.exhaust)
  note flog = process_fetches_log [OF p, folded as_def] and fail = assms(5) [folded as_def] and ok = assms(6) [folded as_def]
  have len: "i < length as" "j < length as" using assms(3,4) by (simp_all add: as_def)
  obtain more where rs: "fetched_records fs = map fst as @ more"
    using handler_answers_records(1) [of handler commit w "fetched_records fs"] by (auto simp: prefix_def as_def)
  have "r \<noteq> None" using flog failures_nonempty [OF len(1) fail] by simp
  with assms(1) p have "cs = cs1" "n = 1" "e \<noteq> Cancelled" by auto
  moreover have "fst (as ! i) = fetched_records fs ! i" "fst (as ! j) = fetched_records fs ! j"
    using len by (simp_all add: rs nth_append)
  moreover have "distinct (map fst as)" using assms(2) by (simp add: rs)
  moreover have "fst ` set cs1 = set (successes as)" using flog by (simp flip: set_map)
  ultimately show ?thesis
    using successes_mem(1) [OF len(2) ok] successes_mem(2) [OF len(1) _ fail] flog by simp
qed

theorem failed_record_skipped_witness:
  "\<lparr>RecTopic = ''t'', RecPartition = 0, RecOffset = 6, RecKey = None, RecValue = ''v'', RecTime = 0\<rparr> \<in>
   fst ` set (snd (fst (fetch_loop (lift_handler (\<lambda>w r. (w, if RecValue r = [] then Some (ErrLib ''refused'') else None)))
     (logging_commit (\<lambda>w r. (w, None))) (map_prod (\<lambda>w. w) (\<lambda>l. l)) ((), [])
     [[(''t'', [(0, [\<lparr>RecTopic = ''t'', RecPartition = 0, RecOffset = 5, RecKey = None, RecValue = [], RecTime = 0\<rparr>,
                     \<lparr>RecTopic = ''t'', RecPartition = 0, RecOffset = 6, RecKey = None, RecValue = ''v'', RecTime = 0\<rparr>])])]])))"
proof -
  let ?r = "\<lparr>RecTopic = ''t'', RecPartition = 0, RecOffset = 5, RecKey = None, RecValue = [], RecTime = 0\<rparr>"
  let ?s = "\<lparr>RecTopic = ''t'', RecPartition = 0, RecOffset = 6, RecKey = None, RecValue = ''v'', RecTime = 0\<rparr>"
  let ?h = "\<lambda>w r. (w :: unit, if RecValue r = [] then Some (ErrLib ''refused'') else None)"
  let ?c = "\<lambda>w r. (w :: unit, None)"
  let ?fs = "[(''t'', [(0 :: 32 word, [?r, ?s])])]"
  have run: "fetch_loop (lift_handler ?h) (logging_commit ?c) (map_prod (\<lambda>w. w) (\<lambda>l. l)) ((), []) [?fs] =
      (((), [(?s, None)]), Aborted (ErrLib ''refused''), 1)"
    by (simp add: process_fetches_def each_record_def lift_handler_def logging_commit_def)
  have "?s \<in> fst ` set [(?s, None)]"
    using failed_record_skipped [OF run, of 0 1] by (simp add: fetched_records_def)
  with run show ?thesis by simp
qed

end
