(* ===== verification/Worker.thy ===== *)
theory Worker
  imports Filters Consumer
begin

text \<open>
  The pipeline worker of \<open>cmd/transform/main.go\<close>: the handler that turns a consumed record into messages
  of the output, routed or dead-letter topic, and the start of the worker. The handler runs the pipeline of
  the record's topic (theory \<open>Transform\<close>) and sends through the producer (theory \<open>Consumer\<close>). Log
  output is left out. A panic of a transform ends the process: the handler answers with it and what it
  has counted so far.
\<close>

section \<open>State\<close>

record 's pipeline_info =
  Pipe :: "'s pipeline"
  InfoCfg :: pipeline_config

record counters =
  Processed :: nat
  Dropped :: nat
  SentToDLQ :: nat
  RoutedTo :: "(string, nat) fmap"

text \<open>The state of the transforms, the world the producer acts on, and the counters\<close>

record ('s, 'w) worker_state =
  Trans :: 's
  World :: 'w
  Counters :: counters

text \<open>
  \<open>ProduceSync\<close> of the Kafka client, \<open>json.Marshal\<close> of a payload, and \<open>json.Unmarshal\<close> into an empty
  payload map
\<close>

record 'w worker_io =
  Produce :: "'w \<Rightarrow> message \<Rightarrow> 'w \<times> gerror option"
  MarshalPayload :: "gmap \<Rightarrow> gerror + string"
  DecodePayload :: "string \<Rightarrow> gerror + gmap"

definition inc_processed :: "('s, 'w) worker_state \<Rightarrow> ('s, 'w) worker_state" where
  "inc_processed st = st\<lparr>Counters := Counters st\<lparr>Processed := Processed (Counters st) + 1\<rparr>\<rparr>"

definition inc_dropped :: "('s, 'w) worker_state \<Rightarrow> ('s, 'w) worker_state" where
  "inc_dropped st = st\<lparr>Counters := Counters st\<lparr>Dropped := Dropped (Counters st) + 1\<rparr>\<rparr>"

definition inc_dlq :: "('s, 'w) worker_state \<Rightarrow> ('s, 'w) worker_state" where
  "inc_dlq st = st\<lparr>Counters := Counters st\<lparr>SentToDLQ := SentToDLQ (Counters st) + 1\<rparr>\<rparr>"

definition inc_routed :: "string \<Rightarrow> ('s, 'w) worker_state \<Rightarrow> ('s, 'w) worker_state" where
  "inc_routed t st = st\<lparr>Counters := Counters st\<lparr>RoutedTo :=
     fmupd t (case fmlookup (RoutedTo (Counters st)) t of None \<Rightarrow> 1 | Some n \<Rightarrow> n + 1) (RoutedTo (Counters st))\<rparr>\<rparr>"

section \<open>Sending\<close>

definition send ::
  "'w worker_io \<Rightarrow> string \<Rightarrow> string option \<Rightarrow> string \<Rightarrow> ('s, 'w) worker_state \<Rightarrow> ('s, 'w) worker_state \<times> gerror option" where
  "send io topic key v st =
     (case Send (Some (Produce io)) (World st) topic key v of (w, e) \<Rightarrow> (st\<lparr>World := w\<rparr>, e))"

text \<open>A message to the dead-letter topic, counted when it was sent\<close>

definition send_dlq ::
  "'w worker_io \<Rightarrow> string \<Rightarrow> string option \<Rightarrow> string \<Rightarrow> ('s, 'w) worker_state \<Rightarrow> ('s, 'w) worker_state \<times> gerror option" where
  "send_dlq io topic key v st =
     (case send io topic key v st of
        (st', Some err) \<Rightarrow> (st', Some err)
      | (st', None) \<Rightarrow> (inc_dlq st', None))"

text \<open>What happens to a record that cannot be decoded or whose pipeline fails\<close>

definition dead_letter ::
  "'w worker_io \<Rightarrow> pipeline_config \<Rightarrow> krecord \<Rightarrow> ('s, 'w) worker_state \<Rightarrow> ('s, 'w) worker_state \<times> gerror option" where
  "dead_letter io cfg r st =
     (let dlqTopic = trim_space (DLQTopic cfg)
      in if dlqTopic \<noteq> [] then send_dlq io dlqTopic (RecKey r) (RecValue r) st
         else (inc_dropped st, None))"

definition dlq_marked :: "event \<Rightarrow> bool" where
  "dlq_marked ev = (case get_header ev ''_dlq_reason'' of None \<Rightarrow> False | Some reason \<Rightarrow> reason \<noteq> [])"

text \<open>The routing header: the topic to send to, counted per target\<close>

definition route_target :: "string \<Rightarrow> event \<Rightarrow> string" where
  "route_target out ev = (case get_header ev ''_route_target'' of None \<Rightarrow> out | Some t \<Rightarrow> if t \<noteq> [] then t else out)"

definition count_route :: "event \<Rightarrow> ('s, 'w) worker_state \<Rightarrow> ('s, 'w) worker_state" where
  "count_route ev st =
     (case get_header ev ''_route_target'' of
        None \<Rightarrow> st
      | Some t \<Rightarrow> if t \<noteq> [] then inc_routed t st else st)"

text \<open>The case of one event\<close>

definition send_event ::
  "'w worker_io \<Rightarrow> pipeline_config \<Rightarrow> krecord \<Rightarrow> string \<Rightarrow> event \<Rightarrow> ('s, 'w) worker_state \<Rightarrow>
   ('s, 'w) worker_state \<times> gerror option" where
  "send_event io cfg r out ev st =
     (if dlq_marked ev \<and> DLQTopic cfg \<noteq> [] then
        (case MarshalPayload io (Payload ev) of
           Inl err \<Rightarrow> (st, Some err)
         | Inr v \<Rightarrow> send_dlq io (DLQTopic cfg) (RecKey r) v st)
      else
        (case MarshalPayload io (Payload ev) of
           Inl err \<Rightarrow> (st, Some err)
         | Inr v \<Rightarrow>
             (case send io (route_target out ev) (RecKey r) v (count_route ev st) of
                (st', Some err) \<Rightarrow> (st', Some err)
              | (st', None) \<Rightarrow> (inc_processed st', None))))"

text \<open>The keys of several events\<close>

definition appendIndexToKey :: "string option \<Rightarrow> nat \<Rightarrow> string" where
  "appendIndexToKey base i =
     (case base of
        None \<Rightarrow> ''multi-'' @ int_digits (int i)
      | Some b \<Rightarrow> b @ ''-'' @ int_digits (int i))"

definition indexed_key :: "krecord \<Rightarrow> nat \<Rightarrow> nat \<Rightarrow> string option" where
  "indexed_key r n i = (if n > 1 then Some (appendIndexToKey (RecKey r) i) else RecKey r)"

text \<open>One of \<open>n\<close> events; the answer tells whether its index is not among the failed ones.\<close>

definition send_indexed ::
  "'w worker_io \<Rightarrow> pipeline_config \<Rightarrow> krecord \<Rightarrow> string \<Rightarrow> nat \<Rightarrow> nat \<Rightarrow> event \<Rightarrow> ('s, 'w) worker_state \<Rightarrow>
   ('s, 'w) worker_state \<times> bool" where
  "send_indexed io cfg r out n i ev st =
     (if dlq_marked ev \<and> DLQTopic cfg \<noteq> [] then
        (case MarshalPayload io (Payload ev) of
           Inl err \<Rightarrow> (st, False)
         | Inr v \<Rightarrow>
             (case send_dlq io (DLQTopic cfg) (indexed_key r n i) v st of (st', e) \<Rightarrow> (st', e = None)))
      else
        (case MarshalPayload io (Payload ev) of
           Inl err \<Rightarrow> (st, False)
         | Inr v \<Rightarrow>
             (case send io (route_target out ev) (indexed_key r n i) v (count_route ev st) of
                (st', None) \<Rightarrow> (st', True)
              | (st', Some err) \<Rightarrow>
                  (if DLQTopic cfg \<noteq> [] then
                     (case MarshalPayload io (Payload ev) of
                        Inl _ \<Rightarrow> st'
                      | Inr v \<Rightarrow> fst (send io (DLQTopic cfg) (indexed_key r n i) v st'))
                   else st', False))))"

fun send_each ::
  "'w worker_io \<Rightarrow> pipeline_config \<Rightarrow> krecord \<Rightarrow> string \<Rightarrow> nat \<Rightarrow> nat \<Rightarrow> event list \<Rightarrow> ('s, 'w) worker_state \<Rightarrow> nat list \<Rightarrow>
   ('s, 'w) worker_state \<times> nat list" where
  "send_each io cfg r out n i [] st failed = (st, failed)"
| "send_each io cfg r out n i (ev # evs) st failed =
     (case send_indexed io cfg r out n i ev st of
        (st', ok) \<Rightarrow> send_each io cfg r out n (i + 1) evs st' (if ok then failed else failed @ [i]))"

definition send_events ::
  "'w worker_io \<Rightarrow> pipeline_config \<Rightarrow> krecord \<Rightarrow> string \<Rightarrow> event list \<Rightarrow> ('s, 'w) worker_state \<Rightarrow>
   ('s, 'w) worker_state \<times> gerror option" where
  "send_events io cfg r out evs st =
     (case send_each io cfg r out (length evs) 0 evs st [] of
        (st', failed) \<Rightarrow>
          (if failed \<noteq> [] then
             (st', Some (Errorf ''send failures at indices: %v''
                      [VTyped ''[]int'' (Some (map (\<lambda>i. VInt (of_nat i)) failed))]))
           else (inc_processed st', None)))"

section \<open>The handler\<close>

definition record_event :: "krecord \<Rightarrow> gmap \<Rightarrow> event" where
  "record_event r payload =
     \<lparr>Payload = payload,
      Metadata = \<lparr>Topic = RecTopic r, Partition = RecPartition r, Offset = RecOffset r, Key = RecKey r\<rparr>,
      Timestamp = RecTime r, Headers = Some fmempty\<rparr>"

definition item_type :: "item \<Rightarrow> string" where
  "item_type x =
     (case x of
        INil \<Rightarrow> ''<nil>'' | IEvent _ \<Rightarrow> ''event.Event'' | IEvents _ \<Rightarrow> ''[]event.Event'' | IValue v \<Rightarrow> type_name v)"

text \<open>What the pipeline returned without an error\<close>

definition send_result ::
  "'w worker_io \<Rightarrow> pipeline_config \<Rightarrow> krecord \<Rightarrow> item \<Rightarrow> ('s, 'w) worker_state \<Rightarrow>
   ('s, 'w) worker_state \<times> gerror option" where
  "send_result io cfg r x st =
     (let out = trim_space (OutputTopic cfg)
      in if out = [] then (st, Some (Errorf ''output topic is required but not configured'' []))
         else case x of
                IEvent ev \<Rightarrow> send_event io cfg r out ev st
              | IEvents evs \<Rightarrow> send_events io cfg r out evs st
              | _ \<Rightarrow> (st, Some (Errorf ''unexpected result type: %T'' [VStr (item_type x)])))"

definition handler ::
  "'w worker_io \<Rightarrow> (string, 's pipeline_info) fmap \<Rightarrow> (nat \<Rightarrow> gerror option) \<Rightarrow>
   ('s, 'w) worker_state \<Rightarrow> krecord \<Rightarrow> ('s, 'w) worker_state \<times> gerror option" where
  "handler io pipelines ctx st r =
     (case fmlookup pipelines (RecTopic r) of
        None \<Rightarrow> (st, None)
      | Some info \<Rightarrow>
          (case DecodePayload io (RecValue r) of
             Inl err \<Rightarrow> dead_letter io (InfoCfg info) r st
           | Inr payload \<Rightarrow>
               (case Execute (Pipe info) ctx (Trans st) (IEvent (record_event r payload)) of
                  (s', res) \<Rightarrow>
                    (let st = st\<lparr>Trans := s'\<rparr>
                     in case res of
                          Inl (ErrPanic p) \<Rightarrow> (st, Some (ErrPanic p))
                        | Inl err \<Rightarrow>
                            (if err = ErrDrop then (inc_dropped st, None)
                             else dead_letter io (InfoCfg info) r st)
                        | Inr x \<Rightarrow> send_result io (InfoCfg info) r x st))))"

section \<open>The start of the worker\<close>

fun register_topics ::
  "'s pipeline_info \<Rightarrow> string list \<Rightarrow> (string, 's pipeline_info) fmap \<Rightarrow> gerror + (string, 's pipeline_info) fmap" where
  "register_topics info [] m = Inr m"
| "register_topics info (t # ts) m =
     (case fmlookup m t of
        Some existing \<Rightarrow>
          Inl (Errorf ''duplicate input topic %q used by pipelines %q and %q''
                 [VStr t, VStr (PipelineName (InfoCfg existing)), VStr (PipelineName (InfoCfg info))])
      | None \<Rightarrow> register_topics info ts (fmupd t info m))"

fun build_pipelines ::
  "(gval \<Rightarrow> gerror + string) \<Rightarrow> 's registry \<Rightarrow> pipeline_config list \<Rightarrow> (string, 's pipeline_info) fmap \<Rightarrow>
   gerror + (string, 's pipeline_info) fmap" where
  "build_pipelines marshal reg [] m = Inr m"
| "build_pipelines marshal reg (p # ps) m =
     bind_res (NewPipeline marshal reg (PipelineName p) (PipelineTransforms p)) (\<lambda>pipe.
       bind_res (register_topics \<lparr>Pipe = pipe, InfoCfg = p\<rparr> (InputTopics p) m) (build_pipelines marshal reg ps))"

definition input_topics :: "iter \<Rightarrow> pipeline_config list \<Rightarrow> string list" where
  "input_topics ord ps = ord (fset_of_list (concat (map InputTopics ps)))"

definition consumer_settings_of :: "config \<Rightarrow> string list \<Rightarrow> consumer_settings" where
  "consumer_settings_of cfg topics =
     \<lparr>Brokers = ConsumerBrokers (Consumer (Kafka cfg)), Group = GroupID (Consumer (Kafka cfg)), Topics = topics,
      HandlerTimeout = 30 * 10 ^ 9, FetchMax = FetchMaxRecords (Consumer (Kafka cfg)),
      PollInterval = PollIntervalMs (Consumer (Kafka cfg))\<rparr>"

text \<open>What the start does to the outside, in order\<close>

datatype startup = OpenConsumer "string list" | OpenProducer acks | StartLoop | CloseProducer | StopConsumer

text \<open>
  The worker: its cancellation, whether \<open>done\<close> is closed, and the consumer and the producer it owns. Its context
  derives from the one of the signal, so the goroutine may run before \<open>Stop\<close> is called, which then finds
  \<open>done\<close> closed.
\<close>

record pipeline_worker =
  worker_cancelled :: bool
  worker_done :: bool
  worker_cons :: "unit kconsumer option"
  worker_prod :: "kproducer option"

text \<open>
  \<open>startPipelineWorker\<close>; the deferred functions close what was opened when the start fails. The handler
  is the one of the pipelines that are returned; \<open>None\<close> is a start that never returns, because the
  \<open>Stop\<close> of the consumer, with a context that never ends, does not.
\<close>

definition stop_consumer :: "startup list \<Rightarrow> unit kconsumer \<Rightarrow> gerror + 'p \<Rightarrow> startup list \<times> (gerror + 'p) option" where
  "stop_consumer acts cons res =
     (acts @ [StopConsumer],
      case Stop True None (Some cons) of None \<Rightarrow> None | Some _ \<Rightarrow> Some res)"

definition startPipelineWorker ::
  "(gval \<Rightarrow> gerror + string) \<Rightarrow> 's registry \<Rightarrow> iter \<Rightarrow> (consumer_settings \<Rightarrow> gerror option) \<Rightarrow>
   (string list \<Rightarrow> acks \<Rightarrow> gerror option) \<Rightarrow> config \<Rightarrow>
   startup list \<times> (gerror + pipeline_worker \<times> (string, 's pipeline_info) fmap) option" where
  "startPipelineWorker marshal reg ord new_consumer new_producer cfg =
     (let topics = input_topics ord (Pipelines cfg)
      in case build_pipelines marshal reg (Pipelines cfg) fmempty of
           Inl err \<Rightarrow> ([], Some (Inl err))
         | Inr pipelines \<Rightarrow>
             (case NewConsumer new_consumer (consumer_settings_of cfg topics) True of
                Inl err \<Rightarrow> ([], Some (Inl err))
              | Inr cons \<Rightarrow>
                  (case NewProducer new_producer (ProducerBrokers (Producer (Kafka cfg))) (Acks (Producer (Kafka cfg))) True of
                     Inl err \<Rightarrow> stop_consumer [OpenConsumer topics] cons (Inl err)
                   | Inr p \<Rightarrow>
                       (case Start (Some cons) True of
                          Inl err \<Rightarrow>
                            stop_consumer [OpenConsumer topics, OpenProducer (ProdAcks p), CloseProducer] cons (Inl err)
                        | Inr cons \<Rightarrow>
                            ([OpenConsumer topics, OpenProducer (ProdAcks p), StartLoop],
                             Some (Inr (\<lparr>worker_cancelled = False, worker_done = False,
                                         worker_cons = Some cons, worker_prod = Some p\<rparr>, pipelines)))))))"

text \<open>
  The goroutine the start leaves behind, one turn at a time, so that other goroutines may run between the turns:
  it waits for the cancellation, then the \<open>Stop\<close> of the consumer cancels the fetch loop and waits for its end,
  for ever when the loop does not end (\<open>ends\<close>: it does), then the producer is closed and the end reported.
\<close>

definition worker_finish :: "pipeline_worker \<Rightarrow> startup list \<times> pipeline_worker" where
  "worker_finish w =
     (if worker_prod w = None then [] else [CloseProducer],
      w\<lparr>worker_prod := producer_Close (worker_prod w), worker_done := True\<rparr>)"

definition worker_turn :: "bool \<Rightarrow> pipeline_worker \<Rightarrow> startup list \<times> pipeline_worker" where
  "worker_turn ends w =
     (if \<not> worker_cancelled w \<or> worker_done w then ([], w)
      else case worker_cons w of
             None \<Rightarrow> worker_finish w
           | Some cons \<Rightarrow>
               (if \<not> loop_cancelled cons then
                  ([StopConsumer], w\<lparr>worker_cons := Some (cons\<lparr>loop_cancelled := True\<rparr>)\<rparr>)
                else if \<not> client_closed cons then
                  (case Stop ends None (Some cons) of
                     None \<Rightarrow> ([], w)
                   | Some (cons', _) \<Rightarrow> ([], w\<lparr>worker_cons := cons'\<rparr>))
                else worker_finish w))"

fun worker_turns :: "bool \<Rightarrow> nat \<Rightarrow> pipeline_worker \<Rightarrow> startup list \<times> pipeline_worker" where
  "worker_turns ends 0 w = ([], w)"
| "worker_turns ends (Suc n) w =
     (case worker_turn ends w of (acts, w) \<Rightarrow>
        (case worker_turns ends n w of (acts', w) \<Rightarrow> (acts @ acts', w)))"

text \<open>After three turns the goroutine has ended or waits for ever.\<close>

definition worker_goroutine :: "bool \<Rightarrow> pipeline_worker \<Rightarrow> startup list \<times> pipeline_worker" where
  "worker_goroutine ends w = worker_turns ends 3 w"

text \<open>
  \<open>Stop\<close> on a nil worker does nothing; otherwise it cancels and waits until the goroutine has closed
  \<open>done\<close>, or for the end of the context given, after which the goroutine still waits.
\<close>

definition worker_Stop ::
  "bool \<Rightarrow> gerror option \<Rightarrow> pipeline_worker option \<Rightarrow> (startup list \<times> pipeline_worker option \<times> gerror option) option" where
  "worker_Stop ends ctx w =
     (case w of
        None \<Rightarrow> Some ([], None, None)
      | Some w \<Rightarrow>
          (case worker_goroutine ends (w\<lparr>worker_cancelled := True\<rparr>) of (acts, w) \<Rightarrow>
             if worker_done w then Some (acts, Some w, None)
             else case ctx of
                    Some err \<Rightarrow> Some (acts, Some w, Some err)
                  | None \<Rightarrow> None))"

definition worker_HealthCheck :: "pipeline_worker \<Rightarrow> gerror option" where
  "worker_HealthCheck w = (if worker_done w then Some (Errorf ''pipeline worker has stopped'' []) else None)"

section \<open>The messages that were accepted\<close>

text \<open>A producer that records the messages the client accepted\<close>

definition logged_io :: "'w worker_io \<Rightarrow> ('w \<times> message list) worker_io" where
  "logged_io io =
     \<lparr>Produce = (\<lambda>(w, ms) m. case Produce io w m of (w', e) \<Rightarrow> ((w', if e = None then ms @ [m] else ms), e)),
      MarshalPayload = MarshalPayload io, DecodePayload = DecodePayload io\<rparr>"

abbreviation accepted :: "('s, 'w \<times> message list) worker_state \<Rightarrow> message list" where
  "accepted st \<equiv> snd (World st)"

lemma logged_io_simps [simp]:
  "MarshalPayload (logged_io io) = MarshalPayload io" "DecodePayload (logged_io io) = DecodePayload io"
  by (simp_all add: logged_io_def)

lemma counters_simps [simp]:
  "World (inc_processed st) = World st" "World (inc_dropped st) = World st" "World (inc_dlq st) = World st"
  "World (inc_routed t st) = World st" "World (count_route ev st) = World st"
  "Dropped (Counters (inc_dropped st)) = Suc (Dropped (Counters st))"
  by (simp_all add: inc_processed_def inc_dropped_def inc_dlq_def inc_routed_def count_route_def split: option.split)

lemma send_logged:
  "send (logged_io io) t k v st = (st', e) \<Longrightarrow>
   accepted st' = accepted st @ (if e = None then [\<lparr>MsgTopic = t, MsgKey = k, MsgValue = v\<rparr>] else [])"
  by (cases "World st") (auto simp: send_def Send_def logged_io_def split: prod.splits if_splits)

lemma send_dlq_logged:
  "send_dlq (logged_io io) t k v st = (st', e) \<Longrightarrow>
   accepted st' = accepted st @ (if e = None then [\<lparr>MsgTopic = t, MsgKey = k, MsgValue = v\<rparr>] else [])"
  by (auto simp: send_dlq_def dest!: send_logged split: prod.splits option.splits if_splits)

lemma dead_letter_logged:
  "dead_letter (logged_io io) cfg r st = (st', None) \<Longrightarrow>
   accepted st' = accepted st @ [\<lparr>MsgTopic = trim_space (DLQTopic cfg), MsgKey = RecKey r, MsgValue = RecValue r\<rparr>] \<or>
   trim_space (DLQTopic cfg) = [] \<and> st' = inc_dropped st"
  by (auto simp: dead_letter_def Let_def dest!: send_dlq_logged split: if_splits)

text \<open>The topic of one event and the message made of it\<close>

definition target_topic :: "pipeline_config \<Rightarrow> event \<Rightarrow> string" where
  "target_topic cfg ev =
     (if dlq_marked ev \<and> DLQTopic cfg \<noteq> [] then DLQTopic cfg else route_target (trim_space (OutputTopic cfg)) ev)"

lemma send_event_logged:
  assumes "send_event (logged_io io) cfg r (trim_space (OutputTopic cfg)) ev st = (st', e)"
  shows "case e of
      None \<Rightarrow> \<exists>v. MarshalPayload io (Payload ev) = Inr v \<and>
        accepted st' = accepted st @ [\<lparr>MsgTopic = target_topic cfg ev, MsgKey = RecKey r, MsgValue = v\<rparr>]
    | Some err \<Rightarrow> accepted st' = accepted st"
  using assms
  by (auto simp: send_event_def target_topic_def dest!: send_dlq_logged send_logged
      split: if_splits sum.splits prod.splits option.splits)

lemma send_indexed_logged:
  assumes "send_indexed (logged_io io) cfg r out n i ev st = (st', ok)"
  shows "\<exists>ms. accepted st' = accepted st @ ms \<and> (ok \<longrightarrow> length ms = 1) \<and> length ms \<le> 1 \<and>
    (\<forall>m \<in> set ms. MsgKey m = indexed_key r n i \<and> MarshalPayload io (Payload ev) = Inr (MsgValue m))"
proof (cases "MarshalPayload io (Payload ev)")
  case (Inl err)
  with assms show ?thesis by (auto simp: send_indexed_def split: if_splits)
next
  case (Inr v)
  show ?thesis
  proof (cases "dlq_marked ev \<and> DLQTopic cfg \<noteq> []")
    case True
    then show ?thesis using assms Inr
      by (auto simp: send_indexed_def dest!: send_dlq_logged split: prod.splits)
  next
    case False
    obtain s1 e where s1: "send (logged_io io) (route_target out ev) (indexed_key r n i) v (count_route ev st) = (s1, e)"
      by fastforce
    obtain s2 e2 where s2: "send (logged_io io) (DLQTopic cfg) (indexed_key r n i) v s1 = (s2, e2)" by fastforce
    show ?thesis using assms Inr False s1 s2 send_logged [OF s1] send_logged [OF s2]
      by (cases e) (auto simp: send_indexed_def split: if_splits)
  qed
qed

text \<open>The messages of several events: at most one for each, in the order of the events\<close>

definition message_of :: "'w worker_io \<Rightarrow> krecord \<Rightarrow> event list \<Rightarrow> nat \<Rightarrow> message \<Rightarrow> bool" where
  "message_of io r evs i m \<longleftrightarrow> i < length evs \<and> MsgKey m = indexed_key r (length evs) i \<and>
     MarshalPayload io (Payload (evs ! i)) = Inr (MsgValue m)"

lemma send_each_logged:
  assumes "send_each (logged_io io) cfg r out (length all) i evs st failed = (st', failed')" and "drop i all = evs"
  shows "\<exists>ms idx. accepted st' = accepted st @ ms \<and> list_all2 (message_of io r all) idx ms \<and>
    sorted_wrt (<) idx \<and> (\<forall>j \<in> set idx. i \<le> j) \<and> (failed' = [] \<longrightarrow> failed = [] \<and> idx = [i..<length all])"
  using assms
proof (induction evs arbitrary: i st failed)
  case (Cons ev evs)
  obtain st1 ok where s: "send_indexed (logged_io io) cfg r out (length all) i ev st = (st1, ok)" by fastforce
  from send_indexed_logged [OF s] obtain ms1 where ms1: "accepted st1 = accepted st @ ms1" "ok \<longrightarrow> length ms1 = 1" "length ms1 \<le> 1"
    "\<forall>m \<in> set ms1. MsgKey m = indexed_key r (length all) i \<and> MarshalPayload io (Payload ev) = Inr (MsgValue m)" by blast
  have i: "i < length all" "all ! i = ev" "drop (Suc i) all = evs"
    using Cons.prems(2) by (metis drop_eq_Nil list.distinct(1) not_le, metis nth_via_drop, metis drop_Suc list.sel(3) tl_drop)
  have "send_each (logged_io io) cfg r out (length all) (Suc i) evs st1 (if ok then failed else failed @ [i]) = (st', failed')"
    using Cons.prems(1) s by simp
  from Cons.IH [OF this i(3)] obtain ms idx where ms: "accepted st' = accepted st1 @ ms" "list_all2 (message_of io r all) idx ms"
    "sorted_wrt (<) idx" "\<forall>j \<in> set idx. Suc i \<le> j"
    "failed' = [] \<longrightarrow> (if ok then failed else failed @ [i]) = [] \<and> idx = [Suc i..<length all]" by blast
  define idx1 where "idx1 = (if ms1 = [] then [] else [i])"
  have "list_all2 (message_of io r all) (idx1 @ idx) (ms1 @ ms)"
    using ms1(3,4) ms(2) i(1,2) by (cases ms1) (auto simp: idx1_def message_of_def)
  moreover have "sorted_wrt (<) (idx1 @ idx)" "\<forall>j \<in> set (idx1 @ idx). i \<le> j"
    using ms(3,4) by (auto simp: idx1_def)
  moreover have "failed' = [] \<longrightarrow> failed = [] \<and> idx1 @ idx = [i..<length all]"
    using ms(5) ms1(2) i(1) by (auto simp: idx1_def upt_conv_Cons split: if_splits)
  ultimately show ?case using ms(1) ms1(1) by (intro exI [of _ "ms1 @ ms"] exI [of _ "idx1 @ idx"]) auto
next
  case Nil
  then show ?case by (auto intro!: exI [of _ "[]"])
qed

lemma send_events_logged:
  assumes "send_events (logged_io io) cfg r out evs st = (st', e)"
  shows "\<exists>ms idx. accepted st' = accepted st @ ms \<and> list_all2 (message_of io r evs) idx ms \<and>
    sorted_wrt (<) idx \<and> (e = None \<longrightarrow> idx = [0..<length evs])"
proof -
  obtain s1 failed where s: "send_each (logged_io io) cfg r out (length evs) 0 evs st [] = (s1, failed)" by fastforce
  from send_each_logged [OF this] obtain ms idx where "accepted s1 = accepted st @ ms" "list_all2 (message_of io r evs) idx ms"
    "sorted_wrt (<) idx" "failed = [] \<longrightarrow> idx = [0..<length evs]" by auto
  moreover have "accepted st' = accepted s1" "e = None \<longrightarrow> failed = []"
    using assms s by (auto simp: send_events_def split: if_splits)
  ultimately show ?thesis by auto
qed

lemma appendIndexToKey_inj: "appendIndexToKey b i = appendIndexToKey b j \<Longrightarrow> i = j"
proof -
  assume "appendIndexToKey b i = appendIndexToKey b j"
  then have "digits_nat (nat_digits i) = digits_nat (nat_digits j)"
    by (auto simp: appendIndexToKey_def int_digits_def split: option.splits)
  then show ?thesis by (simp add: digits_nat_nat_digits)
qed

lemma indexed_key_inj: "indexed_key r n i = indexed_key r n j \<Longrightarrow> i < n \<Longrightarrow> j < n \<Longrightarrow> i = j"
  by (auto simp: indexed_key_def dest: appendIndexToKey_inj split: if_splits)

lemma message_keys_distinct:
  assumes "list_all2 (message_of io r evs) idx ms" and "distinct idx"
  shows "distinct (map MsgKey ms)"
  using assms
proof (induction rule: list_all2_induct)
  case (Cons i idx m ms)
  have "MsgKey m' \<noteq> MsgKey m" if m': "m' \<in> set ms" for m'
  proof -
    obtain k where "k < length ms" "m' = ms ! k" using m' by (auto simp: in_set_conv_nth)
    with Cons.hyps(2) have j: "idx ! k \<in> set idx" "message_of io r evs (idx ! k) m'"
      by (simp_all add: list_all2_lengthD list_all2_nthD2)
    with Cons.hyps(1) Cons.prems show ?thesis by (auto simp: message_of_def dest: indexed_key_inj)
  qed
  then have "MsgKey m \<notin> MsgKey ` set ms" by force
  with Cons show ?case by simp
qed simp

text \<open>The topics of the pipelines\<close>

lemma register_topics_ok:
  "register_topics info ts m = Inr m' \<Longrightarrow>
     distinct ts \<and> (\<forall>t \<in> set ts. fmlookup m t = None) \<and>
     (\<forall>t. fmlookup m' t = (if t \<in> set ts then Some info else fmlookup m t))"
  by (induction info ts m rule: register_topics.induct) (auto split: option.splits if_splits)

definition made_by :: "(gval \<Rightarrow> gerror + string) \<Rightarrow> 's registry \<Rightarrow> pipeline_config list \<Rightarrow> string \<Rightarrow> 's pipeline_info \<Rightarrow> bool" where
  "made_by marshal reg ps t info \<longleftrightarrow> InfoCfg info \<in> set ps \<and> t \<in> set (InputTopics (InfoCfg info)) \<and>
     NewPipeline marshal reg (PipelineName (InfoCfg info)) (PipelineTransforms (InfoCfg info)) = Inr (Pipe info)"

lemma build_pipelines_ok:
  "build_pipelines marshal reg ps m = Inr m' \<Longrightarrow>
     distinct (concat (map InputTopics ps)) \<and>
     (\<forall>t \<in> set (concat (map InputTopics ps)). fmlookup m t = None) \<and>
     (\<forall>t. if t \<in> set (concat (map InputTopics ps)) then \<exists>info. fmlookup m' t = Some info \<and> made_by marshal reg ps t info
          else fmlookup m' t = fmlookup m t)"
proof (induction ps arbitrary: m)
  case (Cons p ps)
  from Cons.prems obtain pipe m1 where pipe: "NewPipeline marshal reg (PipelineName p) (PipelineTransforms p) = Inr pipe"
    and m1: "register_topics \<lparr>Pipe = pipe, InfoCfg = p\<rparr> (InputTopics p) m = Inr m1"
    and rest: "build_pipelines marshal reg ps m1 = Inr m'"
    by (auto simp: bind_res_Inr_iff)
  note r = register_topics_ok [OF m1] and IH = Cons.IH [OF rest]
  let ?later = "set (concat (map InputTopics ps))"
  have later: "fmlookup m1 t = None" if "t \<in> ?later" for t using IH that by blast
  then have disj: "set (InputTopics p) \<inter> ?later = {}" using r by force
  have "fmlookup m t = None" if "t \<in> ?later" for t
    using later [OF that] r disj that by (metis IntI emptyE)
  moreover have "if t \<in> set (concat (map InputTopics (p # ps)))
      then \<exists>info. fmlookup m' t = Some info \<and> made_by marshal reg (p # ps) t info
      else fmlookup m' t = fmlookup m t" for t
  proof (cases "t \<in> ?later")
    case True
    with IH obtain info where "fmlookup m' t = Some info" "made_by marshal reg ps t info" by meson
    with True show ?thesis by (auto simp: made_by_def)
  next
    case False
    then have "fmlookup m' t = fmlookup m1 t" using IH by meson
    with False r pipe show ?thesis by (auto simp: made_by_def)
  qed
  ultimately show ?case using r IH disj by auto
qed simp

lemma build_pipelines_unknown:
  assumes "p \<in> set ps" and "d \<in> set (PipelineTransforms p)" and "fmlookup reg (DescType d) = None"
  shows "\<exists>err. build_pipelines marshal reg ps m = Inl err"
proof (rule ccontr)
  assume "\<nexists>err. build_pipelines marshal reg ps m = Inl err"
  then obtain m' where b: "build_pipelines marshal reg ps m = Inr m'" by (metis sum.exhaust)
  have "\<exists>pipe. NewPipeline marshal reg (PipelineName p) (PipelineTransforms p) = Inr pipe"
    using b assms(1) by (induction ps arbitrary: m) (auto simp: bind_res_Inr_iff)
  then obtain trs where "create_all marshal reg 0 (PipelineTransforms p) = Inr trs"
    by (auto simp: NewPipeline_def bind_res_Inr_iff split: if_splits)
  then obtain cfg tr where "Create reg (DescType d) cfg = Inr tr"
    using assms(2) by (auto simp: create_all_iff list_all2_conv_all_nth in_set_conv_nth)
  with assms(3) show False by (simp add: Create_def)
qed

lemma started_topics:
  assumes "startPipelineWorker marshal reg ord new_consumer new_producer cfg = (acts, Some (Inr (w, pipelines)))" and "iter_ok ord"
  shows "\<exists>topics ack. acts = [OpenConsumer topics, OpenProducer ack, StartLoop] \<and>
    set topics = fset (fmdom pipelines) \<and> distinct (concat (map InputTopics (Pipelines cfg))) \<and>
    (\<forall>t \<in> set topics. \<exists>info. fmlookup pipelines t = Some info \<and> made_by marshal reg (Pipelines cfg) t info)"
proof -
  from assms(1) obtain ack where b: "build_pipelines marshal reg (Pipelines cfg) fmempty = Inr pipelines"
    and acts: "acts = [OpenConsumer (input_topics ord (Pipelines cfg)), OpenProducer ack, StartLoop]"
    by (auto simp: startPipelineWorker_def Let_def stop_consumer_def split: sum.splits option.splits)
  note ok = build_pipelines_ok [OF b]
  have t: "set (input_topics ord (Pipelines cfg)) = set (concat (map InputTopics (Pipelines cfg)))"
    unfolding input_topics_def iter_okD(2) [OF assms(2)] by (simp add: fset_of_list.rep_eq)
  have "\<And>t. t \<in> fset (fmdom pipelines) \<longleftrightarrow> t \<in> set (concat (map InputTopics (Pipelines cfg)))" for t
  proof -
    have "if t \<in> set (concat (map InputTopics (Pipelines cfg))) then \<exists>info. fmlookup pipelines t = Some info
        else fmlookup pipelines t = None" for t
      using ok by (metis fmempty_lookup)
    then show "t \<in> fset (fmdom pipelines) \<longleftrightarrow> t \<in> set (concat (map InputTopics (Pipelines cfg)))" for t
      unfolding fmlookup_dom_iff by (metis option.distinct(1))
  qed
  then have "set (input_topics ord (Pipelines cfg)) = fset (fmdom pipelines)" unfolding t by blast
  then show ?thesis using acts t ok by auto
qed

text \<open>The worker that a start leaves, and its end\<close>

definition worker_running :: "pipeline_worker \<Rightarrow> bool" where
  "worker_running w \<longleftrightarrow> \<not> worker_done w \<and> (\<exists>cons. worker_cons w = Some cons \<and> started cons \<and> \<not> client_closed cons) \<and>
     (\<exists>p. worker_prod w = Some p \<and> \<not> prod_closed p)"

definition worker_ended :: "pipeline_worker \<Rightarrow> bool" where
  "worker_ended w \<longleftrightarrow> worker_cancelled w \<and> worker_done w \<and>
     (\<exists>cons. worker_cons w = Some cons \<and> loop_cancelled cons \<and> client_closed cons) \<and>
     (\<exists>p. worker_prod w = Some p \<and> prod_closed p)"

text \<open>A worker that nobody has cancelled yet\<close>

definition worker_fresh :: "pipeline_worker \<Rightarrow> bool" where
  "worker_fresh w \<longleftrightarrow> worker_running w \<and> \<not> worker_cancelled w \<and> (\<forall>cons. worker_cons w = Some cons \<longrightarrow> \<not> loop_cancelled cons)"

lemma started_worker:
  assumes "startPipelineWorker marshal reg ord new_consumer new_producer cfg = (acts, Some (Inr (w, pipelines)))"
  shows "worker_fresh w"
proof -
  have "\<not> client_closed c \<and> \<not> loop_cancelled c" if "NewConsumer nc s l = Inr c" for nc s l and c :: "unit kconsumer"
    using that by (auto simp: NewConsumer_def split: if_splits option.splits)
  moreover have "\<not> prod_closed p" if "NewProducer np bs a l = Inr p" for np bs a l p
    using that by (auto simp: NewProducer_def split: if_splits option.splits)
  ultimately show ?thesis using assms
    by (auto simp: startPipelineWorker_def stop_consumer_def Let_def worker_fresh_def worker_running_def Start_def
        split: sum.splits option.splits if_splits)
qed

lemma worker_turns_add:
  "worker_turns ends (m + n) w =
     (case worker_turns ends m w of (acts, w) \<Rightarrow> (case worker_turns ends n w of (acts', w) \<Rightarrow> (acts @ acts', w)))"
  by (induction m arbitrary: w) (simp_all split: prod.split)

lemma worker_turns_still: "worker_turn ends w = ([], w) \<Longrightarrow> worker_turns ends n w = ([], w)"
  by (induction n) simp_all

lemma turns_cancelled: "worker_cancelled (snd (worker_turns ends n w)) = worker_cancelled w"
proof -
  have "worker_cancelled (snd (worker_turn ends w)) = worker_cancelled w" for w
    by (auto simp: worker_turn_def worker_finish_def split: option.split)
  then show ?thesis by (induction n arbitrary: w) (simp_all add: case_prod_beta)
qed

text \<open>What the goroutine of a cancelled worker has done after some turns, and the worker after the last of them\<close>

definition teardown_acts :: "bool \<Rightarrow> nat \<Rightarrow> startup list" where
  "teardown_acts ends n =
     (if n = 0 then [] else if ends \<and> 3 \<le> n then [StopConsumer, CloseProducer] else [StopConsumer])"

lemma teardown_turns:
  assumes "worker_fresh w"
  shows "fst (worker_turns ends n (w\<lparr>worker_cancelled := True\<rparr>)) = teardown_acts ends n"
    and "3 \<le> n \<Longrightarrow> if ends then worker_ended (snd (worker_turns ends n (w\<lparr>worker_cancelled := True\<rparr>)))
      else worker_running (snd (worker_turns ends n (w\<lparr>worker_cancelled := True\<rparr>)))"
proof -
  let ?w = "w\<lparr>worker_cancelled := True\<rparr>"
  obtain cons p where w: "worker_cons w = Some cons" "started cons" "\<not> client_closed cons" "\<not> loop_cancelled cons"
      "worker_prod w = Some p" "\<not> prod_closed p" "\<not> worker_done w"
    using assms by (auto simp: worker_fresh_def worker_running_def)
  define w1 where "w1 = ?w\<lparr>worker_cons := Some (cons\<lparr>loop_cancelled := True\<rparr>)\<rparr>"
  define w2 where "w2 = ?w\<lparr>worker_cons := Some (cons\<lparr>loop_cancelled := True, client_closed := True\<rparr>)\<rparr>"
  define w3 where "w3 = w2\<lparr>worker_prod := Some (p\<lparr>prod_closed := True\<rparr>), worker_done := True\<rparr>"
  have t1: "worker_turn ends ?w = ([StopConsumer], w1)" using w by (simp add: worker_turn_def w1_def)
  have t2: "worker_turn ends w1 = ([], if ends then w2 else w1)"
    using w by (simp add: worker_turn_def w1_def w2_def Stop_def Let_def)
  have t3: "worker_turn ends w2 = ([CloseProducer], w3)"
    using w by (simp add: worker_turn_def worker_finish_def w2_def w3_def producer_Close_def)
  have t4: "worker_turn ends w3 = ([], w3)" by (simp add: worker_turn_def w3_def)
  have run: "worker_turns ends n ?w =
      (if n = 0 then ([], ?w) else if \<not> ends \<or> n = 1 then ([StopConsumer], w1) else if n = 2 then ([StopConsumer], w2)
       else ([StopConsumer, CloseProducer], w3))"
  proof (cases n)
    case (Suc m)
    show ?thesis
    proof (cases ends)
      case False
      with t1 t2 worker_turns_still [of ends w1 m] show ?thesis by (simp add: Suc)
    next
      case True
      show ?thesis
      proof (cases m)
        case (Suc k)
        with \<open>n = Suc m\<close> True t1 t2 t3 worker_turns_still [OF t4] show ?thesis by (cases k) simp_all
      qed (use t1 True in \<open>simp add: Suc\<close>)
    qed
  qed simp
  have "worker_ended w3" by (auto simp: worker_ended_def w3_def w2_def)
  moreover have "worker_running w1" using w by (simp add: worker_running_def w1_def)
  ultimately show "fst (worker_turns ends n ?w) = teardown_acts ends n"
    and "3 \<le> n \<Longrightarrow> if ends then worker_ended (snd (worker_turns ends n ?w)) else worker_running (snd (worker_turns ends n ?w))"
    unfolding run by (simp_all add: teardown_acts_def)
qed

text \<open>\<open>Stop\<close>, when the goroutine of a cancelled worker has had some turns before\<close>

lemma stop_worker_after:
  assumes "worker_fresh w" and "worker_turns ends n (w\<lparr>worker_cancelled := True\<rparr>) = (acts, w1)"
  shows "\<exists>acts' w2. acts @ acts' = teardown_acts ends 3 \<and> worker_turns ends (n + 3) (w\<lparr>worker_cancelled := True\<rparr>) = (acts @ acts', w2) \<and>
    (if ends then worker_ended w2 else worker_running w2) \<and>
    worker_Stop ends (Some err) (Some w1) = Some (acts', Some w2, if ends then None else Some err)"
proof -
  let ?w = "w\<lparr>worker_cancelled := True\<rparr>"
  obtain acts' w2 where g: "worker_turns ends 3 w1 = (acts', w2)" by fastforce
  have run: "worker_turns ends (n + 3) ?w = (acts @ acts', w2)" by (simp add: worker_turns_add assms(2) g)
  have "acts @ acts' = teardown_acts ends (n + 3)" using teardown_turns(1) [OF assms(1), of ends "n + 3"] run by simp
  moreover have w2: "if ends then worker_ended w2 else worker_running w2"
    using teardown_turns(2) [OF assms(1), of "n + 3" ends] unfolding run by (cases ends) simp_all
  moreover have "worker_cancelled w1" using assms(2) turns_cancelled [of ends n ?w] by simp
  then have "w1\<lparr>worker_cancelled := True\<rparr> = w1" by simp
  with g w2 have "worker_Stop ends (Some err) (Some w1) = Some (acts', Some w2, if ends then None else Some err)"
    by (auto simp: worker_Stop_def worker_goroutine_def worker_ended_def worker_running_def)
  ultimately show ?thesis using run by (intro exI [of _ acts'] exI [of _ w2]) (simp add: teardown_acts_def)
qed

section \<open>A sample worker\<close>

definition sample_io :: "unit worker_io" where
  "sample_io = \<lparr>Produce = (\<lambda>w m. (w, None)), MarshalPayload = (\<lambda>m. Inr ''v''), DecodePayload = (\<lambda>s. Inr (Some fmempty))\<rparr>"

definition sample_pipeline_config :: pipeline_config where
  "sample_pipeline_config =
     \<lparr>PipelineName = ''p'', InputTopics = [''in''], OutputTopic = ''out'', DLQTopic = ''dlq'',
      PipelineTransforms = [TransformDescriptor ''twice'' VNil [] []]\<rparr>"

definition twice_transform :: "bool \<Rightarrow> unit transform" where
  "twice_transform b = pure_transform ''twice'' (on_event ''no event'' (\<lambda>ev. Inr (if b then IEvents [ev, ev] else IEvent ev)))"

definition sample_pipelines :: "bool \<Rightarrow> (string, unit pipeline_info) fmap" where
  "sample_pipelines b = fmupd ''in''
     \<lparr>Pipe = \<lparr>pipeline_id = ''p'', pipeline_transforms = [twice_transform b]\<rparr>, InfoCfg = sample_pipeline_config\<rparr> fmempty"

definition sample_record :: krecord where
  "sample_record = \<lparr>RecTopic = ''in'', RecPartition = 0, RecOffset = 5, RecKey = Some ''k'', RecValue = ''r'', RecTime = 0\<rparr>"

definition sample_state :: "(unit, unit \<times> message list) worker_state" where
  "sample_state = \<lparr>Trans = (), World = ((), []), Counters = \<lparr>Processed = 0, Dropped = 0, SentToDLQ = 0, RoutedTo = fmempty\<rparr>\<rparr>"

definition sample_worker_config :: config where
  "sample_worker_config = sample_config\<lparr>Pipelines := [sample_pipeline_config],
     Kafka := \<lparr>Consumer = (Consumer (Kafka sample_config))\<lparr>ConsumerBrokers := [''b''], GroupID := ''g''\<rparr>,
               Producer = (Producer (Kafka sample_config))\<lparr>ProducerBrokers := [''b'']\<rparr>\<rparr>\<rparr>"

definition sample_registry :: "unit registry" where
  "sample_registry = fmupd ''twice'' (\<lambda>raw. Inr (twice_transform True)) fmempty"

lemma sample_run:
  "Execute \<lparr>pipeline_id = ''p'', pipeline_transforms = [twice_transform b]\<rparr> (\<lambda>i. None) s (IEvent ev) =
     (s, Inr (if b then IEvents [ev, ev] else IEvent ev))"
  by (simp add: Execute_def run_transforms_step twice_transform_def pure_transform_def item_live_def)

lemma sample_lookup:
  "fmlookup (sample_pipelines b) (RecTopic sample_record) =
     Some \<lparr>Pipe = \<lparr>pipeline_id = ''p'', pipeline_transforms = [twice_transform b]\<rparr>, InfoCfg = sample_pipeline_config\<rparr>"
  by (simp add: sample_pipelines_def sample_record_def)

lemma sample_topics: "input_topics sorted_keys (Pipelines sample_worker_config) = [''in'']"
  by (simp add: input_topics_def sample_worker_config_def sample_pipeline_config_def sorted_list_of_fset.rep_eq)

lemma sample_pipelines_built:
  "build_pipelines (\<lambda>v. Inr ''null'') sample_registry (Pipelines sample_worker_config) fmempty =
     Inr (fmupd ''in'' \<lparr>Pipe = \<lparr>pipeline_id = ''p'', pipeline_transforms = [twice_transform True]\<rparr>,
       InfoCfg = sample_pipeline_config\<rparr> fmempty)"
  by (simp add: sample_worker_config_def sample_pipeline_config_def NewPipeline_def sample_registry_def Create_def)

text \<open>What the handler has to show for a record: an accepted message or a drop. It never takes back either.\<close>

definition accounted :: "('s, 'w \<times> message list) worker_state \<Rightarrow> nat" where
  "accounted st = length (accepted st) + Dropped (Counters st)"

text \<open>No step takes back a message or a drop.\<close>

definition grows :: "('s, 'w \<times> message list) worker_state \<Rightarrow> ('s, 'w \<times> message list) worker_state \<Rightarrow> bool" where
  "grows st st' \<longleftrightarrow> length (accepted st) \<le> length (accepted st') \<and> Dropped (Counters st) \<le> Dropped (Counters st')"

lemma grows_simps [simp]:
  "grows st st" "grows st st' \<Longrightarrow> grows st (inc_dropped st')"
  "grows st (inc_processed st') = grows st st'" "grows st (inc_dlq st') = grows st st'"
  "grows (count_route ev st) st' = grows st st'" "grows (st\<lparr>Trans := s\<rparr>) st' = grows st st'"
  "grows st (st'\<lparr>Trans := s\<rparr>) = grows st st'"
  by (auto simp: grows_def inc_processed_def inc_dlq_def inc_dropped_def inc_routed_def count_route_def
      split: option.split)

lemma grows_trans: "grows a b \<Longrightarrow> grows b c \<Longrightarrow> grows a c"
  by (auto simp: grows_def)

lemma send_grows: "grows st (fst (send (logged_io io) t k v st))"
  by (cases "World st") (auto simp: grows_def send_def Send_def logged_io_def split: prod.split)

lemma send_dlq_grows: "grows st (fst (send_dlq (logged_io io) t k v st))"
  using send_grows [of st io t k v] by (auto simp: send_dlq_def split: prod.split option.split)

lemma dead_letter_grows: "grows st (fst (dead_letter (logged_io io) cfg r st))"
  by (simp add: dead_letter_def Let_def send_dlq_grows)

lemma send_event_grows: "grows st (fst (send_event (logged_io io) cfg r out ev st))"
proof -
  have "grows st st'"
    if "send (logged_io io) (route_target out ev) (RecKey r) v (count_route ev st) = (st', e)" for v st' e
    using send_grows [of "count_route ev st" io "route_target out ev" "RecKey r" v] that by simp
  then show ?thesis
    by (auto simp: send_event_def send_dlq_grows split: sum.split prod.split option.split)
qed

lemma send_indexed_grows: "grows st (fst (send_indexed (logged_io io) cfg r out n i ev st))"
proof -
  let ?first = "\<lambda>v. fst (send (logged_io io) (route_target out ev) (indexed_key r n i) v (count_route ev st))"
  have first: "grows st (?first v)" for v
    using send_grows [of "count_route ev st"] by simp
  moreover have "grows st (fst (send (logged_io io) (DLQTopic cfg) (indexed_key r n i) v (?first v)))" for v
    using first [of v] send_grows by (rule grows_trans)
  ultimately show ?thesis
    by (auto simp: send_indexed_def case_prod_beta send_dlq_grows split: sum.split option.split)
qed

lemma send_each_grows: "grows st (fst (send_each (logged_io io) cfg r out n i evs st failed))"
proof (induction evs arbitrary: i st failed)
  case (Cons ev evs)
  show ?case using send_indexed_grows [of st io cfg r out n i ev] Cons.IH
    by (auto simp: case_prod_beta intro: grows_trans)
qed simp

lemma send_result_grows: "grows st (fst (send_result (logged_io io) cfg r x st))"
  using send_each_grows [of st io cfg r "trim_space (OutputTopic cfg)" _ 0]
  by (auto simp: send_result_def send_events_def Let_def case_prod_beta send_event_grows split: item.split)

lemma handler_grows: "grows st (fst (handler (logged_io io) pipelines ctx st r))"
proof -
  have "grows st (fst (dead_letter (logged_io io) cfg r (st\<lparr>Trans := s\<rparr>)))"
    and "grows st (fst (send_result (logged_io io) cfg r x (st\<lparr>Trans := s\<rparr>)))" for cfg x s
    using dead_letter_grows [of "st\<lparr>Trans := s\<rparr>"] send_result_grows [of "st\<lparr>Trans := s\<rparr>"] by simp_all
  then show ?thesis
    by (auto simp: handler_def Let_def dead_letter_grows split: option.split sum.split prod.split gerror.split)
qed

lemma handler_traced:
  assumes "fmlookup pipelines (RecTopic r) = Some info"
    and "handler (logged_io io) pipelines ctx st r = (st', None)"
  shows "\<exists>ms. accepted st' = accepted st @ ms \<and>
    (ms \<noteq> [] \<or> Dropped (Counters st') = Dropped (Counters st) + 1)"
proof (cases "DecodePayload io (RecValue r)")
  case (Inl err)
  with assms dead_letter_logged [of io "InfoCfg info" r st st'] show ?thesis by (auto simp: handler_def)
next
  case (Inr payload)
  obtain s1 res where ex: "Execute (Pipe info) ctx (Trans st) (IEvent (record_event r payload)) = (s1, res)" by fastforce
  let ?st = "st\<lparr>Trans := s1\<rparr>"
  show ?thesis
  proof (cases res)
    case (Inl err)
    then have "st' = inc_dropped ?st \<or> dead_letter (logged_io io) (InfoCfg info) r ?st = (st', None)"
      using assms Inr ex by (cases err) (simp_all add: handler_def)
    with dead_letter_logged [of io "InfoCfg info" r ?st st'] show ?thesis by auto
  next
    case out: (Inr x)
    have res: "send_result (logged_io io) (InfoCfg info) r x ?st = (st', None)"
      using assms Inr ex out by (simp add: handler_def)
    have live: "item_live x"
      by (rule run_transforms_live [OF _ _, of ctx 0 "pipeline_transforms (Pipe info)" "Trans st"
            "IEvent (record_event r payload)" s1])
         (use ex out in \<open>simp_all add: Execute_def item_live_def\<close>)
    show ?thesis
    proof (cases x)
      case (IEvent ev)
      with res send_event_logged [of io "InfoCfg info" r ev ?st st' None] show ?thesis
        by (auto simp: send_result_def Let_def split: if_splits)
    next
      case (IEvents evs)
      with res send_events_logged [of io "InfoCfg info" r "trim_space (OutputTopic (InfoCfg info))" evs ?st st' None]
      obtain ms where "accepted st' = accepted st @ ms" "list_all2 (message_of io r evs) [0..<length evs] ms"
        by (auto simp: send_result_def Let_def split: if_splits)
      with live IEvents show ?thesis by (auto simp: item_live_def dest: list_all2_lengthD)
    qed (use res in \<open>auto simp: send_result_def Let_def split: if_splits\<close>)
  qed
qed

text \<open>
  The commits and pauses of the loop, as steps of the worker: a commit acts on the world, and while the
  loop sleeps the tickers of the transforms may run as well.
\<close>

definition commit_in ::
  "('w \<Rightarrow> krecord \<Rightarrow> 'w \<times> gerror option) \<Rightarrow> ('s, 'w \<times> 'l) worker_state \<Rightarrow> krecord \<Rightarrow> ('s, 'w \<times> 'l) worker_state \<times> gerror option" where
  "commit_in commit st r = (case commit (fst (World st)) r of (w, e) \<Rightarrow> (st\<lparr>World := (w, snd (World st))\<rparr>, e))"

definition rest_in :: "('s \<Rightarrow> 's) \<Rightarrow> ('w \<Rightarrow> 'w) \<Rightarrow> ('s, 'w \<times> 'l) worker_state \<Rightarrow> ('s, 'w \<times> 'l) worker_state" where
  "rest_in tick rest st = st\<lparr>Trans := tick (Trans st), World := map_prod rest (\<lambda>l. l) (World st)\<rparr>"

interpretation worker_accounts: accounting accounted "\<lambda>r. fmlookup pipelines (RecTopic r) \<noteq> None"
    "\<lambda>st r. handler (logged_io io) pipelines (ctx r) st r" "commit_in commit" "rest_in tick rest"
    for pipelines :: "(string, 's pipeline_info) fmap" and io :: "'w worker_io" and ctx commit tick rest
proof
  fix r and w w' :: "('s, 'w \<times> message list) worker_state"
  assume "fmlookup pipelines (RecTopic r) \<noteq> None" and h: "handler (logged_io io) pipelines (ctx r) w r = (w', None)"
  then obtain info where "fmlookup pipelines (RecTopic r) = Some info" by auto
  from handler_traced [OF this h] obtain ms where "accepted w' = accepted w @ ms"
    "ms \<noteq> [] \<or> Dropped (Counters w') = Dropped (Counters w) + 1" by blast
  moreover have "grows w w'" using handler_grows [of w io pipelines "ctx r" r] h by simp
  ultimately show "accounted w < accounted w'" by (cases ms) (auto simp: accounted_def grows_def)
next
  fix r err and w w' :: "('s, 'w \<times> message list) worker_state"
  assume "handler (logged_io io) pipelines (ctx r) w r = (w', Some err)"
  then show "accounted w \<le> accounted w'"
    using handler_grows [of w io pipelines "ctx r" r] by (simp add: accounted_def grows_def)
qed (simp_all add: accounted_def commit_in_def rest_in_def case_prod_beta)

section \<open>Properties\<close>

text \<open>C5: what a reported success means: for a record of a topic with a pipeline a message was accepted by the
  broker or the record was counted as dropped, so none of them is lost without a trace; a record of a topic
  without a pipeline is passed over, with nothing sent and nothing counted. A started worker opens no such
  topic.\<close>

theorem handler_no_silent_loss:
  assumes "handler (logged_io io) pipelines ctx st r = (st', None)"
  shows "case fmlookup pipelines (RecTopic r) of
      None \<Rightarrow> st' = st
    | Some info \<Rightarrow> \<exists>ms. accepted st' = accepted st @ ms \<and>
        (ms \<noteq> [] \<or> Dropped (Counters st') = Dropped (Counters st) + 1)"
proof (cases "fmlookup pipelines (RecTopic r)")
  case None
  with assms show ?thesis by (simp add: handler_def)
next
  case (Some info)
  with handler_traced [OF Some assms] show ?thesis by simp
qed

theorem handler_no_silent_loss_witness:
  "\<exists>ms. accepted (fst (handler (logged_io sample_io) (sample_pipelines False) (\<lambda>i. None) sample_state sample_record)) =
     accepted sample_state @ ms \<and> (ms \<noteq> [] \<or> Dropped (Counters (fst (handler (logged_io sample_io)
       (sample_pipelines False) (\<lambda>i. None) sample_state sample_record))) = Dropped (Counters sample_state) + 1)"
proof -
  have "snd (handler (logged_io sample_io) (sample_pipelines False) (\<lambda>i. None) sample_state sample_record) = None"
    by code_simp
  then have "handler (logged_io sample_io) (sample_pipelines False) (\<lambda>i. None) sample_state sample_record =
      (fst (handler (logged_io sample_io) (sample_pipelines False) (\<lambda>i. None) sample_state sample_record), None)"
    by (metis prod.collapse)
  from handler_no_silent_loss [OF this] show ?thesis by (simp add: sample_lookup)
qed

text \<open>C7: of one event the handler sends one message, with the record's key and the event's payload, to the
  dead-letter topic when the event is marked for it, else to its route or the output topic; when it reports
  an error, it has sent none.\<close>

theorem handler_one_event:
  assumes "fmlookup pipelines (RecTopic r) = Some info"
    and "DecodePayload io (RecValue r) = Inr payload"
    and "snd (Execute (Pipe info) ctx (Trans st) (IEvent (record_event r payload))) = Inr (IEvent ev)"
    and "handler (logged_io io) pipelines ctx st r = (st', e)"
  shows "case e of
      None \<Rightarrow> \<exists>v. MarshalPayload io (Payload ev) = Inr v \<and>
        accepted st' = accepted st @ [\<lparr>MsgTopic = target_topic (InfoCfg info) ev, MsgKey = RecKey r, MsgValue = v\<rparr>]
    | Some err \<Rightarrow> accepted st' = accepted st"
proof -
  obtain s1 where ex: "Execute (Pipe info) ctx (Trans st) (IEvent (record_event r payload)) = (s1, Inr (IEvent ev))"
    using assms(3) by (metis prod.collapse)
  show ?thesis
    using assms ex send_event_logged [of io "InfoCfg info" r ev "st\<lparr>Trans := s1\<rparr>" st' e]
    by (cases e) (auto simp: handler_def send_result_def Let_def split: if_splits)
qed

theorem handler_one_event_witness:
  "accepted (fst (handler (logged_io sample_io) (sample_pipelines False) (\<lambda>i. None) sample_state sample_record)) =
     [\<lparr>MsgTopic = ''out'', MsgKey = Some ''k'', MsgValue = ''v''\<rparr>]"
proof -
  let ?h = "handler (logged_io sample_io) (sample_pipelines False) (\<lambda>i. None) sample_state sample_record"
  let ?ev = "record_event sample_record (Some fmempty)"
  have "snd ?h = None" by code_simp
  then have run: "?h = (fst ?h, None)" by (metis prod.collapse)
  have dec: "DecodePayload sample_io (RecValue sample_record) = Inr (Some fmempty)" by (simp add: sample_io_def)
  have ex: "snd (Execute \<lparr>pipeline_id = ''p'', pipeline_transforms = [twice_transform False]\<rparr> (\<lambda>i. None) (Trans sample_state)
      (IEvent ?ev)) = Inr (IEvent ?ev)" by (simp add: sample_run)
  have "target_topic sample_pipeline_config ?ev = ''out''" "RecKey sample_record = Some ''k''" "accepted sample_state = []"
    by code_simp+
  with handler_one_event [OF sample_lookup dec _ run] ex show ?thesis by (auto simp: sample_io_def)
qed

text \<open>C8: of several events the handler sends at most one message each, in the order of the events and with
  pairwise different keys; when it reports success, exactly one for each of them.\<close>

theorem handler_many_events:
  assumes "fmlookup pipelines (RecTopic r) = Some info"
    and "DecodePayload io (RecValue r) = Inr payload"
    and "snd (Execute (Pipe info) ctx (Trans st) (IEvent (record_event r payload))) = Inr (IEvents evs)"
    and "handler (logged_io io) pipelines ctx st r = (st', e)"
  shows "\<exists>ms idx. accepted st' = accepted st @ ms \<and> distinct (map MsgKey ms) \<and> sorted_wrt (<) idx \<and>
    list_all2 (message_of io r evs) idx ms \<and> (e = None \<longrightarrow> idx = [0..<length evs])"
proof -
  obtain s1 where ex: "Execute (Pipe info) ctx (Trans st) (IEvent (record_event r payload)) = (s1, Inr (IEvents evs))"
    using assms(3) by (metis prod.collapse)
  let ?out = "trim_space (OutputTopic (InfoCfg info))"
  show ?thesis
  proof (cases "?out = []")
    case True
    with assms ex show ?thesis
      by (intro exI [of _ "[]"]) (auto simp: handler_def send_result_def Let_def)
  next
    case False
    with assms ex have "send_events (logged_io io) (InfoCfg info) r ?out evs (st\<lparr>Trans := s1\<rparr>) = (st', e)"
      by (simp add: handler_def send_result_def Let_def)
    from send_events_logged [OF this] obtain ms idx where "accepted st' = accepted st @ ms"
      and idx: "list_all2 (message_of io r evs) idx ms" "sorted_wrt (<) idx" "e = None \<longrightarrow> idx = [0..<length evs]" by auto
    moreover have "distinct idx" using idx(2) by (simp add: strict_sorted_iff)
    with idx(1) have "distinct (map MsgKey ms)" by (rule message_keys_distinct)
    ultimately show ?thesis by blast
  qed
qed

theorem handler_many_events_witness:
  "\<exists>ms. accepted (fst (handler (logged_io sample_io) (sample_pipelines True) (\<lambda>i. None) sample_state sample_record)) = ms \<and>
     length ms = 2 \<and> distinct (map MsgKey ms)"
proof -
  let ?h = "handler (logged_io sample_io) (sample_pipelines True) (\<lambda>i. None) sample_state sample_record"
  let ?ev = "record_event sample_record (Some fmempty)"
  have "snd ?h = None" by code_simp
  then have run: "?h = (fst ?h, None)" by (metis prod.collapse)
  have dec: "DecodePayload sample_io (RecValue sample_record) = Inr (Some fmempty)" by (simp add: sample_io_def)
  have ex: "snd (Execute \<lparr>pipeline_id = ''p'', pipeline_transforms = [twice_transform True]\<rparr> (\<lambda>i. None) (Trans sample_state)
      (IEvent ?ev)) = Inr (IEvents [?ev, ?ev])" by (simp add: sample_run)
  have "accepted sample_state = []" by code_simp
  with handler_many_events [OF sample_lookup dec _ run, of "[?ev, ?ev]"] ex show ?thesis
    by (auto dest!: list_all2_lengthD)
qed

text \<open>C33: a worker that started reads exactly the input topics of the pipelines, no topic belongs to two of
  them, and every record it can receive has the pipeline that was made from its configuration.\<close>

theorem worker_topics:
  assumes "startPipelineWorker marshal reg ord new_consumer new_producer cfg = (acts, Some (Inr (w, pipelines)))" and "iter_ok ord"
  shows "\<exists>topics ack. acts = [OpenConsumer topics, OpenProducer ack, StartLoop] \<and>
    set topics = fset (fmdom pipelines) \<and> distinct (concat (map InputTopics (Pipelines cfg))) \<and>
    (\<forall>t \<in> set topics. \<exists>info. fmlookup pipelines t = Some info \<and> made_by marshal reg (Pipelines cfg) t info)"
  by (rule started_topics [OF assms])

theorem worker_topics_witness:
  "\<exists>acts w pipelines. startPipelineWorker (\<lambda>v. Inr ''null'') sample_registry sorted_keys (\<lambda>c. None) (\<lambda>b a. None) sample_worker_config =
     (acts, Some (Inr (w, pipelines))) \<and> (\<exists>topics ack. acts = [OpenConsumer topics, OpenProducer ack, StartLoop])"
proof -
  note topics = sample_topics
  obtain acts w pipelines where run: "startPipelineWorker (\<lambda>v. Inr ''null'') sample_registry sorted_keys (\<lambda>c. None) (\<lambda>b a. None)
      sample_worker_config = (acts, Some (Inr (w, pipelines)))"
    using sample_pipelines_built topics
    by (simp add: startPipelineWorker_def NewConsumer_def NewProducer_def Start_def consumer_settings_of_def
        Let_def sample_worker_config_def)
  from worker_topics [OF run iter_ok_sorted] run show ?thesis by blast
qed

text \<open>When the producer cannot be made, the worker never starts and never reports it: the consumer that
  was opened is stopped, and its \<open>Stop\<close> waits for a loop that was never started.\<close>

theorem producer_failure_hangs:
  assumes "build_pipelines marshal reg (Pipelines cfg) fmempty = Inr pipelines"
    and "NewConsumer new_consumer (consumer_settings_of cfg (input_topics ord (Pipelines cfg))) True = Inr (cons :: unit kconsumer)"
    and "NewProducer new_producer (ProducerBrokers (Producer (Kafka cfg))) (Acks (Producer (Kafka cfg))) True = Inl err"
  shows "startPipelineWorker marshal reg ord new_consumer new_producer cfg =
    ([OpenConsumer (input_topics ord (Pipelines cfg)), StopConsumer], None)"
proof -
  have "\<not> started cons" using assms(2) by (auto simp: NewConsumer_def split: if_splits option.splits)
  with assms show ?thesis by (simp add: startPipelineWorker_def stop_consumer_def Stop_def Let_def)
qed

theorem producer_failure_hangs_witness:
  "snd (startPipelineWorker (\<lambda>v. Inr ''null'') sample_registry sorted_keys (\<lambda>c. None) (\<lambda>b a. Some (ErrLib ''refused'')) sample_worker_config) = None"
proof -
  note topics = sample_topics
  obtain cons :: "unit kconsumer" where cons: "NewConsumer (\<lambda>c. None)
      (consumer_settings_of sample_worker_config (input_topics sorted_keys (Pipelines sample_worker_config))) True = Inr cons"
    using topics by (simp add: NewConsumer_def consumer_settings_of_def sample_worker_config_def)
  have "NewProducer (\<lambda>b a. Some (ErrLib ''refused'')) (ProducerBrokers (Producer (Kafka sample_worker_config)))
      (Acks (Producer (Kafka sample_worker_config))) True = Inl (wrap_err ''failed to create franz-go client: %w'' [] (ErrLib ''refused''))"
    by (simp add: NewProducer_def sample_worker_config_def)
  from producer_failure_hangs [OF sample_pipelines_built cons this] show ?thesis by simp
qed

text \<open>A pipeline with a transform that is not registered, as those of the enrichment packages, which
  the service does not register, keeps the worker from starting; nothing has been opened then.\<close>

theorem unregistered_transform_fails:
  assumes "p \<in> set (Pipelines cfg)" and "d \<in> set (PipelineTransforms p)" and "fmlookup reg (DescType d) = None"
  shows "\<exists>err. startPipelineWorker marshal reg ord new_consumer new_producer cfg = ([], Some (Inl err))"
  using build_pipelines_unknown [OF assms, of marshal fmempty] by (auto simp: startPipelineWorker_def)

theorem unregistered_transform_fails_witness:
  "\<exists>err. startPipelineWorker (\<lambda>v. Inr ''null'') (fmempty :: unit registry) sorted_keys (\<lambda>c. None) (\<lambda>b a. None)
     sample_worker_config = ([], Some (Inl err))"
  by (rule unregistered_transform_fails [of sample_pipeline_config _ "TransformDescriptor ''twice'' VNil [] []"])
     (simp_all add: sample_worker_config_def sample_pipeline_config_def)

end
