(* ===== verification/Service.thy ===== *)
theory Service
  imports Worker
begin

text \<open>
  The process around the worker: the logger (\<open>internal/logging\<close>), the histograms of the metrics and the
  metrics server (\<open>internal/metrics\<close>), the health server (\<open>internal/health\<close>), the coordinator of the shutdown
  (\<open>internal/shutdown\<close>) and \<open>main\<close> (\<open>cmd/transform/main.go\<close>), from the configuration to the shutdown.
\<close>

section \<open>The logger\<close>

datatype zap_level = DebugLevel | InfoLevel | WarnLevel | ErrorLevel

text \<open>\<open>build\<close> is the error of building the logger of \<open>zap\<close>.\<close>

definition NewLogger :: "(zap_level \<Rightarrow> gerror option) \<Rightarrow> string \<Rightarrow> gerror + zap_level" where
  "NewLogger build level =
     (let lowered = ascii_lower (trim_space level);
          make = (\<lambda>l. case build l of Some err \<Rightarrow> Inl err | None \<Rightarrow> Inr l)
      in if lowered = [] then make InfoLevel
         else if lowered = ''debug'' then make DebugLevel
         else if lowered = ''info'' then make InfoLevel
         else if lowered = ''warn'' then make WarnLevel
         else if lowered = ''error'' then make ErrorLevel
         else Inl (Errorf ''invalid log level %q: must be one of debug, info, warn, error'' [VStr level]))"

section \<open>The metrics\<close>

record histogram_opts =
  HistNamespace :: string
  HistSubsystem :: string
  HistName :: string
  HistHelp :: string
  HistBuckets :: "f64 list"

definition customBuckets :: "(string, f64 list) fmap option \<Rightarrow> string \<Rightarrow> f64 list" where
  "customBuckets buckets key =
     (case buckets of
        None \<Rightarrow> []
      | Some m \<Rightarrow> (case fmlookup m key of Some vals \<Rightarrow> vals | None \<Rightarrow> []))"

text \<open>\<open>dflt\<close> are the buckets \<open>prometheus.ExponentialBuckets\<close> makes.\<close>

definition transformHistogramOpts ::
  "f64 list \<Rightarrow> string \<Rightarrow> string \<Rightarrow> (string, f64 list) fmap option \<Rightarrow> histogram_opts" where
  "transformHistogramOpts dflt ns sub buckets =
     \<lparr>HistNamespace = ns, HistSubsystem = sub, HistName = ''transform_duration_seconds'',
      HistHelp = ''Duration of each transform stage'',
      HistBuckets =
        (if length (customBuckets buckets ''transform_latency'') > 0 then customBuckets buckets ''transform_latency''
         else if length (customBuckets buckets ''latency'') > 0 then customBuckets buckets ''latency''
         else dflt)\<rparr>"

definition pipelineHistogramOpts ::
  "f64 list \<Rightarrow> string \<Rightarrow> string \<Rightarrow> (string, f64 list) fmap option \<Rightarrow> histogram_opts" where
  "pipelineHistogramOpts dflt ns sub buckets =
     \<lparr>HistNamespace = ns, HistSubsystem = sub, HistName = ''pipeline_duration_seconds'',
      HistHelp = ''End-to-end pipeline duration'',
      HistBuckets =
        (if length (customBuckets buckets ''pipeline_latency'') > 0 then customBuckets buckets ''pipeline_latency''
         else if length (customBuckets buckets ''latency'') > 0 then customBuckets buckets ''latency''
         else dflt)\<rparr>"

datatype metric =
    MCounter string string string string
  | MCounterVec string string string string "string list"
  | MHistogram histogram_opts
  | MHistogramVec histogram_opts "string list"

text \<open>The metrics in the order they are registered: namespace, subsystem, name, help and labels\<close>

definition NewWithNamespace :: "f64 list \<Rightarrow> string \<Rightarrow> string \<Rightarrow> (string, f64 list) fmap option \<Rightarrow> metric list" where
  "NewWithNamespace dflt ns sub buckets =
     [MCounter ns sub ''transform_messages_processed_total'' ''Total number of messages processed'',
      MCounter ns sub ''transform_messages_dropped_total'' ''Messages discarded by filters or validation'',
      MCounter ns sub ''transform_messages_dlq_total'' ''Messages sent to the dead letter queue'',
      MHistogramVec (transformHistogramOpts dflt ns sub buckets) [''transform'', ''pipeline''],
      MCounterVec ns sub ''transform_errors_total'' ''Errors surfaced by transforms'' [''transform'', ''pipeline''],
      MHistogram (pipelineHistogramOpts dflt ns sub buckets),
      MCounterVec ns sub ''transform_route_total'' ''Messages routed by topic'' [''route'', ''target_topic''],
      MCounterVec ns sub ''transform_validate_total'' ''Validation transform results'' [''validator'', ''result''],
      MCounterVec ns sub ''transform_filter_total'' ''Messages filtered by condition'' [''filter'', ''action'']]"

definition NewMetrics :: "f64 list \<Rightarrow> metric list" where
  "NewMetrics dflt = NewWithNamespace dflt [] [] None"

section \<open>The two servers\<close>

text \<open>
  What a caller of \<open>Start\<close> sees: whether \<open>ready\<close> is closed, the errors sent and whether the channel of errors
  is closed. \<open>serving\<close> says that the goroutine of the server runs.
\<close>

record start_channels =
  ready :: bool
  start_errs :: "gerror list"
  errs_closed :: bool
  serving :: bool

definition start_server :: "(int \<Rightarrow> gerror option) \<Rightarrow> int \<Rightarrow> start_channels" where
  "start_server listen port =
     (case listen port of
        Some err \<Rightarrow> \<lparr>ready = True, start_errs = [err], errs_closed = True, serving = False\<rparr>
      | None \<Rightarrow> \<lparr>ready = True, start_errs = [], errs_closed = False, serving = True\<rparr>)"

text \<open>A server that is nil\<close>

definition start_nil_server :: "string \<Rightarrow> start_channels" where
  "start_nil_server msg = \<lparr>ready = True, start_errs = [Errorf msg []], errs_closed = True, serving = False\<rparr>"

definition metrics_Start :: "(int \<Rightarrow> gerror option) \<Rightarrow> int option \<Rightarrow> start_channels" where
  "metrics_Start listen s =
     (case s of None \<Rightarrow> start_nil_server ''metrics server not configured'' | Some port \<Rightarrow> start_server listen port)"

text \<open>The end of \<open>Serve\<close>: whether the service is cancelled, and the channels after it\<close>

definition serve_end :: "(gerror \<Rightarrow> bool) \<Rightarrow> gerror option \<Rightarrow> start_channels \<Rightarrow> bool \<times> start_channels" where
  "serve_end is_closed serveErr st =
     (case serveErr of
        Some err \<Rightarrow>
          (if \<not> is_closed err then (True, st\<lparr>start_errs := start_errs st @ [err], errs_closed := True, serving := False\<rparr>)
           else (False, st\<lparr>errs_closed := True, serving := False\<rparr>))
      | None \<Rightarrow> (False, st\<lparr>errs_closed := True, serving := False\<rparr>))"

text \<open>A metrics server is its port.\<close>

definition NewMetricsServer :: "int \<Rightarrow> bool \<Rightarrow> gerror + int" where
  "NewMetricsServer port has_logger =
     (if \<not> has_logger then Inl (Errorf ''logger is required'' [])
      else if port < 1 \<or> port > 65535 then
        Inl (Errorf ''metrics port %d is out of range (1-65535)'' [VInt (of_int port)])
      else Inr port)"

type_synonym 'w check = "'w \<Rightarrow> 'w \<times> gerror option"

record 'w health_server =
  HealthServerPort :: int
  Checks :: "(string \<times> 'w check) list"

definition NewHealthServer :: "int \<Rightarrow> bool \<Rightarrow> gerror + 'w health_server" where
  "NewHealthServer port has_logger =
     (if port < 1 \<or> port > 65535 then Inl (Errorf ''invalid port: must be 1-65535'' [])
      else if \<not> has_logger then Inl (Errorf ''nil logger provided'' [])
      else Inr \<lparr>HealthServerPort = port, Checks = []\<rparr>)"

definition AddCheck :: "string \<Rightarrow> 'w check option \<Rightarrow> 'w health_server option \<Rightarrow> gerror + 'w health_server" where
  "AddCheck name check s =
     (case (s, check) of
        (Some s, Some check) \<Rightarrow>
          (let name = trim_space name
           in if name = [] then Inl (Errorf ''check name is required'' [])
              else if name \<in> set (map fst (Checks s)) then
                Inl (Errorf ''check with name %q already registered'' [VStr name])
              else Inr (s\<lparr>Checks := Checks s @ [(name, check)]\<rparr>))
      | _ \<Rightarrow> Inl (Errorf ''server or check is nil'' []))"

definition health_Start :: "(int \<Rightarrow> gerror option) \<Rightarrow> 'w health_server option \<Rightarrow> start_channels" where
  "health_Start listen s =
     (case s of
        None \<Rightarrow> start_nil_server ''health server not configured''
      | Some s \<Rightarrow> start_server listen (HealthServerPort s))"

text \<open>\<open>handleHealth\<close>: the checks up to the first that fails, and the answer, its status and its body\<close>

fun run_checks :: "(string \<times> 'w check) list \<Rightarrow> 'w \<Rightarrow> 'w \<times> bool" where
  "run_checks [] w = (w, True)"
| "run_checks ((name, check) # cs) w =
     (case check w of (w, Some err) \<Rightarrow> (w, False) | (w, None) \<Rightarrow> run_checks cs w)"

definition handleHealth :: "'w health_server \<Rightarrow> 'w \<Rightarrow> 'w \<times> int \<times> string" where
  "handleHealth s w =
     (case run_checks (Checks s) w of
        (w, False) \<Rightarrow> (w, 503, ''unhealthy'' @ [CHR 0x0A])
      | (w, True) \<Rightarrow> (w, 200, ''ok''))"

text \<open>The shutdown of the two servers; \<open>http\<close> is that of the HTTP server, and a server that is nil has none.\<close>

definition metrics_Shutdown :: "('w \<Rightarrow> 'w \<times> gerror option) \<Rightarrow> int option \<Rightarrow> 'w \<Rightarrow> 'w \<times> gerror option" where
  "metrics_Shutdown http s w = (case s of None \<Rightarrow> (w, None) | Some _ \<Rightarrow> http w)"

definition health_Shutdown :: "('w \<Rightarrow> 'w \<times> gerror option) \<Rightarrow> 'c health_server option \<Rightarrow> 'w \<Rightarrow> 'w \<times> gerror option" where
  "health_Shutdown http s w = (case s of None \<Rightarrow> (w, None) | Some _ \<Rightarrow> http w)"

section \<open>The shutdown\<close>

type_synonym 'w task = "'w \<Rightarrow> 'w \<times> gerror option"

text \<open>\<open>ShutdownFunc.Shutdown\<close>: a nil function does nothing.\<close>

definition ShutdownFunc :: "'w task option \<Rightarrow> 'w task" where
  "ShutdownFunc f w = (case f of None \<Rightarrow> (w, None) | Some f \<Rightarrow> f w)"

record 'w coordinator =
  Tasks :: "(string \<times> 'w task) list"
  Once :: bool

definition NewCoordinator :: "'w coordinator" where
  "NewCoordinator = \<lparr>Tasks = [], Once = False\<rparr>"

definition RegisterTask :: "string \<Rightarrow> 'w task option \<Rightarrow> 'w coordinator \<Rightarrow> 'w coordinator" where
  "RegisterTask name t c = (case t of None \<Rightarrow> c | Some t \<Rightarrow> c\<lparr>Tasks := Tasks c @ [(name, t)]\<rparr>)"

text \<open>The loop from the last task to the first; an error is logged with the name of the task.\<close>

fun stop_tasks :: "(string \<times> 'w task) list \<Rightarrow> 'w \<Rightarrow> 'w \<times> (string \<times> gerror) list" where
  "stop_tasks [] w = (w, [])"
| "stop_tasks ((name, t) # ts) w =
     (case t w of
        (w, e) \<Rightarrow>
          (case stop_tasks ts w of
             (w, logged) \<Rightarrow> (w, case e of Some err \<Rightarrow> (name, err) # logged | None \<Rightarrow> logged)))"

definition Shutdown :: "'w coordinator \<Rightarrow> 'w \<Rightarrow> 'w coordinator \<times> 'w \<times> (string \<times> gerror) list" where
  "Shutdown c w =
     (if Once c then (c, w, [])
      else case stop_tasks (rev (Tasks c)) w of (w, logged) \<Rightarrow> (c\<lparr>Once := True\<rparr>, w, logged))"


section \<open>\<open>main\<close>\<close>

text \<open>What the process starts with: its surroundings and the libraries the packages before use\<close>

record 's surroundings =
  Env :: "string \<Rightarrow> string option"
  ReadFile :: "string \<Rightarrow> gerror + string"
  JsonDecoder :: decoder
  YamlDecoder :: decoder
  CompileRegexp :: regexp_compile
  BuildLogger :: "zap_level \<Rightarrow> gerror option"
  Listen :: "int \<Rightarrow> gerror option"
  MarshalConfig :: "gval \<Rightarrow> gerror + string"
  Transforms :: "'s registry"
  MapOrder :: iter
  ConsumerClient :: "consumer_settings \<Rightarrow> gerror option"
  ProducerClient :: "string list \<Rightarrow> acks \<Rightarrow> gerror option"

text \<open>What the parts of the running service do to the world \<open>'w\<close> when they are stopped, and the check of the worker\<close>

record 'w service_parts =
  StopMetrics :: "'w task"
  StopWorker :: "'w task"
  StopHealth :: "'w task"
  WorkerHealth :: "'w check"

datatype boot_action = BindMetrics int start_channels | FromWorker startup | BindHealth int start_channels

record ('s, 'w) service =
  SvcConfig :: config
  SvcPipelines :: "(string, 's pipeline_info) fmap"
  SvcWorker :: pipeline_worker
  SvcHealth :: "'w health_server"
  SvcCoordinator :: "'w coordinator"

text \<open>\<open>main\<close> exits with an error, hangs in the start of the worker, or waits for the signal.\<close>

datatype 'v boot_end = Exit string gerror | Hangs | Up 'v

definition load_settings :: "'s surroundings \<Rightarrow> (string \<times> gerror) + config" where
  "load_settings io =
     (case LoadConfig (Env io) (ReadFile io) (JsonDecoder io) (YamlDecoder io) [] of
        Inl err \<Rightarrow> Inl (''failed to load config'', err)
      | Inr cfg \<Rightarrow>
          (case ApplyEnvOverrides (Env io) cfg of
             (cfg, Some err) \<Rightarrow> Inl (''failed to apply env overrides'', err)
           | (cfg, None) \<Rightarrow>
               (case Validate (CompileRegexp io) cfg of
                  Some err \<Rightarrow> Inl (''invalid configuration'', err)
                | None \<Rightarrow> Inr cfg)))"

text \<open>A metrics server that cannot be made is only reported.\<close>

definition start_metrics ::
  "'s surroundings \<Rightarrow> 'w service_parts \<Rightarrow> config \<Rightarrow> 'w coordinator \<Rightarrow> boot_action list \<times> 'w coordinator" where
  "start_metrics io parts cfg c =
     (if MetricsPort (Service cfg) > 0 then
        (case NewMetricsServer (MetricsPort (Service cfg)) True of
           Inl err \<Rightarrow> ([], c)
         | Inr port \<Rightarrow>
             ([BindMetrics port (metrics_Start (Listen io) (Some port))],
              RegisterTask ''metrics server'' (Some (StopMetrics parts)) c))
      else ([], c))"

definition start_health ::
  "'s surroundings \<Rightarrow> 'w service_parts \<Rightarrow> config \<Rightarrow> 'w coordinator \<Rightarrow>
   gerror + boot_action list \<times> 'w health_server \<times> 'w coordinator" where
  "start_health io parts cfg c =
     bind_res (NewHealthServer (HealthPort (Service cfg)) True) (\<lambda>hs.
       let hs = (case AddCheck ''pipeline worker'' (Some (WorkerHealth parts)) (Some hs) of
                   Inl err \<Rightarrow> hs | Inr hs \<Rightarrow> hs)
       in Inr ([BindHealth (HealthServerPort hs) (health_Start (Listen io) (Some hs))], hs,
               RegisterTask ''health server'' (Some (StopHealth parts)) c))"

definition boot :: "'s surroundings \<Rightarrow> 'w service_parts \<Rightarrow> boot_action list \<times> ('s, 'w) service boot_end" where
  "boot io parts =
     (case load_settings io of
        Inl (msg, err) \<Rightarrow> ([], Exit msg err)
      | Inr cfg \<Rightarrow>
          (case NewLogger (BuildLogger io) (LogLevel (Service cfg)) of
             Inl err \<Rightarrow> ([], Exit ''failed to build logger'' err)
           | Inr level \<Rightarrow>
               (case start_metrics io parts cfg NewCoordinator of
                  (acts, c) \<Rightarrow>
                    (case startPipelineWorker (MarshalConfig io) (Transforms io) (MapOrder io) (ConsumerClient io)
                            (ProducerClient io) cfg of
                       (wacts, None) \<Rightarrow> (acts @ map FromWorker wacts, Hangs)
                     | (wacts, Some (Inl err)) \<Rightarrow>
                         (acts @ map FromWorker wacts, Exit ''failed to start pipeline worker'' err)
                     | (wacts, Some (Inr (wk, pipelines))) \<Rightarrow>
                         (let c = RegisterTask ''pipeline worker'' (Some (ShutdownFunc (Some (StopWorker parts)))) c
                          in case start_health io parts cfg c of
                               Inl err \<Rightarrow> (acts @ map FromWorker wacts, Exit ''failed to create health server'' err)
                             | Inr (hacts, hs, c) \<Rightarrow>
                                 (acts @ map FromWorker wacts @ hacts,
                                  Up \<lparr>SvcConfig = cfg, SvcPipelines = pipelines, SvcWorker = wk, SvcHealth = hs, SvcCoordinator = c\<rparr>))))))"

text \<open>
  \<open>main\<close> to its end: a service that came up runs until the signal, which finds the world \<open>live\<close> and cancels the
  context of \<open>main\<close>, \<open>cancel\<close>, from which the context of the worker derives; then the coordinator stops the parts.
\<close>

definition run_main ::
  "'s surroundings \<Rightarrow> 'w service_parts \<Rightarrow> ('w \<Rightarrow> 'w) \<Rightarrow> (('s, 'w) service \<Rightarrow> 'w) \<Rightarrow>
   boot_action list \<times> ('w \<times> (string \<times> gerror) list) boot_end" where
  "run_main io parts cancel live =
     (case boot io parts of
        (acts, Exit msg err) \<Rightarrow> (acts, Exit msg err)
      | (acts, Hangs) \<Rightarrow> (acts, Hangs)
      | (acts, Up svc) \<Rightarrow>
          (case Shutdown (SvcCoordinator svc) (cancel (live svc)) of (c, w, logged) \<Rightarrow> (acts, Up (w, logged))))"

section \<open>The running process\<close>

text \<open>
  The parts as they are: the servers and the worker of theory \<open>Worker\<close>, and what was done to them, in order. The
  shutdown ends with the error \<open>deadline\<close> when its time is over.
\<close>

datatype proc_act = ByWorker startup | HealthStopped | WorkerAwaited | MetricsStopped

record process =
  ProcWorker :: "pipeline_worker option"
  ProcActs :: "proc_act list"
  MetricsDown :: bool
  HealthDown :: bool

definition log_act :: "proc_act list \<Rightarrow> process \<Rightarrow> process" where
  "log_act as p = p\<lparr>ProcActs := ProcActs p @ as\<rparr>"

text \<open>
  The fetch loop at the signal: it has ended before, it ends in the time of the shutdown, or a handler keeps it
  from ending.
\<close>

datatype loop_fate = HasEnded loop_end | WillEnd | NeverEnds

text \<open>The process when the signal arrives, and the cancellation by the signal\<close>

definition live_process :: "loop_fate \<Rightarrow> ('s, 'w) service \<Rightarrow> process" where
  "live_process l svc =
     \<lparr>ProcWorker = Some ((SvcWorker svc)\<lparr>worker_cons :=
        (case l of HasEnded e \<Rightarrow> map_option (report_end e) (worker_cons (SvcWorker svc)) | _ \<Rightarrow> worker_cons (SvcWorker svc))\<rparr>),
      ProcActs = [], MetricsDown = False, HealthDown = False\<rparr>"

definition signal_process :: "process \<Rightarrow> process" where
  "signal_process p = p\<lparr>ProcWorker := map_option (\<lambda>w. w\<lparr>worker_cancelled := True\<rparr>) (ProcWorker p)\<rparr>"

text \<open>
  The signal wakes the goroutine of the worker, which runs beside the coordinator: before every task of the
  coordinator it may have any number of turns.
\<close>

definition goroutine_runs :: "loop_fate \<Rightarrow> nat \<Rightarrow> process \<Rightarrow> process" where
  "goroutine_runs l n p =
     (case ProcWorker p of
        None \<Rightarrow> p
      | Some w \<Rightarrow>
          (case worker_turns (l \<noteq> NeverEnds) n w of
             (acts, w) \<Rightarrow> log_act (map ByWorker acts) (p\<lparr>ProcWorker := Some w\<rparr>)))"

definition stop_worker :: "loop_fate \<Rightarrow> gerror \<Rightarrow> process task" where
  "stop_worker l deadline p =
     (case worker_Stop (l \<noteq> NeverEnds) (Some deadline) (ProcWorker p) of
        None \<Rightarrow> (p, None)
      | Some (acts, w, e) \<Rightarrow> (log_act (map ByWorker acts @ [WorkerAwaited]) (p\<lparr>ProcWorker := w\<rparr>), e))"

definition check_worker :: "process check" where
  "check_worker p =
     (p, case ProcWorker p of
           None \<Rightarrow> Some (ErrPanic ''invalid memory address or nil pointer dereference'')
         | Some w \<Rightarrow> worker_HealthCheck w)"

text \<open>\<open>i\<close>, \<open>j\<close> and \<open>k\<close> are the turns before the health server, the worker and the metrics server are stopped.\<close>

definition process_parts ::
  "loop_fate \<Rightarrow> nat \<Rightarrow> nat \<Rightarrow> nat \<Rightarrow> gerror \<Rightarrow> gerror option \<Rightarrow> gerror option \<Rightarrow> int \<Rightarrow> process health_server \<Rightarrow>
   process service_parts" where
  "process_parts l i j k deadline merr herr port hs =
     \<lparr>StopMetrics = (\<lambda>p. metrics_Shutdown (\<lambda>p. (log_act [MetricsStopped] (p\<lparr>MetricsDown := True\<rparr>), merr)) (Some port)
        (goroutine_runs l k p)),
      StopWorker = (\<lambda>p. stop_worker l deadline (goroutine_runs l j p)),
      StopHealth = (\<lambda>p. health_Shutdown (\<lambda>p. (log_act [HealthStopped] (p\<lparr>HealthDown := True\<rparr>), herr)) (Some hs)
        (goroutine_runs l i p)),
      WorkerHealth = check_worker\<rparr>"

text \<open>What the goroutine of the worker has done\<close>

definition worker_acts :: "process \<Rightarrow> startup list" where
  "worker_acts p = List.map_filter (\<lambda>a. case a of ByWorker s \<Rightarrow> Some s | _ \<Rightarrow> None) (ProcActs p)"

section \<open>The parts, one by one\<close>

lemma NewLogger_ok:
  "(\<exists>l. NewLogger build level = Inr l) \<longrightarrow>
   ascii_lower (trim_space level) \<in> {[], ''debug'', ''info'', ''warn'', ''error''}"
  by (auto simp: NewLogger_def Let_def split: if_splits)

lemma stop_tasks_world: "fst (stop_tasks ts w) = fold (\<lambda>nt w. fst (snd nt w)) ts w"
proof (induction ts arbitrary: w)
  case (Cons nt ts)
  obtain name t w1 e where nt: "nt = (name, t)" "t w = (w1, e)" by (metis prod.exhaust)
  with Cons [of w1] show ?case by (cases "stop_tasks ts w1") simp
qed simp

lemma run_checks_iff:
  "\<forall>(n, c) \<in> set cs. fst (c w) = w \<Longrightarrow> run_checks cs w = (w, \<forall>(n, c) \<in> set cs. snd (c w) = None)"
proof (induction cs)
  case (Cons nc cs)
  obtain name check where nc: "nc = (name, check)" by fastforce
  with Cons.prems have "fst (check w) = w" by simp
  with Cons nc show ?case by (cases "check w"; cases "snd (check w)") auto
qed simp

text \<open>The names of the checks of a server\<close>

definition checks_ok :: "'w health_server \<Rightarrow> bool" where
  "checks_ok s \<longleftrightarrow> distinct (map fst (Checks s)) \<and> [] \<notin> set (map fst (Checks s))"

definition try_check :: "string \<times> 'w check option \<Rightarrow> 'w health_server \<Rightarrow> 'w health_server" where
  "try_check nc s = (case AddCheck (fst nc) (snd nc) (Some s) of Inl err \<Rightarrow> s | Inr s' \<Rightarrow> s')"

lemma fold_inv: "P s \<Longrightarrow> (\<And>x s. x \<in> set xs \<Longrightarrow> P s \<Longrightarrow> P (f x s)) \<Longrightarrow> P (fold f xs s)"
  by (induction xs arbitrary: s) auto

lemma AddCheck_ok: "checks_ok s \<Longrightarrow> AddCheck name check (Some s) = Inr s' \<Longrightarrow> checks_ok s'"
  by (auto simp: AddCheck_def checks_ok_def Let_def split: option.splits if_splits)

lemma load_ok: "load_settings io = Inr cfg \<Longrightarrow> Validate (CompileRegexp io) cfg = None"
  by (auto simp: load_settings_def split: sum.splits prod.splits option.splits)

lemma start_health_None: "start_health io parts cfg c = Inl err \<longleftrightarrow> NewHealthServer (HealthPort (Service cfg)) True = (Inl err :: gerror + 'w health_server)"
  for parts :: "'w service_parts"
  by (auto simp: start_health_def bind_res_def Let_def split: sum.splits)

lemma boot_settings:
  assumes "load_settings io = Inr cfg" and "NewLogger (BuildLogger io) (LogLevel (Service cfg)) = Inr level"
    and "startPipelineWorker (MarshalConfig io) (Transforms io) (MapOrder io) (ConsumerClient io) (ProducerClient io) cfg = (wacts, r)"
    and "start_metrics io parts cfg NewCoordinator = (acts, c)"
  shows "boot io parts =
    (case r of
       None \<Rightarrow> (acts @ map FromWorker wacts, Hangs)
     | Some (Inl err) \<Rightarrow> (acts @ map FromWorker wacts, Exit ''failed to start pipeline worker'' err)
     | Some (Inr (wk, pipelines)) \<Rightarrow>
         (case start_health io parts cfg (RegisterTask ''pipeline worker'' (Some (ShutdownFunc (Some (StopWorker parts)))) c) of
            Inl err \<Rightarrow> (acts @ map FromWorker wacts, Exit ''failed to create health server'' err)
          | Inr (hacts, hs, c) \<Rightarrow>
              (acts @ map FromWorker wacts @ hacts,
               Up \<lparr>SvcConfig = cfg, SvcPipelines = pipelines, SvcWorker = wk, SvcHealth = hs, SvcCoordinator = c\<rparr>)))"
  using assms by (simp add: boot_def Let_def split: option.split sum.split)

text \<open>The service that \<open>main\<close> brings up for a configuration\<close>

definition service_of :: "'w service_parts \<Rightarrow> config \<Rightarrow> pipeline_worker \<Rightarrow> (string, 's pipeline_info) fmap \<Rightarrow> ('s, 'w) service" where
  "service_of parts cfg wk pipelines =
     \<lparr>SvcConfig = cfg, SvcPipelines = pipelines, SvcWorker = wk,
      SvcHealth = \<lparr>HealthServerPort = HealthPort (Service cfg), Checks = [(''pipeline worker'', WorkerHealth parts)]\<rparr>,
      SvcCoordinator = \<lparr>Tasks = (if MetricsPort (Service cfg) > 0 then [(''metrics server'', StopMetrics parts)] else []) @
         [(''pipeline worker'', StopWorker parts), (''health server'', StopHealth parts)], Once = False\<rparr>\<rparr>"

lemma ports_ok:
  assumes "load_settings io = Inr cfg"
  shows "0 \<le> MetricsPort (Service cfg)" "MetricsPort (Service cfg) \<le> 65535"
    "0 \<le> HealthPort (Service cfg)" "HealthPort (Service cfg) \<le> 65535"
  using load_ok [OF assms] by (auto simp: Validate_def Let_def split: if_splits)

lemma start_health_port:
  assumes "1 \<le> HealthPort (Service cfg)" "HealthPort (Service cfg) \<le> 65535"
  shows "\<exists>acts. start_health io parts cfg c = Inr (acts,
    \<lparr>HealthServerPort = HealthPort (Service cfg), Checks = [(''pipeline worker'', WorkerHealth parts)]\<rparr>,
    RegisterTask ''health server'' (Some (StopHealth parts)) c)"
proof -
  have "trim_space ''pipeline worker'' = ''pipeline worker''" by code_simp
  with assms show ?thesis by (simp add: start_health_def NewHealthServer_def AddCheck_def bind_res_def Let_def)
qed

lemma ShutdownFunc_some [simp]: "ShutdownFunc (Some f) = f"
  by (simp add: ShutdownFunc_def fun_eq_iff)

lemma boot_up:
  assumes "load_settings io = Inr cfg" and "NewLogger (BuildLogger io) (LogLevel (Service cfg)) = Inr level"
    and "startPipelineWorker (MarshalConfig io) (Transforms io) (MapOrder io) (ConsumerClient io) (ProducerClient io) cfg =
      (wacts, Some (Inr (wk, pipelines)))" and "HealthPort (Service cfg) \<noteq> 0"
  shows "\<exists>acts. boot io parts = (acts, Up (service_of parts cfg wk pipelines))"
proof -
  note p = ports_ok [OF assms(1)]
  obtain acts c where m: "start_metrics io parts cfg NewCoordinator = (acts, c)" by fastforce
  have "1 \<le> HealthPort (Service cfg)" using p assms(4) by simp
  from start_health_port [OF this p(4), of io parts "RegisterTask ''pipeline worker'' (Some (ShutdownFunc (Some (StopWorker parts)))) c"]
  obtain hacts where "start_health io parts cfg (RegisterTask ''pipeline worker'' (Some (ShutdownFunc (Some (StopWorker parts)))) c) =
      Inr (hacts, \<lparr>HealthServerPort = HealthPort (Service cfg), Checks = [(''pipeline worker'', WorkerHealth parts)]\<rparr>,
        RegisterTask ''health server'' (Some (StopHealth parts)) (RegisterTask ''pipeline worker'' (Some (ShutdownFunc (Some (StopWorker parts)))) c))"
    by blast
  with boot_settings [OF assms(1-3) m] m p show ?thesis
    by (auto simp: service_of_def start_metrics_def NewMetricsServer_def RegisterTask_def NewCoordinator_def split: if_splits)
qed

lemma boot_up_only:
  assumes "boot io parts = (acts, Up svc)"
  shows "\<exists>cfg level wacts wk pipelines. load_settings io = Inr cfg \<and>
    NewLogger (BuildLogger io) (LogLevel (Service cfg)) = Inr level \<and>
    startPipelineWorker (MarshalConfig io) (Transforms io) (MapOrder io) (ConsumerClient io) (ProducerClient io) cfg =
      (wacts, Some (Inr (wk, pipelines))) \<and> HealthPort (Service cfg) \<noteq> 0"
proof -
  obtain cfg where cfg: "load_settings io = Inr cfg" using assms by (auto simp: boot_def split: sum.splits prod.splits)
  obtain level where level: "NewLogger (BuildLogger io) (LogLevel (Service cfg)) = Inr level"
    using assms cfg by (auto simp: boot_def split: sum.splits prod.splits)
  obtain wacts r where w: "startPipelineWorker (MarshalConfig io) (Transforms io) (MapOrder io) (ConsumerClient io)
      (ProducerClient io) cfg = (wacts, r)" by fastforce
  obtain macts c where m: "start_metrics io parts cfg NewCoordinator = (macts, c)" by fastforce
  note b = boot_settings [OF cfg level w m]
  obtain wk pipelines where r: "r = Some (Inr (wk, pipelines))" using assms b by (auto split: option.splits sum.splits)
  have "HealthPort (Service cfg) \<noteq> 0"
  proof
    assume "HealthPort (Service cfg) = 0"
    then have "\<exists>err. start_health io parts cfg c = Inl err" for c
      by (simp add: start_health_def NewHealthServer_def bind_res_def)
    with assms b r show False by (auto split: sum.splits) (metis Inl_Inr_False)+
  qed
  with cfg level w r show ?thesis by blast
qed

lemma up_service:
  assumes "boot io parts = (acts, Up svc)"
  shows "\<exists>cfg wk pipelines. load_settings io = Inr cfg \<and> svc = service_of parts cfg wk pipelines \<and> worker_fresh wk"
proof -
  obtain cfg level wacts wk pipelines where up: "load_settings io = Inr cfg"
      "NewLogger (BuildLogger io) (LogLevel (Service cfg)) = Inr level"
      "startPipelineWorker (MarshalConfig io) (Transforms io) (MapOrder io) (ConsumerClient io) (ProducerClient io) cfg =
        (wacts, Some (Inr (wk, pipelines)))" "HealthPort (Service cfg) \<noteq> 0"
    using boot_up_only [OF assms] by blast
  from boot_up [OF this, of parts] assms have "svc = service_of parts cfg wk pipelines" by simp
  with up(1) started_worker [OF up(3)] show ?thesis by blast
qed

lemma live_worker:
  assumes "worker_fresh (SvcWorker svc)"
  shows "\<exists>w. live_process l svc = \<lparr>ProcWorker = Some w, ProcActs = [], MetricsDown = False, HealthDown = False\<rparr> \<and> worker_fresh w"
proof -
  have "started (report_end e c) = started c" "client_closed (report_end e c) = client_closed c"
    "loop_cancelled (report_end e c) = loop_cancelled c" for e and c :: "unit kconsumer"
    by (simp_all add: report_end_def split: loop_end.split)
  with assms show ?thesis by (auto simp: live_process_def worker_fresh_def worker_running_def split: loop_fate.split)
qed

text \<open>The shutdown of the process: what is done in which order, what is logged, and the worker it leaves\<close>

definition logged_error :: "string \<Rightarrow> gerror option \<Rightarrow> (string \<times> gerror) list" where
  "logged_error name e = (case e of None \<Rightarrow> [] | Some err \<Rightarrow> [(name, err)])"

lemma stop_tasks_logged:
  "stop_tasks ((name, t) # ts) w =
     (case t w of (w, e) \<Rightarrow> (case stop_tasks ts w of (w, logged) \<Rightarrow> (w, logged_error name e @ logged)))"
  by (auto simp: logged_error_def split: prod.split option.split)

lemma process_shutdown:
  fixes l :: loop_fate
  assumes "worker_fresh w" and "p0 = \<lparr>ProcWorker = Some w, ProcActs = [], MetricsDown = False, HealthDown = False\<rparr>"
    and "ends \<longleftrightarrow> l \<noteq> NeverEnds" and "parts = process_parts l i j k deadline merr herr port hs"
  shows "\<exists>post w'. teardown_acts ends i @ post = teardown_acts ends 3 \<and> (if ends then worker_ended w' else worker_running w') \<and>
    snd (Shutdown (SvcCoordinator (service_of parts cfg wk pipelines)) (signal_process p0)) =
      (let metrics = MetricsPort (Service cfg) > 0
       in (\<lparr>ProcWorker = Some w',
            ProcActs = map ByWorker (teardown_acts ends i) @ [HealthStopped] @ map ByWorker post @ [WorkerAwaited] @
              (if metrics then [MetricsStopped] else []),
            MetricsDown = metrics, HealthDown = True\<rparr>,
           logged_error ''health server'' herr @
             logged_error ''pipeline worker'' (if ends then None else Some deadline) @
             (if metrics then logged_error ''metrics server'' merr else [])))"
proof -
  let ?w = "w\<lparr>worker_cancelled := True\<rparr>"
  obtain w1 where w1: "worker_turns ends i ?w = (teardown_acts ends i, w1)"
    using teardown_turns(1) [OF assms(1), of ends i] by (metis prod.collapse)
  obtain b w2 where w2: "worker_turns ends j w1 = (b, w2)" by fastforce
  have ij: "worker_turns ends (i + j) ?w = (teardown_acts ends i @ b, w2)" by (simp add: worker_turns_add w1 w2)
  from stop_worker_after [OF assms(1) ij, of deadline] obtain c w3 where
    c: "teardown_acts ends i @ b @ c = teardown_acts ends 3" and
    run: "worker_turns ends (i + j + 3) ?w = (teardown_acts ends 3, w3)" and
    stop: "worker_Stop ends (Some deadline) (Some w2) = Some (c, Some w3, if ends then None else Some deadline)" and
    w3: "if ends then worker_ended w3 else worker_running w3" by auto
  obtain d w4 where w4: "worker_turns ends k w3 = (d, w4)" by fastforce
  have all: "worker_turns ends (i + j + 3 + k) ?w = (teardown_acts ends 3 @ d, w4)"
    unfolding worker_turns_add [of ends "i + j + 3"] run by (simp add: w4)
  have d: "d = []"
    using teardown_turns(1) [OF assms(1), of ends "i + j + 3 + k"] unfolding all by (simp add: teardown_acts_def split: if_splits)
  have "if ends then worker_ended w4 else worker_running w4"
    using teardown_turns(2) [OF assms(1), of "i + j + 3 + k" ends] unfolding all by (cases ends) simp_all
  note ends = assms(3) [symmetric]
  define p1 where "p1 = \<lparr>ProcWorker = Some w1, ProcActs = map ByWorker (teardown_acts ends i) @ [HealthStopped],
    MetricsDown = False, HealthDown = True\<rparr>"
  define p2 where "p2 = p1\<lparr>ProcWorker := Some w3, ProcActs := ProcActs p1 @ map ByWorker (b @ c) @ [WorkerAwaited]\<rparr>"
  define p3 where "p3 = p2\<lparr>ProcWorker := Some w4, ProcActs := ProcActs p2 @ [MetricsStopped], MetricsDown := True\<rparr>"
  have "StopHealth parts (signal_process p0) = (p1, herr)"
    by (simp add: assms(2,4) process_parts_def signal_process_def health_Shutdown_def goroutine_runs_def ends w1 log_act_def p1_def)
  moreover have "StopWorker parts p1 = (p2, if ends then None else Some deadline)"
    by (simp add: assms(4) process_parts_def stop_worker_def goroutine_runs_def ends w2 stop log_act_def p1_def p2_def)
  moreover have "StopMetrics parts p2 = (p3, merr)"
    by (simp add: assms(4) process_parts_def metrics_Shutdown_def goroutine_runs_def ends w4 d log_act_def p1_def p2_def p3_def)
  ultimately have "snd (Shutdown (SvcCoordinator (service_of parts cfg wk pipelines)) (signal_process p0)) =
    (if MetricsPort (Service cfg) > 0 then p3 else p2,
     logged_error ''health server'' herr @ logged_error ''pipeline worker'' (if ends then None else Some deadline) @
     (if MetricsPort (Service cfg) > 0 then logged_error ''metrics server'' merr else []))"
    by (simp add: Shutdown_def service_of_def stop_tasks_logged del: stop_tasks.simps(2))
  with c w3 \<open>if ends then worker_ended w4 else worker_running w4\<close> show ?thesis
    by (intro exI [of _ "b @ c"] exI [of _ "if MetricsPort (Service cfg) > 0 then w4 else w3"])
      (simp add: Let_def p1_def p2_def p3_def)
qed

lemma run_main_shutdown:
  assumes "run_main io (process_parts l i j k deadline merr herr port hs) signal_process (live_process l) = (acts, Up (p, logged))"
    and "load_settings io = Inr cfg" and "ends \<longleftrightarrow> l \<noteq> NeverEnds"
  shows "\<exists>post w. teardown_acts ends i @ post = teardown_acts ends 3 \<and> (if ends then worker_ended w else worker_running w) \<and>
    p = \<lparr>ProcWorker = Some w,
         ProcActs = map ByWorker (teardown_acts ends i) @ [HealthStopped] @ map ByWorker post @ [WorkerAwaited] @
           (if MetricsPort (Service cfg) > 0 then [MetricsStopped] else []),
         MetricsDown = (MetricsPort (Service cfg) > 0), HealthDown = True\<rparr> \<and>
    logged = logged_error ''health server'' herr @
      logged_error ''pipeline worker'' (if ends then None else Some deadline) @
      (if MetricsPort (Service cfg) > 0 then logged_error ''metrics server'' merr else [])"
proof -
  let ?parts = "process_parts l i j k deadline merr herr port hs"
  obtain svc where boot: "boot io ?parts = (acts, Up svc)"
    and stop: "snd (Shutdown (SvcCoordinator svc) (signal_process (live_process l svc))) = (p, logged)"
    using assms(1) by (auto simp: run_main_def split: prod.splits boot_end.splits)
  obtain wk pipelines where svc: "svc = service_of ?parts cfg wk pipelines" and "worker_fresh wk"
    using up_service [OF boot] assms(2) by auto
  then have "worker_fresh (SvcWorker svc)" by (simp add: service_of_def)
  from live_worker [OF this] obtain w where w: "worker_fresh w"
    "live_process l svc = \<lparr>ProcWorker = Some w, ProcActs = [], MetricsDown = False, HealthDown = False\<rparr>" by blast
  from process_shutdown [OF w assms(3) refl, of i j k deadline merr herr port hs cfg wk pipelines] stop
  show ?thesis unfolding svc Let_def by (metis prod.inject)
qed

section \<open>A sample\<close>

definition sample_settings :: "string \<Rightarrow> int \<Rightarrow> config" where
  "sample_settings level port =
     sample_worker_config\<lparr>Service := (Service sample_worker_config)\<lparr>LogLevel := level, HealthPort := port\<rparr>\<rparr>"

definition sample_surroundings :: "string \<Rightarrow> int \<Rightarrow> unit surroundings" where
  "sample_surroundings level port =
     \<lparr>Env = (\<lambda>k. None), ReadFile = (\<lambda>p. Inr []), JsonDecoder = (\<lambda>d. Inl ErrDrop), YamlDecoder = (\<lambda>d. Inr (sample_settings level port)),
      CompileRegexp = (\<lambda>r. Inl ErrDrop), BuildLogger = (\<lambda>l. None), Listen = (\<lambda>p. None), MarshalConfig = (\<lambda>v. Inr ''null''),
      Transforms = sample_registry, MapOrder = sorted_keys, ConsumerClient = (\<lambda>c. None), ProducerClient = (\<lambda>b a. None)\<rparr>"

definition sample_parts :: "string list service_parts" where
  "sample_parts =
     \<lparr>StopMetrics = (\<lambda>w. (w @ [''metrics''], None)), StopWorker = (\<lambda>w. (w @ [''worker''], Some ErrDrop)),
      StopHealth = (\<lambda>w. (w @ [''health''], None)), WorkerHealth = (\<lambda>w. (w, None))\<rparr>"

lemma sample_loads: "load_settings (sample_surroundings ''info'' 8080) = Inr (applyDefaults (sample_settings ''info'' 8080))"
  "load_settings (sample_surroundings ''Fatal '' 8080) = Inr (applyDefaults (sample_settings ''Fatal '' 8080))"
  "load_settings (sample_surroundings [] 0) = Inr (applyDefaults (sample_settings [] 0))"
  by code_simp+

lemma sample_level: "NewLogger (\<lambda>l. None) ''info'' = Inr InfoLevel"
  by code_simp

lemma sample_starts:
  assumes "cfg = applyDefaults (sample_settings level port)"
  shows "\<exists>wacts wk pipelines. startPipelineWorker (MarshalConfig (sample_surroundings level port))
    (Transforms (sample_surroundings level port)) (MapOrder (sample_surroundings level port))
    (ConsumerClient (sample_surroundings level port)) (ProducerClient (sample_surroundings level port)) cfg =
    (wacts, Some (Inr (wk, pipelines)))"
proof -
  have "Pipelines cfg = Pipelines sample_worker_config" "ConsumerBrokers (Consumer (Kafka cfg)) = [''b'']"
      "GroupID (Consumer (Kafka cfg)) = ''g''" "ProducerBrokers (Producer (Kafka cfg)) = [''b'']"
    by (simp_all add: assms applyDefaults_def sample_settings_def sample_worker_config_def)
  with sample_pipelines_built sample_topics show ?thesis
    by (simp add: startPipelineWorker_def NewConsumer_def NewProducer_def Start_def consumer_settings_of_def
        sample_surroundings_def Let_def)
qed

lemma sample_config_fields:
  "LogLevel (Service (applyDefaults (sample_settings level port))) = (if level = [] then ''info'' else level)"
  "HealthPort (Service (applyDefaults (sample_settings level port))) = port"
  "MetricsPort (Service (applyDefaults (sample_settings level port))) = 9090"
  "BuildLogger (sample_surroundings level port) = (\<lambda>l. None)"
  by (simp_all add: applyDefaults_def default_to_def sample_settings_def sample_surroundings_def sample_worker_config_def sample_config_def)

lemma sample_runs:
  "\<exists>acts p logged. run_main (sample_surroundings ''info'' 8080) parts cancel live = (acts, Up (p, logged))"
proof -
  let ?io = "sample_surroundings ''info'' 8080"
  obtain wacts wk pipelines where w: "startPipelineWorker (MarshalConfig ?io) (Transforms ?io) (MapOrder ?io) (ConsumerClient ?io)
      (ProducerClient ?io) (applyDefaults (sample_settings ''info'' 8080)) = (wacts, Some (Inr (wk, pipelines)))"
    using sample_starts [OF refl] by blast
  from boot_up [OF sample_loads(1) _ w, of InfoLevel parts] obtain acts svc where "boot ?io parts = (acts, Up svc)"
    by (auto simp: sample_config_fields sample_level)
  moreover obtain c p logged where "Shutdown (SvcCoordinator svc) (cancel (live svc)) = (c, p, logged)"
    by (metis prod.exhaust)
  ultimately show ?thesis by (simp add: run_main_def)
qed

section \<open>Properties\<close>

text \<open>The service comes up exactly when the settings are valid, the logger has the level, the worker starts and
  the health port is not zero. What listening on the two ports answers does not matter: a service whose ports are
  taken runs without its servers.\<close>

theorem boot_up_iff:
  "(\<exists>acts svc. boot io parts = (acts, Up svc)) \<longleftrightarrow>
   (\<exists>cfg level wacts wk pipelines. load_settings io = Inr cfg \<and>
     NewLogger (BuildLogger io) (LogLevel (Service cfg)) = Inr level \<and>
     startPipelineWorker (MarshalConfig io) (Transforms io) (MapOrder io) (ConsumerClient io) (ProducerClient io) cfg =
       (wacts, Some (Inr (wk, pipelines))) \<and> HealthPort (Service cfg) \<noteq> 0)"
  using boot_up boot_up_only by blast

text \<open>C37: After the signal the coordinator stops the health server, then waits for the worker, then stops the metrics
  server (where there is one), each once and also after errors, which it reports in this order; a second
  shutdown stops nothing. The signal also wakes the goroutine of the worker, which runs beside the coordinator: it
  stops the consumer and then closes the producer, each once, somewhere before the wait for the worker is over,
  and after three turns both before the health server is stopped. When the fetch loop does not end, it only
  begins to stop the consumer and the wait ends with the deadline.\<close>

theorem shutdown_order:
  assumes "run_main io (process_parts l i j k deadline merr herr port hs) signal_process (live_process l) = (acts, Up (p, logged))"
    and "load_settings io = Inr cfg"
  shows "\<exists>early late. ProcActs p = map ByWorker early @ [HealthStopped] @ map ByWorker late @ [WorkerAwaited] @
      (if MetricsPort (Service cfg) > 0 then [MetricsStopped] else []) \<and>
    early @ late = (if l = NeverEnds then [StopConsumer] else [StopConsumer, CloseProducer]) \<and>
    (early = [] \<longleftrightarrow> i = 0) \<and> (late = [] \<longleftrightarrow> 3 \<le> i \<or> l = NeverEnds \<and> 0 < i) \<and>
    logged = logged_error ''health server'' herr @
      logged_error ''pipeline worker'' (if l = NeverEnds then Some deadline else None) @
      (if MetricsPort (Service cfg) > 0 then logged_error ''metrics server'' merr else []) \<and>
    (\<forall>(c :: process coordinator) q q'. Shutdown (fst (Shutdown c q)) q' = (fst (Shutdown c q), q', []))"
proof -
  define ends where "ends \<longleftrightarrow> l \<noteq> NeverEnds"
  from run_main_shutdown [OF assms ends_def] obtain post w where
    post: "teardown_acts ends i @ post = teardown_acts ends 3" and
    p: "p = \<lparr>ProcWorker = Some w,
         ProcActs = map ByWorker (teardown_acts ends i) @ [HealthStopped] @ map ByWorker post @ [WorkerAwaited] @
           (if MetricsPort (Service cfg) > 0 then [MetricsStopped] else []),
         MetricsDown = (MetricsPort (Service cfg) > 0), HealthDown = True\<rparr>" and
    logged: "logged = logged_error ''health server'' herr @
      logged_error ''pipeline worker'' (if ends then None else Some deadline) @
      (if MetricsPort (Service cfg) > 0 then logged_error ''metrics server'' merr else [])" by blast
  have again: "Shutdown (fst (Shutdown c q)) q' = (fst (Shutdown c q), q', [])" for c :: "process coordinator" and q q'
    by (auto simp: Shutdown_def split: prod.split)
  have "teardown_acts ends i @ post = (if l = NeverEnds then [StopConsumer] else [StopConsumer, CloseProducer])"
    "teardown_acts ends i = [] \<longleftrightarrow> i = 0" "post = [] \<longleftrightarrow> 3 \<le> i \<or> l = NeverEnds \<and> 0 < i"
    using post by (auto simp: teardown_acts_def ends_def split: if_splits)
  with p logged again show ?thesis
    by (intro exI [of _ "teardown_acts ends i"] exI [of _ post]) (simp add: ends_def)
qed

theorem shutdown_order_witness:
  "\<exists>acts p logged. run_main (sample_surroundings ''info'' 8080)
      (process_parts WillEnd 3 0 0 ErrDrop None None 9090 \<lparr>HealthServerPort = 8080, Checks = []\<rparr>)
      signal_process (live_process WillEnd) = (acts, Up (p, logged)) \<and>
    ProcActs p = [ByWorker StopConsumer, ByWorker CloseProducer, HealthStopped, WorkerAwaited, MetricsStopped]"
proof -
  obtain acts p logged where run: "run_main (sample_surroundings ''info'' 8080)
      (process_parts WillEnd 3 0 0 ErrDrop None None 9090 \<lparr>HealthServerPort = 8080, Checks = []\<rparr>)
      signal_process (live_process WillEnd) = (acts, Up (p, logged))"
    using sample_runs [of "process_parts WillEnd 3 0 0 ErrDrop None None 9090 \<lparr>HealthServerPort = 8080, Checks = []\<rparr>"
        signal_process "live_process WillEnd"] by blast
  from shutdown_order [OF run sample_loads(1)] have
    "ProcActs p = [ByWorker StopConsumer, ByWorker CloseProducer, HealthStopped, WorkerAwaited, MetricsStopped]"
    by (auto simp: sample_config_fields)
  with run show ?thesis by blast
qed

text \<open>C19: The end of the process. When the fetch loop ends in time, by itself or because it is cancelled, the worker
  stops its consumer, then closes its producer, and its health check fails from then on; when a handler keeps the loop
  from ending, the coordinator reports the deadline, goes on with the metrics server, and the producer stays open.
  It is so however the goroutine of the worker and the coordinator take turns.\<close>

theorem process_ends:
  assumes "run_main io (process_parts l i j k deadline merr herr port hs) signal_process (live_process l) = (acts, Up (p, logged))"
  shows "HealthDown p \<and> (herr \<noteq> None \<longrightarrow> (''health server'', the herr) \<in> set logged) \<and>
    (\<exists>w. ProcWorker p = Some w \<and>
       (if l \<noteq> NeverEnds then worker_ended w \<and> worker_acts p = [StopConsumer, CloseProducer] \<and> snd (check_worker p) \<noteq> None
        else (''pipeline worker'', deadline) \<in> set logged \<and> worker_running w \<and> worker_acts p = [StopConsumer] \<and>
          snd (check_worker p) = None))"
proof -
  define ends where "ends \<longleftrightarrow> l \<noteq> NeverEnds"
  obtain svc where "boot io (process_parts l i j k deadline merr herr port hs) = (acts, Up svc)"
    using assms by (auto simp: run_main_def split: prod.splits boot_end.splits)
  then obtain cfg where "load_settings io = Inr cfg" using up_service by blast
  from run_main_shutdown [OF assms this ends_def] obtain post w where
    post: "teardown_acts ends i @ post = teardown_acts ends 3" and w: "if ends then worker_ended w else worker_running w" and
    p: "p = \<lparr>ProcWorker = Some w,
         ProcActs = map ByWorker (teardown_acts ends i) @ [HealthStopped] @ map ByWorker post @ [WorkerAwaited] @
           (if MetricsPort (Service cfg) > 0 then [MetricsStopped] else []),
         MetricsDown = (MetricsPort (Service cfg) > 0), HealthDown = True\<rparr>" and
    logged: "logged = logged_error ''health server'' herr @
      logged_error ''pipeline worker'' (if ends then None else Some deadline) @
      (if MetricsPort (Service cfg) > 0 then logged_error ''metrics server'' merr else [])" by blast
  have "worker_acts p = teardown_acts ends i @ post"
    by (simp add: worker_acts_def p List.map_filter_def o_def)
  with post have acts: "worker_acts p = (if ends then [StopConsumer, CloseProducer] else [StopConsumer])"
    by (simp add: teardown_acts_def)
  show ?thesis
    using acts w logged unfolding ends_def
    by (cases "l = NeverEnds")
      (auto simp: p check_worker_def worker_HealthCheck_def worker_ended_def worker_running_def logged_error_def)
qed

theorem process_ends_witness:
  "\<exists>acts p logged. run_main (sample_surroundings ''info'' 8080)
      (process_parts NeverEnds 1 0 0 ErrDrop None None 9090 \<lparr>HealthServerPort = 8080, Checks = []\<rparr>)
      signal_process (live_process NeverEnds) = (acts, Up (p, logged)) \<and>
    (''pipeline worker'', ErrDrop) \<in> set logged \<and> worker_acts p = [StopConsumer]"
proof -
  obtain acts p logged where run: "run_main (sample_surroundings ''info'' 8080)
      (process_parts NeverEnds 1 0 0 ErrDrop None None 9090 \<lparr>HealthServerPort = 8080, Checks = []\<rparr>)
      signal_process (live_process NeverEnds) = (acts, Up (p, logged))"
    using sample_runs [of "process_parts NeverEnds 1 0 0 ErrDrop None None 9090 \<lparr>HealthServerPort = 8080, Checks = []\<rparr>"
        signal_process "live_process NeverEnds"] by blast
  from process_ends [OF run] run show ?thesis by auto
qed

text \<open>Every log level that only the validation knows (\<open>dpanic\<close>, \<open>panic\<close> and \<open>fatal\<close>) ends the process before
  anything is opened, although the settings are valid.\<close>

theorem log_level_exits:
  assumes "load_settings io = Inr cfg"
    and "ascii_lower (trim_space (LogLevel (Service cfg))) \<in> {''dpanic'', ''panic'', ''fatal''}"
  shows "\<exists>err. boot io parts = ([], Exit ''failed to build logger'' err)"
  using assms by (auto simp: boot_def NewLogger_def Let_def)

theorem log_level_exits_witness:
  "\<exists>err. boot (sample_surroundings ''Fatal '' 8080) sample_parts = ([], Exit ''failed to build logger'' err)"
proof -
  have "ascii_lower (trim_space ''Fatal '') = ''fatal''" by code_simp
  then show ?thesis by (intro log_level_exits [OF sample_loads(2)]) (simp add: sample_config_fields)
qed

text \<open>A health port of zero, which the validation takes as disabled, ends the process after the worker was
  started; what the worker opened is left open, for nothing stops it then.\<close>

theorem health_port_zero_exits:
  assumes "load_settings io = Inr cfg" and "HealthPort (Service cfg) = 0"
    and "NewLogger (BuildLogger io) (LogLevel (Service cfg)) = Inr level"
    and "startPipelineWorker (MarshalConfig io) (Transforms io) (MapOrder io) (ConsumerClient io) (ProducerClient io) cfg =
      (wacts, Some (Inr (wk, pipelines)))"
  shows "\<exists>acts err. boot io parts = (acts, Exit ''failed to create health server'' err) \<and>
    FromWorker StartLoop \<in> set acts \<and> FromWorker StopConsumer \<notin> set acts \<and> FromWorker CloseProducer \<notin> set acts"
proof -
  obtain macts c where m: "start_metrics io parts cfg NewCoordinator = (macts, c)" by fastforce
  then have macts: "FromWorker a \<notin> set macts" for a by (auto simp: start_metrics_def split: if_splits sum.splits)
  obtain topics ack where w: "wacts = [OpenConsumer topics, OpenProducer ack, StartLoop]"
    using assms(4) by (auto simp: startPipelineWorker_def Let_def stop_consumer_def split: sum.splits option.splits)
  obtain err where "start_health io parts cfg (RegisterTask ''pipeline worker'' (Some (ShutdownFunc (Some (StopWorker parts)))) c) = Inl err"
    using assms(2) by (simp add: start_health_def NewHealthServer_def bind_res_def)
  with boot_settings [OF assms(1,3,4) m] have "boot io parts = (macts @ map FromWorker wacts, Exit ''failed to create health server'' err)"
    by simp
  with macts w show ?thesis by simp
qed

theorem health_port_zero_exits_witness:
  "\<exists>acts err. boot (sample_surroundings [] 0) sample_parts = (acts, Exit ''failed to create health server'' err) \<and>
    FromWorker StartLoop \<in> set acts"
proof -
  obtain wacts wk pipelines where w: "startPipelineWorker (MarshalConfig (sample_surroundings [] 0))
      (Transforms (sample_surroundings [] 0)) (MapOrder (sample_surroundings [] 0))
      (ConsumerClient (sample_surroundings [] 0)) (ProducerClient (sample_surroundings [] 0))
      (applyDefaults (sample_settings [] 0)) = (wacts, Some (Inr (wk, pipelines)))"
    using sample_starts [OF refl] by blast
  from health_port_zero_exits [OF sample_loads(3) _ _ w, of InfoLevel sample_parts] show ?thesis
    by (auto simp: sample_config_fields sample_level)
qed

text \<open>The names of the checks of a health server are never empty and never repeat, and it answers 200 exactly when
  all of its checks, which only look, pass; otherwise it answers 503.\<close>

theorem health_answer:
  assumes "NewHealthServer port True = Inr s0" and "fold try_check requests s0 = s"
    and "\<forall>(n, c) \<in> set (Checks s). fst (c w) = w"
  shows "distinct (map fst (Checks s)) \<and> [] \<notin> set (map fst (Checks s)) \<and>
    handleHealth s w =
      (if \<forall>(n, c) \<in> set (Checks s). snd (c w) = None then (w, 200, ''ok'') else (w, 503, ''unhealthy'' @ [CHR 0x0A]))"
proof -
  have "checks_ok s0" using assms(1) by (auto simp: NewHealthServer_def checks_ok_def split: if_splits)
  then have "checks_ok s" unfolding assms(2) [symmetric]
    by (rule fold_inv) (auto simp: try_check_def AddCheck_ok split: sum.splits)
  with run_checks_iff [OF assms(3)] show ?thesis
    by (cases "\<forall>(n, c) \<in> set (Checks s). snd (c w) = None") (simp_all add: checks_ok_def handleHealth_def)
qed

theorem health_answer_witness:
  "handleHealth (fold try_check [('' worker '', Some (\<lambda>w :: bool. (w, if w then None else Some ErrDrop))), (''worker'', None),
       (''worker'', Some (\<lambda>w. (w, Some ErrDrop)))] \<lparr>HealthServerPort = 8080, Checks = []\<rparr>) True = (True, 200, ''ok'')"
proof -
  have "trim_space '' worker '' = ''worker''" "trim_space ''worker'' = ''worker''" by code_simp+
  then have s: "fold try_check [('' worker '', Some (\<lambda>w :: bool. (w, if w then None else Some ErrDrop))), (''worker'', None),
      (''worker'', Some (\<lambda>w. (w, Some ErrDrop)))] \<lparr>HealthServerPort = 8080, Checks = []\<rparr> =
      \<lparr>HealthServerPort = 8080, Checks = [(''worker'', \<lambda>w. (w, if w then None else Some ErrDrop))]\<rparr>"
    by (simp add: try_check_def AddCheck_def Let_def)
  from health_answer [of 8080 "\<lparr>HealthServerPort = 8080, Checks = []\<rparr>", OF _ s, of True] show ?thesis
    unfolding s by (simp add: NewHealthServer_def)
qed

end
