(* ===== verification/Registrations.thy ===== *)
theory Registrations
  imports Field Data Agg_Window Worker
begin

text \<open>
  The transforms the service has: \<open>cmd/transform/main.go\<close> imports six packages for the \<open>init\<close> functions that
  register their factories, and the pipelines of the worker are made out of these. What the factories need of
  the libraries (the decoder of each configuration first) is a record of arguments.
\<close>

section \<open>The registry of the service\<close>

record 's libs =
  dec_window :: "window_config unmarshal"
  dec_count :: "count_config unmarshal"
  dec_case :: "case_config unmarshal"
  dec_convert :: "convert_config unmarshal"
  dec_encode :: "encode_config unmarshal"
  dec_format :: "format_config unmarshal"
  dec_hash :: "hash_config unmarshal"
  dec_join :: "join_config unmarshal"
  dec_mask :: "mask_config unmarshal"
  dec_regex :: "regex_config unmarshal"
  dec_str_split :: "str_split_config unmarshal"
  dec_add :: "add_config unmarshal"
  dec_extract :: "extract_config unmarshal"
  dec_flatten :: "unit unmarshal"
  dec_remove :: "remove_config unmarshal"
  dec_rename :: "rename_config unmarshal"
  dec_unflatten :: "unit unmarshal"
  dec_condition :: "condition_config unmarshal"
  dec_route :: "route_config unmarshal"
  dec_split :: "split_config unmarshal"
  dec_array :: "array_config unmarshal"
  dec_split_regex :: "split_regex_config unmarshal"
  dec_required :: "required_config unmarshal"
  dec_schema :: "schema_config unmarshal"
  dec_rules :: "rules_config unmarshal"
  lib_order :: iter
  lib_env :: go_env
  lib_render :: renderer
  lib_time :: time_lib
  lib_case :: case_lib
  lib_sprintf :: "string \<Rightarrow> gval list \<Rightarrow> string"
  lib_bcrypt :: "string \<Rightarrow> gerror + string"
  lib_read_file :: "string \<Rightarrow> gerror + string"
  lib_json :: "string \<Rightarrow> gerror + gval"
  lib_schema :: "gval \<Rightarrow> gerror + schema"
  agg_clock :: "'s \<Rightarrow> gtime"
  counts_of :: "string \<Rightarrow> 's \<Rightarrow> count_windows"
  set_counts :: "string \<Rightarrow> count_windows \<Rightarrow> 's \<Rightarrow> 's"
  windows_of :: "string \<Rightarrow> 's \<Rightarrow> window_transform"
  set_windows :: "string \<Rightarrow> window_transform \<Rightarrow> 's \<Rightarrow> 's"
  emit_windows :: "event list \<Rightarrow> 's \<Rightarrow> 's"

text \<open>
  In the order of the imports and of the files of each package. The windows of an aggregate are kept by its
  configuration, so the model is of services in which no two aggregates have the same.
\<close>

definition registrations :: "'s libs \<Rightarrow> (string \<times> 's factory) list" where
  "registrations l =
     [(''aggregate.window'', \<lambda>raw. window_factory (dec_window l) (agg_clock l) (windows_of l raw) (set_windows l raw) (emit_windows l) raw),
      (''aggregate.count'', \<lambda>raw. count_factory (dec_count l) (lib_render l) (agg_clock l) (counts_of l raw) (set_counts l raw) raw),
      (''data.case'', case_factory (lib_case l) (dec_case l)),
      (''data.convert'', convert_factory (lib_render l) (lib_time l) (dec_convert l)),
      (''data.encode'', encode_factory (dec_encode l)),
      (''data.format'', format_factory (lib_sprintf l) (dec_format l)),
      (''data.hash'', hash_factory (lib_bcrypt l) (dec_hash l)),
      (''data.join'', join_factory (lib_render l) (dec_join l)),
      (''data.mask'', mask_factory (env_compile (lib_env l)) (dec_mask l)),
      (''data.regex'', regex_factory (env_compile (lib_env l)) (dec_regex l)),
      (''data.split'', str_split_factory (dec_str_split l)),
      (''field.add'', add_factory (dec_add l)),
      (''field.extract'', extract_factory (dec_extract l)),
      (''field.flatten'', flatten_factory (lib_order l) (dec_flatten l)),
      (''field.remove'', remove_factory (dec_remove l)),
      (''field.rename'', rename_factory (lib_order l) (dec_rename l)),
      (''field.unflatten'', unflatten_factory (dec_unflatten l)),
      (''filter.condition'', condition_factory (lib_env l) (dec_condition l)),
      (''filter.route'', route_factory (lib_env l) (dec_route l)),
      (''filter.split'', split_factory (dec_split l)),
      (''split.array'', array_factory (dec_array l)),
      (''split.regex'', split_regex_factory (env_compile (lib_env l)) (dec_split_regex l)),
      (''validate.required'', required_factory (dec_required l)),
      (''validate.schema'', schema_factory (lib_read_file l) (lib_json l) (lib_schema l) (dec_schema l)),
      (''validate.rules'', rules_factory (lib_order l) (lib_env l) (dec_rules l))]"

definition service_registry :: "'s libs \<Rightarrow> 's registry" where
  "service_registry l = fold (\<lambda>nf. Register (fst nf) (snd nf)) (registrations l) fmempty"

section \<open>What the factories make\<close>

text \<open>A transform with the name it is registered under that takes single events only\<close>

definition takes_events :: "string \<Rightarrow> 's transform \<Rightarrow> bool" where
  "takes_events n t \<longleftrightarrow> Name t = n \<and>
     (\<forall>s x. (\<forall>ev. x \<noteq> IEvent ev) \<longrightarrow> (\<exists>s' msg args. Exec t s x = (s', Inl (Errorf msg args))))"

lemma pure_takes_events:
  assumes "pure_factory n configure execute raw = Inr t"
    and "\<And>cfg x. \<forall>ev. x \<noteq> IEvent ev \<Longrightarrow> \<exists>msg args. execute cfg x = Inl (Errorf msg args)"
  shows "takes_events n t"
  using assms by (auto simp: pure_factory_def pure_transform_def bind_res_Inr_iff takes_events_def)

lemma expect_event_other: "\<forall>ev. x \<noteq> IEvent ev \<Longrightarrow> \<exists>msg args. expect_event f x = Inl (Errorf msg args)"
  by (cases x) (auto simp: expect_event_def)

lemma factories_take_events:
  "window_factory um1 clock get1 put1 emit raw = Inr t \<Longrightarrow> takes_events ''aggregate.window'' t"
  "count_factory um2 r clock get2 put2 raw = Inr t \<Longrightarrow> takes_events ''aggregate.count'' t"
  by (auto simp: window_factory_def count_factory_def stateful_transform_def bind_res_Inr_iff takes_events_def
      window_Execute_def count_Execute_def split: item.split)

lemma data_take_events:
  "case_factory clib um1 raw = Inr t \<Longrightarrow> takes_events ''data.case'' t"
  "convert_factory r tlib um2 raw = Inr t \<Longrightarrow> takes_events ''data.convert'' t"
  "encode_factory um3 raw = Inr t \<Longrightarrow> takes_events ''data.encode'' t"
  "format_factory sp um4 raw = Inr t \<Longrightarrow> takes_events ''data.format'' t"
  "hash_factory bc um5 raw = Inr t \<Longrightarrow> takes_events ''data.hash'' t"
  "join_factory r um6 raw = Inr t \<Longrightarrow> takes_events ''data.join'' t"
  "mask_factory co um7 raw = Inr t \<Longrightarrow> takes_events ''data.mask'' t"
  "regex_factory co um8 raw = Inr t \<Longrightarrow> takes_events ''data.regex'' t"
  "str_split_factory um9 raw = Inr t \<Longrightarrow> takes_events ''data.split'' t"
  unfolding case_factory_def convert_factory_def encode_factory_def format_factory_def hash_factory_def
    join_factory_def mask_factory_def regex_factory_def str_split_factory_def
  by (erule pure_takes_events, simp add: case_Execute_def convert_Execute_def encode_Execute_def format_Execute_def
      hash_Execute_def join_Execute_def mask_Execute_def regex_Execute_def str_split_Execute_def expect_event_other)+

lemma field_take_events:
  "add_factory um1 raw = Inr t \<Longrightarrow> takes_events ''field.add'' t"
  "extract_factory um2 raw = Inr t \<Longrightarrow> takes_events ''field.extract'' t"
  "flatten_factory ord um3 raw = Inr t \<Longrightarrow> takes_events ''field.flatten'' t"
  "remove_factory um4 raw = Inr t \<Longrightarrow> takes_events ''field.remove'' t"
  "rename_factory ord um5 raw = Inr t \<Longrightarrow> takes_events ''field.rename'' t"
  "unflatten_factory um3 raw = Inr t \<Longrightarrow> takes_events ''field.unflatten'' t"
  unfolding add_factory_def extract_factory_def flatten_factory_def remove_factory_def rename_factory_def unflatten_factory_def
  by (erule pure_takes_events, simp add: add_Execute_def extract_Execute_def flatten_Execute_def remove_Execute_def
      rename_Execute_def unflatten_Execute_def)+

lemma filter_take_events:
  "condition_factory env um1 raw = Inr t \<Longrightarrow> takes_events ''filter.condition'' t"
  "route_factory env um2 raw = Inr t \<Longrightarrow> takes_events ''filter.route'' t"
  "split_factory um3 raw = Inr t \<Longrightarrow> takes_events ''filter.split'' t"
  "array_factory um4 raw = Inr t \<Longrightarrow> takes_events ''split.array'' t"
  "split_regex_factory co um5 raw = Inr t \<Longrightarrow> takes_events ''split.regex'' t"
  "required_factory um6 raw = Inr t \<Longrightarrow> takes_events ''validate.required'' t"
  "schema_factory rf js ns um7 raw = Inr t \<Longrightarrow> takes_events ''validate.schema'' t"
  "rules_factory ord env um8 raw = Inr t \<Longrightarrow> takes_events ''validate.rules'' t"
  unfolding condition_factory_def route_factory_def split_factory_def array_factory_def split_regex_factory_def
    required_factory_def schema_factory_def rules_factory_def
  by (erule pure_takes_events, simp add: condition_Execute_def route_Execute_def split_Execute_def array_Execute_def
      split_regex_Execute_def required_Execute_def schema_Execute_def rules_Execute_def)+

lemma registered_take_events:
  "(n, f) \<in> set (registrations l) \<Longrightarrow> f raw = Inr t \<Longrightarrow> takes_events n t"
  using factories_take_events data_take_events field_take_events filter_take_events
  by (simp add: registrations_def) (elim disjE conjE; simp)

lemma fold_Register:
  "distinct (map fst nfs) \<Longrightarrow> fmlookup (fold (\<lambda>nf. Register (fst nf) (snd nf)) nfs r) n =
     (case map_of nfs n of Some f \<Rightarrow> Some f | None \<Rightarrow> fmlookup r n)"
proof (induction nfs arbitrary: r)
  case (Cons nf nfs)
  obtain k f where nf: "nf = (k, f)" by fastforce
  with Cons.prems have "map_of nfs k = None" by (simp add: map_of_eq_None_iff)
  with Cons nf show ?case by (simp add: Register_def split: option.splits)
qed simp

lemma service_registry_lookup: "fmlookup (service_registry l) n = map_of (registrations l) n"
proof -
  have "distinct (map fst (registrations l))" by (simp add: registrations_def)
  from fold_Register [OF this] show ?thesis by (simp add: service_registry_def split: option.split)
qed

text \<open>The transforms of a pipeline of the service\<close>

lemma pipeline_take_events:
  assumes "NewPipeline marshal (service_registry l) pid ds = Inr pipe"
  shows "list_all2 (\<lambda>d t. takes_events (DescType d) t) ds (pipeline_transforms pipe)"
proof -
  have "create_all marshal (service_registry l) 0 ds = Inr (pipeline_transforms pipe)"
    using assms by (auto simp: NewPipeline_def bind_res_Inr_iff split: if_splits)
  then have "list_all2 (\<lambda>d tr. \<exists>cfg. marshal (DescConfig d) = Inr cfg \<and> Create (service_registry l) (DescType d) cfg = Inr tr)
      ds (pipeline_transforms pipe)" by (simp add: create_all_iff)
  then show ?thesis
  proof (rule list_all2_mono)
    fix d t assume "\<exists>cfg. marshal (DescConfig d) = Inr cfg \<and> Create (service_registry l) (DescType d) cfg = Inr t"
    then obtain raw f where "map_of (registrations l) (DescType d) = Some f" "f raw = Inr t"
      by (auto simp: Create_def service_registry_lookup split: option.splits)
    then show "takes_events (DescType d) t" by (blast dest: map_of_SomeD intro: registered_take_events)
  qed
qed

lemma many_events_fail:
  assumes "list_all2 (\<lambda>d t. takes_events (DescType d) t) ds ts" and "j < length ds" and "evs \<noteq> []" and "ctx j = None"
    and "run_transforms ctx 0 (take j ts) s x = (s1, Inr (IEvents evs))"
  shows "\<exists>s2 msg args. run_transforms ctx 0 ts s x =
    (s2, Inl (Wrapf ''transform %s failed: %w'' [VStr (DescType (ds ! j))] (Errorf msg args)))"
proof -
  have j: "j < length ts" "takes_events (DescType (ds ! j)) (ts ! j)"
    using assms(1,2) by (auto simp: list_all2_conv_all_nth)
  obtain s2 msg args where ex: "Exec (ts ! j) s1 (IEvents evs) = (s2, Inl (Errorf msg args))"
    using j(2) unfolding takes_events_def by (metis item.distinct(7))
  have "ts = take j ts @ ts ! j # drop (Suc j) ts" using j(1) by (simp add: id_take_nth_drop)
  moreover have "Name (ts ! j) = DescType (ds ! j)" using j(2) by (simp add: takes_events_def)
  ultimately show ?thesis
    using run_transforms_append [of ctx 0 "take j ts" "ts ! j # drop (Suc j) ts" s x] assms(4,5) ex j(1)
    by (simp add: run_transforms_step wrap_err_def min_def)
qed

section \<open>Properties\<close>

text \<open>The service registers these 25 types of transforms and no type of the enrichment packages.\<close>

theorem registered_types:
  "Registered (service_registry l) =
    [''aggregate.count'', ''aggregate.window'', ''data.case'', ''data.convert'', ''data.encode'', ''data.format'', ''data.hash'',
     ''data.join'', ''data.mask'', ''data.regex'', ''data.split'', ''field.add'', ''field.extract'', ''field.flatten'',
     ''field.remove'', ''field.rename'', ''field.unflatten'', ''filter.condition'', ''filter.route'', ''filter.split'',
     ''split.array'', ''split.regex'', ''validate.required'', ''validate.rules'', ''validate.schema'']"
proof -
  have "fmdom (service_registry l) = fset_of_list (map fst (registrations l))"
  proof (rule fset_eqI)
    fix n
    have "n |\<in>| fmdom (service_registry l) \<longleftrightarrow> map_of (registrations l) n \<noteq> None"
      by (simp add: fmlookup_dom_iff service_registry_lookup)
    then show "n |\<in>| fmdom (service_registry l) \<longleftrightarrow> n |\<in>| fset_of_list (map fst (registrations l))"
      by (simp add: map_of_eq_None_iff fset_of_list_elem fset_of_list.rep_eq)
  qed
  then have "Registered (service_registry l) = sorted_list_of_set (set (map fst (registrations l)))"
    by (simp add: Registered_def sorted_list_of_fset.rep_eq fset_of_list.rep_eq)
  then show ?thesis by (simp add: registrations_def)
qed

text \<open>C11: In a pipeline of the service nothing can follow a transform that made several events: whatever the next
  transform is, it refuses them, the pipeline fails and the record goes to the dead-letter topic as it came.\<close>

theorem splitter_must_be_last:
  assumes "NewPipeline marshal (service_registry l) pid ds = Inr pipe"
    and "fmlookup pipelines (RecTopic r) = Some \<lparr>Pipe = pipe, InfoCfg = cfg\<rparr>"
    and "DecodePayload io (RecValue r) = Inr payload"
    and "run_transforms ctx 0 (take j (pipeline_transforms pipe)) (Trans st) (IEvent (record_event r payload)) = (s1, Inr (IEvents evs))"
    and "evs \<noteq> []" and "j < length ds" and "ctx j = None"
  shows "\<exists>s2. handler io pipelines ctx st r = dead_letter io cfg r (st\<lparr>Trans := s2\<rparr>)"
  using many_events_fail [OF pipeline_take_events [OF assms(1)] assms(6,5,7,4)] assms(2,3)
  by (auto simp: handler_def Execute_def Let_def)

definition sample_libs :: "unit libs" where
  "sample_libs =
     \<lparr>dec_window = (\<lambda>r. Inl ErrDrop), dec_count = (\<lambda>r. Inl ErrDrop), dec_case = (\<lambda>r. Inl ErrDrop), dec_convert = (\<lambda>r. Inl ErrDrop),
      dec_encode = (\<lambda>r. Inl ErrDrop), dec_format = (\<lambda>r. Inl ErrDrop), dec_hash = (\<lambda>r. Inl ErrDrop), dec_join = (\<lambda>r. Inl ErrDrop),
      dec_mask = (\<lambda>r. Inl ErrDrop), dec_regex = (\<lambda>r. Inl ErrDrop), dec_str_split = (\<lambda>r. Inl ErrDrop),
      dec_add = (\<lambda>r. Inr \<lparr>AddField = ''b'', AddValue = VNil\<rparr>), dec_extract = (\<lambda>r. Inl ErrDrop), dec_flatten = (\<lambda>r. Inl ErrDrop),
      dec_remove = (\<lambda>r. Inl ErrDrop), dec_rename = (\<lambda>r. Inl ErrDrop), dec_unflatten = (\<lambda>r. Inl ErrDrop),
      dec_condition = (\<lambda>r. Inl ErrDrop), dec_route = (\<lambda>r. Inl ErrDrop), dec_split = (\<lambda>r. Inl ErrDrop),
      dec_array = (\<lambda>r. Inr \<lparr>ArrayField = ''a'', ArrayKey = ''v''\<rparr>), dec_split_regex = (\<lambda>r. Inl ErrDrop),
      dec_required = (\<lambda>r. Inl ErrDrop), dec_schema = (\<lambda>r. Inl ErrDrop), dec_rules = (\<lambda>r. Inl ErrDrop),
      lib_order = sorted_keys, lib_env = \<lparr>env_render = (\<lambda>v. []), env_compile = (\<lambda>r. Inl ErrDrop)\<rparr>, lib_render = (\<lambda>v. []),
      lib_time = \<lparr>time_parse = (\<lambda>f s. Inl ErrDrop), time_format = (\<lambda>f t. [])\<rparr>,
      lib_case = \<lparr>upper_table = (\<lambda>n. n), lower_table = (\<lambda>n. n), title_english = (\<lambda>s. s)\<rparr>, lib_sprintf = (\<lambda>f vs. []),
      lib_bcrypt = (\<lambda>s. Inl ErrDrop), lib_read_file = (\<lambda>s. Inl ErrDrop), lib_json = (\<lambda>s. Inl ErrDrop), lib_schema = (\<lambda>v. Inl ErrDrop),
      agg_clock = (\<lambda>s. 0), counts_of = (\<lambda>n s. fmempty), set_counts = (\<lambda>n w s. s), windows_of = (\<lambda>n s. empty_windows),
      set_windows = (\<lambda>n w s. s), emit_windows = (\<lambda>evs s. s)\<rparr>"

definition plain_state :: "(unit, unit) worker_state" where
  "plain_state = \<lparr>Trans = (), World = (), Counters = \<lparr>Processed = 0, Dropped = 0, SentToDLQ = 0, RoutedTo = fmempty\<rparr>\<rparr>"

theorem splitter_must_be_last_witness:
  "\<exists>pipe s2. NewPipeline (\<lambda>v. Inr ''c'') (service_registry sample_libs) ''p''
      [TransformDescriptor ''split.array'' VNil [] [], TransformDescriptor ''field.add'' VNil [] []] = Inr pipe \<and>
    handler (sample_io\<lparr>DecodePayload := (\<lambda>s. Inr (Some (fmupd ''a'' (VList (Some [VBool True])) fmempty)))\<rparr>)
      (fmupd ''in'' \<lparr>Pipe = pipe, InfoCfg = sample_pipeline_config\<rparr> fmempty) (\<lambda>i. None) plain_state sample_record =
    dead_letter (sample_io\<lparr>DecodePayload := (\<lambda>s. Inr (Some (fmupd ''a'' (VList (Some [VBool True])) fmempty)))\<rparr>)
      sample_pipeline_config sample_record (plain_state\<lparr>Trans := s2\<rparr>)"
proof -
  let ?ds = "[TransformDescriptor ''split.array'' VNil [] [], TransformDescriptor ''field.add'' VNil [] []]"
  let ?arr = "pure_transform ''split.array'' (array_Execute \<lparr>ArrayField = ''a'', ArrayKey = ''v''\<rparr>) :: unit transform"
  let ?add = "pure_transform ''field.add'' (add_Execute \<lparr>AddField = ''b'', AddValue = VNil\<rparr>) :: unit transform"
  let ?pipe = "\<lparr>pipeline_id = ''p'', pipeline_transforms = [?arr, ?add]\<rparr>"
  let ?payload = "Some (fmupd ''a'' (VList (Some [VBool True])) fmempty) :: gmap"
  have pipe: "NewPipeline (\<lambda>v. Inr ''c'') (service_registry sample_libs) ''p'' ?ds = Inr ?pipe"
    by (simp add: NewPipeline_def Create_def service_registry_lookup registrations_def array_factory_def add_factory_def
        pure_factory_def array_Configure_def add_Configure_def sample_libs_def bind_res_def)
  let ?ev = "record_event sample_record ?payload"
  have "GetField ?ev ''a'' = Some (VList (Some [VBool True]))" by code_simp
  then obtain evs where evs: "array_Execute \<lparr>ArrayField = ''a'', ArrayKey = ''v''\<rparr> (IEvent ?ev) = Inr (IEvents evs)" "evs \<noteq> []"
    by (simp add: array_Execute_def array_event_def slice_elems_def)
  then have run: "run_transforms (\<lambda>i. None) 0 (take 1 [?arr, ?add]) (Trans plain_state) (IEvent ?ev) = ((), Inr (IEvents evs))"
    by (simp add: run_transforms_step pure_transform_def item_live_def)
  show ?thesis
    using splitter_must_be_last [OF pipe, of "fmupd ''in'' \<lparr>Pipe = ?pipe, InfoCfg = sample_pipeline_config\<rparr> fmempty" sample_record
        sample_pipeline_config "sample_io\<lparr>DecodePayload := (\<lambda>s. Inr ?payload)\<rparr>" ?payload "\<lambda>i. None" 1 plain_state "()" evs] run evs(2) pipe
    by (simp add: sample_record_def)
qed

end
