(* ===== verification/Spec2Isabelle.thy ===== *)
theory Spec2Isabelle
  imports Event_Heap Builder Field Validate Data Agg_Count Agg_Window Http_Enrich Redis Postgres Processor Service Registrations
begin

text \<open>
  A verification development of ggt, a service in Go that reads change events from Kafka topics, runs each
  through the pipeline of its topic and writes the results to output, routed and dead-letter topics.

  \<^bold>\<open>How the program works.\<close> \<open>main\<close> (\<open>cmd/transform/main.go\<close>) loads the configuration (\<open>internal/config\<close>),
  makes the logger, the metrics server, the pipeline worker and the health server, waits for a signal and lets
  the coordinator (\<open>internal/shutdown\<close>) stop them. The worker builds a pipeline (\<open>internal/transform\<close>) for each
  configured one out of the registry of transforms, reads records through the consumer
  (\<open>internal/consumer\<close>), decodes a record into an event (\<open>pkg/event\<close>), runs the pipeline and sends what comes
  out through the producer (\<open>internal/producer\<close>). The transforms are in the packages below
  \<open>internal/transform\<close>; those of \<open>internal/enrichment\<close> ask HTTP services, Redis and Postgres behind an LRU
  cache, a circuit breaker and retries. Filters and routers evaluate conditions (\<open>internal/condition\<close>).

  \<^bold>\<open>Theories.\<close> The language and its library:
  \<^item> \<open>Go_Prelude\<close>: results with an error, strings, iteration over maps, the collections of hints;
    \<open>Go_Value\<close>: the values of an interface, errors and their wrapping; \<open>Go_Float\<close>, \<open>Go_Strconv\<close>, \<open>Go_Time\<close>:
    binary64, numbers and durations as text; \<open>Go_Utf8\<close>, \<open>Go_Runes\<close>, \<open>Go_Encode\<close>, \<open>Go_Sha256\<close>, \<open>Go_Regexp\<close>:
    runes, encodings, hashing, and the interface of regular expressions.
  \<^item> \<open>Runs\<close>: runs over a list of inputs and the locale of simulations.

  The program, in the order it is built up:
  \<^item> \<open>Event\<close>: \<open>pkg/event/event.go\<close>, \<open>GetField\<close>, \<open>SetField\<close>, \<open>RemoveField\<close> and \<open>Clone\<close> as functions; the locale of
    field stores states their laws. \<open>Event_Heap\<close>: the same code on a store of shared maps. \<open>Builder\<close>:
    \<open>pkg/event/builder.go\<close> on that store.
  \<^item> \<open>Condition\<close>: scanner, parser and evaluation of \<open>condition.go\<close>. \<open>Config\<close>: loading, overrides, validation.
  \<^item> \<open>Transform\<close>: the interface, the registry (locale \<open>factory_registry\<close>), building and running a pipeline, and
    the contracts of transforms on events (locales \<open>event_transform\<close> and \<open>envelope_transform\<close>, interpreted for every
    transform below).
  \<^item> \<open>Field\<close>, \<open>Filters\<close> (also splitters), \<open>Validate\<close>, \<open>Data\<close>, \<open>Agg_Count\<close>, \<open>Agg_Window\<close>: the packages of transforms.
  \<^item> \<open>Cache\<close>, \<open>Circuit\<close>: \<open>internal/enrichment/cache.go\<close>, \<open>http/circuit_breaker.go\<close>; \<open>Http\<close>, \<open>Http_Enrich\<close>, \<open>Redis\<close>,
    \<open>Postgres\<close>: the clients and their transforms.
  \<^item> \<open>Consumer\<close>: \<open>consumer/kafka.go\<close>, \<open>offset_manager.go\<close> and \<open>producer/kafka.go\<close>; \<open>Processor\<close>: \<open>processor.go\<close>.
  \<^item> \<open>Worker\<close>: the handler and the start of the pipeline worker; \<open>Registrations\<close>: the transforms the service
    has; \<open>Service\<close>: logger, metrics, health server,
    coordinator and \<open>main\<close>.

  \<^bold>\<open>How code becomes definitions.\<close> A function keeps its name where it is free (a prefix of its package
  otherwise) and its branches in their order. Errors are the left side of a sum and wrap as \<open>%w\<close> does; a panic
  is an error of its own, at the places where one can happen. Structs are records, integers words of their
  width where they can wrap. State, the clock and the outside world are passed and returned; what a third-party
  package or the network does is a record of functions on a world \<open>'w\<close>. The order in which Go visits a map is an
  argument that lists the keys of a set in any order. Where a mutex guards a structure, an operation under it is
  one step; where the code takes the lock again between looking and acting (\<open>Allow\<close> of the breaker, a full window
  before it emits, \<open>PreparedStmt\<close>), the two parts are one step as well, so calls of one structure follow each other
  whole. \<open>Processor\<close>, which has no lock, makes every access to shared state a step, and the goroutine that ends the
  worker takes turns with the coordinator: the signal wakes both.

  \<^bold>\<open>What the lemmas show.\<close> For each component: its well-formedness and that every operation keeps it
  (\<open>..._ok\<close>), what each branch of an operation returns, and the refinement of a simpler specification where it has
  one: the shared maps implement the functional ones, the running aggregates implement aggregation of whole
  windows, the cache with its list and map implements a list with the last used entry first, \<open>Validate\<close> decides the
  declarative constraints. The components compose: pipelines out of transforms that keep the envelope, the handler
  out of pipelines and the producer, the fetch loop out of the handler and the commits, the clients out of cache,
  breaker and retrier, the process out of all of them; the theorem at the end of
  this theory follows a record from the topic through start, loop, handler and producer to what is
  accepted or dropped for it. What is proved of commits is about the requests for them, with the answers of the
  broker beside: a commit may be refused, and the code only logs that. What is proved of the Redis client is about
  the keys of its cache, where a field of a hash and a plain key may meet. Aggregations are covered when their
  result names differ. Locales state the contracts between them: what a handler has to show for its
  records (\<open>accounting\<close>), what a factory registry or a transform promises, the laws of a field store and of a cache whose
  entries expire (\<open>expiring_store\<close>). Where
  the code falls short of its intent a theorem shows how: a window limited by its age alone never emits in the
  service (\<open>Agg_Window\<close>).

  \<^bold>\<open>Bounds and termination.\<close> No definition runs on fuel. Loops over data are recursive on it or have a measure
  (the scanner its position, the encodings the rest of the input, the templates the rest of the text). The fetch loop
  consumes the list of what its polls return; the retrier counts down its attempts. A call that may wait for
  ever (\<open>Stop\<close> of consumer and worker, the start of the worker) returns \<open>None\<close> when it does.

  \<^bold>\<open>Not modelled.\<close> Log output and the goroutines that only write it; tracing of durations; the JSON and YAML
  decoders, the regular expression engine, \<open>fmt\<close> beyond the verbs used, the case tables of Unicode, bcrypt, the JSON
  schema engine, the Kafka, Redis, Postgres, Prometheus and HTTP libraries, which are arguments; closing of rows and
  response bodies, whose errors the code ignores. Memory is not modelled outside \<open>Event_Heap\<close> and \<open>Builder\<close>: elsewhere
  values are copied, which those theories justify for the operations of events. \<open>pkg/errors\<close> declares two error
  values that nothing uses.
\<close>

section \<open>Every committed record is accounted for\<close>

lemma sample_start:
  "\<exists>wk. startPipelineWorker (\<lambda>v. Inr ''null'') sample_registry sorted_keys (\<lambda>c. None) (\<lambda>b a. None) sample_worker_config =
     ([OpenConsumer [''in''], OpenProducer AllISRAcks, StartLoop], Some (Inr (wk, sample_pipelines True)))"
  using sample_pipelines_built sample_topics
  by (simp add: startPipelineWorker_def NewConsumer_def NewProducer_def Start_def consumer_settings_of_def
      Let_def sample_worker_config_def sample_pipelines_def sample_config_def parseAcks_def)

text \<open>C4: start, fetch loop, handler, pipelines and producer together: in any run of the loop of a started
  worker over records of the topics it was opened for, whatever the broker answers and the transforms do,
  there are at least as many accepted messages and counted drops as records the loop asked to commit, so at
  least as many as were committed. A run that ends with the stop of the consumer, not with an error, has asked
  for the commit of every record it fetched, and has committed all of them exactly when no commit was refused.\<close>

theorem committed_records_accounted:
  assumes "startPipelineWorker marshal reg ord new_consumer new_producer cfg = (OpenConsumer topics # acts, Some (Inr (wk, pipelines)))"
    and "iter_ok ord"
    and "fetch_loop (lift_handler (\<lambda>st r. handler (logged_io io) pipelines (ctx r) st r)) (logging_commit (commit_in commit))
      (map_prod (rest_in tick rest) (\<lambda>l. l)) (st, []) polls = ((st', commits), e, n)"
    and "\<forall>fs \<in> set polls. \<forall>r \<in> set (fetched_records fs). RecTopic r \<in> set topics"
  shows "length (committed commits) \<le> length commits \<and>
    length commits + length (accepted st) + Dropped (Counters st) \<le> length (accepted st') + Dropped (Counters st') \<and>
    (e = Cancelled \<longrightarrow> map fst commits = concat (map fetched_records polls) \<and>
       (committed commits = concat (map fetched_records polls) \<longleftrightarrow> refused commits = []))"
proof (intro conjI impI)
  show "length (committed commits) \<le> length commits" by (rule successes_bound)
  have "\<forall>t \<in> set topics. fmlookup pipelines t \<noteq> None" using started_topics [OF assms(1,2)] by auto
  with worker_accounts.loop_accounts [OF assms(3)] assms(4)
  show "length commits + length (accepted st) + Dropped (Counters st) \<le> length (accepted st') + Dropped (Counters st')"
    by (simp add: accounted_def)
  assume "e = Cancelled"
  then show all: "map fst commits = concat (map fetched_records polls)" using fetch_loop_log [OF assms(3)] by auto
  show "committed commits = concat (map fetched_records polls) \<longleftrightarrow> refused commits = []"
    using no_failures [of commits] unfolding all by blast
qed

theorem committed_records_accounted_witness:
  "\<exists>st'. fetch_loop (lift_handler (\<lambda>st r. handler (logged_io sample_io) (sample_pipelines True) (\<lambda>i. None) st r))
      (logging_commit (commit_in (\<lambda>w r. (w, None)))) (map_prod (rest_in (\<lambda>s. s) (\<lambda>w. w)) (\<lambda>l. l)) (sample_state, [])
      [[(''in'', [(0, [sample_record])])]] = ((st', [(sample_record, None)]), Cancelled, 1) \<and>
    1 \<le> length (accepted st') + Dropped (Counters st')"
proof -
  let ?run = "fetch_loop (lift_handler (\<lambda>st r. handler (logged_io sample_io) (sample_pipelines True) (\<lambda>i. None) st r))
      (logging_commit (commit_in (\<lambda>w r. (w, None)))) (map_prod (rest_in (\<lambda>s. s) (\<lambda>w. w)) (\<lambda>l. l)) (sample_state, [])
      [[(''in'', [(0, [sample_record])])]]"
  have "snd (fst ?run) = [(sample_record, None)]" "fst (snd ?run) = Cancelled" "snd (snd ?run) = 1" by code_simp+
  then have run: "?run = ((fst (fst ?run), [(sample_record, None)]), Cancelled, 1)" by (metis prod.collapse)
  have "\<forall>fs \<in> set [[(''in'', [(0, [sample_record])])]]. \<forall>r \<in> set (fetched_records fs). RecTopic r \<in> set [''in'']"
    by (simp add: fetched_records_def sample_record_def)
  with sample_start committed_records_accounted [OF _ iter_ok_sorted run] run show ?thesis by fastforce
qed

end
